(* ===== verification/Prelude.thy ===== *)
theory Prelude
  imports Main "HOL-Library.AList" "HOL-Library.Sublist" "HOL-Library.Code_Target_Nat"
begin

text \<open>
  Shared ground of the development: the collections of rewrite rules the components fill, the
  lemmas on association lists (the model of a Go map) that their proofs use, and the two
  interfaces every stateful component has: a machine whose steps keep an invariant, and a bounded
  outgoing queue.

  A Go map is an association list with distinct keys: \<open>m[k] = v\<close> is \<open>AList.update k v m\<close>,
  \<open>delete(m, k)\<close> is \<open>AList.delete k m\<close>, \<open>m[k]\<close> is \<open>map_of m k\<close>, and a \<open>range\<close> over the map is a
  traversal of the list. Go's iteration order is unspecified; where the order could be seen the
  component proves that it cannot.
\<close>

named_theorems frame_simps "equations saying which parts of a state an operation leaves alone"
named_theorems inv_intros "preservation of the component invariants, one rule for each operation"

type_synonym ('k, 'v) gomap = "('k \<times> 'v) list"

section \<open>Association lists as Go maps\<close>

definition keys_distinct :: "('k, 'v) gomap \<Rightarrow> bool" where
  "keys_distinct m \<longleftrightarrow> distinct (map fst m)"

lemma keys_distinct_Nil [simp]: "keys_distinct []"
  by (simp add: keys_distinct_def)

lemma keys_distinct_update [simp]: "keys_distinct m \<Longrightarrow> keys_distinct (AList.update k v m)"
  by (simp add: keys_distinct_def distinct_update)

lemma keys_distinct_delete [simp]: "keys_distinct m \<Longrightarrow> keys_distinct (AList.delete k m)"
  by (simp add: keys_distinct_def distinct_delete)

lemma keys_distinct_mem: "keys_distinct m \<Longrightarrow> (k, v) \<in> set m \<longleftrightarrow> map_of m k = Some v"
  by (simp add: keys_distinct_def)

lemma map_of_update [simp]: "map_of (AList.update k v m) = (map_of m)(k \<mapsto> v)"
  by (rule update_conv')

lemma map_of_delete_upd [simp]: "map_of (AList.delete k m) = (map_of m)(k := None)"
  by (rule delete_conv')

lemma map_of_empty_iff: "m = [] \<longleftrightarrow> map_of m = Map.empty"
  by (cases m) (auto simp: fun_eq_iff)

lemma keys_distinct_snd_mem:
  "keys_distinct m \<Longrightarrow> v \<in> snd ` set m \<longleftrightarrow> (\<exists>k. map_of m k = Some v)"
  by (force simp: keys_distinct_mem [symmetric] image_iff)

section \<open>Machines with an invariant\<close>

text \<open>
  The chat server and the WebSocket hub are both driven by a stream of events. The shared
  contract: an invariant that holds at the start and that every event keeps.
\<close>

locale event_machine =
  fixes start :: "'s \<Rightarrow> bool"
    and step :: "'e \<Rightarrow> 's \<Rightarrow> 's"
    and inv :: "'s \<Rightarrow> bool"
  assumes inv_start: "start s \<Longrightarrow> inv s"
    and inv_step: "inv s \<Longrightarrow> inv (step e s)"
begin

lemma inv_run: "inv s \<Longrightarrow> inv (fold step es s)"
  by (induction es arbitrary: s) (auto intro: inv_step)

lemma inv_reach: "start s \<Longrightarrow> inv (fold step es s)"
  by (rule inv_run) (rule inv_start)

end

text \<open>A machine that implements an abstract one: each event is one abstract step, seen through \<open>abs\<close>. What
  the abstract steps keep then holds, seen through \<open>abs\<close>, of every state the machine can reach.\<close>

locale refined_machine = event_machine +
  fixes abs :: "'a \<Rightarrow> 'c"
    and astep :: "'c \<Rightarrow> 'c \<Rightarrow> bool"
  assumes abs_step: "inv s \<Longrightarrow> astep (abs s) (abs (step e s))"
begin

lemma abs_run: "inv s \<Longrightarrow> astep\<^sup>*\<^sup>* (abs s) (abs (fold step es s))"
proof (induction es arbitrary: s)
  case (Cons e es)
  from converse_rtranclp_into_rtranclp [OF abs_step [OF Cons.prems] Cons.IH [OF inv_step [OF Cons.prems]]]
  show ?case by simp
qed simp

lemma abs_reach:
  assumes "start s" "P (abs s)" "\<And>a b. astep a b \<Longrightarrow> P a \<Longrightarrow> P b"
  shows "P (abs (fold step es s))"
  using abs_run [OF inv_start [OF assms(1)]] assms(2)
  by (induction rule: rtranclp_induct) (auto intro: assms(3))

end

section \<open>Bounded outgoing queues\<close>

text \<open>
  The TCP client's \<open>Send\<close> and the WebSocket connection's \<open>enqueue\<close> share one contract: a
  non-blocking send into a buffered channel, which drops the message when the buffer is full.
\<close>

locale bounded_outbox =
  fixes enq :: "'m \<Rightarrow> 'q \<Rightarrow> 'q"
    and content :: "'q \<Rightarrow> 'x list"
    and render :: "'m \<Rightarrow> 'x"
    and cap :: nat
    and live :: "'q \<Rightarrow> bool"
  assumes content_enq: "live q \<Longrightarrow> content (enq m q) =
      (if length (content q) < cap then content q @ [render m] else content q)"
    and live_enq: "live q \<Longrightarrow> live (enq m q)"
begin

lemma outbox_bounded_step:
  "live q \<Longrightarrow> length (content q) \<le> cap \<Longrightarrow> length (content (enq m q)) \<le> cap"
  by (simp add: content_enq)

lemma outbox_run:
  "live q \<Longrightarrow> length (content q) \<le> cap \<Longrightarrow>
   live (fold enq ms q) \<and>
   content (fold enq ms q) = content q @ take (cap - length (content q)) (map render ms)"
proof (induction ms arbitrary: q)
  case Nil
  then show ?case by simp
next
  case (Cons m ms)
  have IH: "live (fold enq ms (enq m q)) \<and>
      content (fold enq ms (enq m q)) =
      content (enq m q) @ take (cap - length (content (enq m q))) (map render ms)"
    using Cons.prems by (intro Cons.IH live_enq outbox_bounded_step) auto
  show ?case
  proof (cases "length (content q) < cap")
    case True
    then have "take (cap - length (content q)) (map render (m # ms)) =
        render m # take (cap - Suc (length (content q))) (map render ms)"
      by (cases "cap - length (content q)") (auto simp: diff_Suc split: nat.splits)
    with IH True Cons.prems show ?thesis by (simp add: content_enq)
  next
    case False
    with IH Cons.prems show ?thesis by (simp add: content_enq)
  qed
qed

lemma outbox_bounded:
  "live q \<Longrightarrow> length (content q) \<le> cap \<Longrightarrow> length (content (fold enq ms q)) \<le> cap"
  using outbox_run [of q ms] by simp

end

end
