(* ===== verification/Go_Strings.thy ===== *)
theory Go_Strings
  imports Prelude "HOL-Library.Char_ord" "HOL-Library.List_Lexorder"
begin

text \<open>
  The part of Go's string library the program uses. A Go string is a sequence of bytes, here a
  list of 8-bit characters, so \<^term>\<open>length\<close> is Go's \<open>len\<close>. Loops over a string (\<open>for _, r := range
  s\<close>), \<open>TrimSpace\<close>, \<open>ToLower\<close> and \<open>EqualFold\<close> work on the runes its UTF-8 decoding gives, with the
  replacement character for every byte that does not decode.

  Unicode's character tables (which runes above ASCII are letters, digits, printable, and their case
  mappings) are data of the Go release, not code: they are the record \<open>unicode\<close>, an argument of the
  functions that read them. ASCII and the white-space runes are written out.
\<close>

section \<open>Bytes and runes\<close>

type_synonym rune = nat

record unicode =
  u_letter :: "rune \<Rightarrow> bool"
  u_digit :: "rune \<Rightarrow> bool"
  u_print :: "rune \<Rightarrow> bool"
  u_lower :: "rune \<Rightarrow> rune"
  u_fold :: "rune \<Rightarrow> rune"

definition byte :: "char \<Rightarrow> nat" where
  "byte c = of_char c"

definition chr :: "nat \<Rightarrow> char" where
  "chr n = char_of n"

lemma byte_less [simp]: "byte c < 256"
  by (simp add: byte_def)

lemma byte_chr [simp]: "byte (chr n) = n mod 256"
  by (simp add: byte_def chr_def)

lemma chr_byte [simp]: "chr (byte c) = c"
  by (simp add: byte_def chr_def)

lemma byte_inject [simp]: "byte c = byte d \<longleftrightarrow> c = d"
  by (simp add: byte_def)

definition RuneError :: rune where
  "RuneError = 0xFFFD"

text \<open>A continuation byte, and one in a narrower range (\<open>utf8.acceptRanges\<close>).\<close>

definition isCont :: "char \<Rightarrow> bool" where
  "isCont c \<longleftrightarrow> 0x80 \<le> byte c \<and> byte c \<le> 0xBF"

definition inRange :: "nat \<Rightarrow> nat \<Rightarrow> char \<Rightarrow> bool" where
  "inRange lo hi c \<longleftrightarrow> lo \<le> byte c \<and> byte c \<le> hi"

text \<open>\<open>utf8.DecodeRuneInString\<close>: the first rune and the number of bytes it takes.\<close>

fun decodeRune :: "string \<Rightarrow> rune \<times> nat" where
  "decodeRune [] = (RuneError, 0)"
| "decodeRune (c0 # cs) =
     (let b0 = byte c0 in
      if b0 < 0x80 then (b0, 1)
      else if b0 < 0xC2 then (RuneError, 1)
      else if b0 < 0xE0 then
        (case cs of
           c1 # _ \<Rightarrow> if isCont c1 then ((b0 - 0xC0) * 64 + (byte c1 - 0x80), 2) else (RuneError, 1)
         | _ \<Rightarrow> (RuneError, 1))
      else if b0 < 0xF0 then
        (case cs of
           c1 # c2 # _ \<Rightarrow>
             if inRange (if b0 = 0xE0 then 0xA0 else 0x80) (if b0 = 0xED then 0x9F else 0xBF) c1
                \<and> isCont c2
             then ((b0 - 0xE0) * 4096 + (byte c1 - 0x80) * 64 + (byte c2 - 0x80), 3)
             else (RuneError, 1)
         | _ \<Rightarrow> (RuneError, 1))
      else if b0 < 0xF5 then
        (case cs of
           c1 # c2 # c3 # _ \<Rightarrow>
             if inRange (if b0 = 0xF0 then 0x90 else 0x80) (if b0 = 0xF4 then 0x8F else 0xBF) c1
                \<and> isCont c2 \<and> isCont c3
             then ((b0 - 0xF0) * 262144 + (byte c1 - 0x80) * 4096
                     + (byte c2 - 0x80) * 64 + (byte c3 - 0x80), 4)
             else (RuneError, 1)
         | _ \<Rightarrow> (RuneError, 1))
      else (RuneError, 1))"

definition validRune :: "rune \<Rightarrow> bool" where
  "validRune r \<longleftrightarrow> r < 0xD800 \<or> 0xDFFF < r \<and> r \<le> 0x10FFFF"

text \<open>\<open>utf8.AppendRune\<close>: a rune that is not valid is written as the replacement character.\<close>

definition encodeRune :: "rune \<Rightarrow> string" where
  "encodeRune r =
     (let r' = (if validRune r then r else RuneError) in
      if r' < 0x80 then [chr r']
      else if r' < 0x800 then [chr (0xC0 + r' div 64), chr (0x80 + r' mod 64)]
      else if r' < 0x10000 then
        [chr (0xE0 + r' div 4096), chr (0x80 + r' div 64 mod 64), chr (0x80 + r' mod 64)]
      else [chr (0xF0 + r' div 262144), chr (0x80 + r' div 4096 mod 64),
            chr (0x80 + r' div 64 mod 64), chr (0x80 + r' mod 64)])"

text \<open>The runes a \<open>range\<close> loop over the string visits.\<close>

fun runes :: "string \<Rightarrow> rune list" where
  "runes [] = []"
| "runes (c # cs) = (let (r, n) = decodeRune (c # cs) in r # runes (drop (n - 1) cs))"

definition encodeRunes :: "rune list \<Rightarrow> string" where
  "encodeRunes rs = concat (map encodeRune rs)"

lemma decodeRune_width:
  "s \<noteq> [] \<Longrightarrow> 1 \<le> snd (decodeRune s) \<and> snd (decodeRune s) \<le> length s"
  by (cases s) (auto simp: Let_def split: list.splits)

lemma decodeRune_ascii: "byte c < 0x80 \<Longrightarrow> decodeRune (c # cs) = (byte c, 1)"
  by simp

lemma encodeRune_ascii: "r < 0x80 \<Longrightarrow> encodeRune r = [chr r]"
  by (simp add: encodeRune_def validRune_def)

lemma encodeRune_nonempty [simp]: "encodeRune r \<noteq> []"
  by (simp add: encodeRune_def Let_def)

lemma runes_eq_Nil [simp]: "runes s = [] \<longleftrightarrow> s = []"
  by (cases s) (auto simp: Let_def split: prod.splits)

lemma encodeRunes_Nil_iff [simp]: "encodeRunes rs = [] \<longleftrightarrow> rs = []"
  by (cases rs) (auto simp: encodeRunes_def)

lemma encodeRunes_simps [simp]:
  "encodeRunes [] = []"
  "encodeRunes (r # rs) = encodeRune r @ encodeRunes rs"
  by (simp_all add: encodeRunes_def)

lemma chr_small [simp]: "n < 256 \<Longrightarrow> byte (chr n) = n"
  by simp

lemma base64_digits:
  "r = r div 4096 * 4096 + r div 64 mod 64 * 64 + r mod (64::nat)"
  "r = r div 262144 * 262144 + r div 4096 mod 64 * 4096 + r div 64 mod 64 * 64 + r mod (64::nat)"
proof -
  have a: "r = r div 64 * 64 + r mod 64" for r :: nat by simp
  have d: "r div 4096 = r div 64 div 64" "r div 262144 = r div 64 div 64 div 64"
    by (simp_all add: div_mult2_eq [symmetric])
  from a [of r] a [of "r div 64"] a [of "r div 64 div 64"]
  show "r = r div 4096 * 4096 + r div 64 mod 64 * 64 + r mod 64"
    and "r = r div 262144 * 262144 + r div 4096 mod 64 * 4096 + r div 64 mod 64 * 64 + r mod 64"
    unfolding d by linarith+
qed

lemma decode_encode_valid:
  assumes "validRune r"
  shows "decodeRune (encodeRune r @ s) = (r, length (encodeRune r))"
proof -
  consider "r < 0x80" | "0x80 \<le> r" "r < 0x800" | "0x800 \<le> r" "r < 0x10000" | "0x10000 \<le> r"
    by linarith
  then show ?thesis
  proof cases
    case 1
    then show ?thesis using assms by (simp add: encodeRune_def)
  next
    case 2
    then have "2 \<le> r div 64" "r div 64 < 32" by simp_all
    with 2 assms show ?thesis by (simp add: encodeRune_def isCont_def)
  next
    case 3
    define x y z where d: "x = r div 4096" "y = r div 64 mod 64" "z = r mod 64"
    have r: "r = x * 4096 + y * 64 + z" unfolding d by (rule base64_digits)
    have b: "x < 16" "y < 64" "z < 64" using 3 unfolding d by simp_all
    have lo: "x = 0 \<Longrightarrow> 32 \<le> y" using 3 r b by simp
    have hi: "x = 13 \<Longrightarrow> y < 32" using assms r b by (auto simp: validRune_def)
    have e: "encodeRune r = [chr (0xE0 + x), chr (0x80 + y), chr (0x80 + z)]"
      using 3 assms unfolding d by (simp add: encodeRune_def)
    show ?thesis using b lo hi r unfolding e by (auto simp: isCont_def inRange_def)
  next
    case 4
    define w x y z where d: "w = r div 262144" "x = r div 4096 mod 64" "y = r div 64 mod 64" "z = r mod 64"
    have r: "r = w * 262144 + x * 4096 + y * 64 + z" unfolding d by (rule base64_digits)
    have top: "r \<le> 0x10FFFF" using 4 assms by (simp add: validRune_def)
    have b: "w < 5" "x < 64" "y < 64" "z < 64" using top unfolding d by simp_all
    have lo: "w = 0 \<Longrightarrow> 16 \<le> x" using 4 r b by simp
    have hi: "w = 4 \<Longrightarrow> x < 16" using top r b by simp
    have e: "encodeRune r = [chr (0xF0 + w), chr (0x80 + x), chr (0x80 + y), chr (0x80 + z)]"
      using 4 assms unfolding d by (simp add: encodeRune_def)
    show ?thesis using b lo hi r unfolding e by (auto simp: isCont_def inRange_def)
  qed
qed

lemma validRune_RuneError [simp]: "validRune RuneError"
  by (simp add: validRune_def RuneError_def)

lemma encodeRune_invalid: "\<not> validRune r \<Longrightarrow> encodeRune r = encodeRune RuneError"
  by (auto simp: encodeRune_def validRune_def RuneError_def Let_def)

lemma decode_encode:
  "decodeRune (encodeRune r @ s) = (if validRune r then r else RuneError, length (encodeRune r))"
  using decode_encode_valid [of r s] decode_encode_valid [of RuneError s]
  by (auto simp: encodeRune_invalid)

lemma runes_unfold:
  "s \<noteq> [] \<Longrightarrow> runes s = fst (decodeRune s) # runes (drop (snd (decodeRune s)) s)"
  using decodeRune_width [of s]
  by (cases s) (auto simp: drop_Cons' Let_def simp del: decodeRune.simps split: prod.splits)

lemma runes_encodeRune:
  "runes (encodeRune r @ s) = (if validRune r then r else RuneError) # runes s"
  by (subst runes_unfold) (simp_all add: decode_encode)

lemma runes_encodeRunes:
  "runes (encodeRunes rs @ s) = map (\<lambda>r. if validRune r then r else RuneError) rs @ runes s"
  by (induction rs) (simp_all add: runes_encodeRune)

lemma decodeRune_valid: "validRune (fst (decodeRune s))"
proof (cases s)
  case (Cons c cs)
  show ?thesis
  proof (cases "byte c < 0xE0")
    case True
    then show ?thesis unfolding Cons
      by (auto simp: Let_def validRune_def RuneError_def isCont_def split: list.splits)
  next
    case F: False
    show ?thesis
    proof (cases "byte c < 0xF0")
      case True
      with F show ?thesis unfolding Cons
        by (auto simp: Let_def validRune_def RuneError_def isCont_def inRange_def split: list.splits if_splits)
    next
      case False
      with F show ?thesis unfolding Cons
        by (auto simp: Let_def validRune_def RuneError_def isCont_def inRange_def split: list.splits if_splits)
    qed
  qed
qed simp

lemma runes_valid: "r \<in> set (runes s) \<Longrightarrow> validRune r"
proof (induction s rule: runes.induct)
  case (2 c cs)
  obtain r0 n where d: "decodeRune (c # cs) = (r0, n)" by (metis surj_pair)
  have "validRune r0" using decodeRune_valid [of "c # cs"] d by simp
  with 2 d show ?case by (auto simp del: decodeRune.simps)
qed simp

text \<open>Only ASCII runes are written with ASCII bytes.\<close>

lemma encodeRune_high: "0x80 \<le> r \<Longrightarrow> c \<in> set (encodeRune r) \<Longrightarrow> 0x80 \<le> byte c"
proof -
  assume r: "0x80 \<le> r" and c: "c \<in> set (encodeRune r)"
  have "\<And>r. 0x80 \<le> r \<Longrightarrow> validRune r \<Longrightarrow> c \<in> set (encodeRune r) \<Longrightarrow> 0x80 \<le> byte c"
  proof -
    fix r :: nat
    assume "0x80 \<le> r" "validRune r" "c \<in> set (encodeRune r)"
    moreover from \<open>validRune r\<close> have "r < 0x110000" by (auto simp: validRune_def)
    ultimately show "0x80 \<le> byte c"
      by (auto simp: encodeRune_def Let_def split: if_splits)
  qed
  note valid_case = this
  show ?thesis
  proof (cases "validRune r")
    case True
    with r c show ?thesis by (blast intro: valid_case)
  next
    case False
    from c encodeRune_invalid [OF False] have "c \<in> set (encodeRune RuneError)" by simp
    moreover have "0x80 \<le> RuneError" by (simp add: RuneError_def)
    ultimately show ?thesis using valid_case validRune_RuneError by blast
  qed
qed

lemma byte_in_encodeRune: "byte c < 0x80 \<Longrightarrow> c \<in> set (encodeRune r) \<Longrightarrow> r = byte c"
proof -
  assume c: "byte c < 0x80" "c \<in> set (encodeRune r)"
  then have "r < 0x80" using encodeRune_high [of r c] by force
  then have "encodeRune r = [chr r]" by (simp add: encodeRune_ascii)
  with c \<open>r < 0x80\<close> show "r = byte c" by simp
qed

section \<open>White space and trimming\<close>

text \<open>\<open>unicode.IsSpace\<close>: the runes with the White\_Space property.\<close>

definition isSpace :: "rune \<Rightarrow> bool" where
  "isSpace r \<longleftrightarrow> r \<in> {9, 10, 11, 12, 13, 32, 0x85, 0xA0, 0x1680, 0x2028, 0x2029, 0x202F, 0x205F, 0x3000}
     \<or> 0x2000 \<le> r \<and> r \<le> 0x200A"

text \<open>\<open>utf8.DecodeLastRuneInString\<close>: step back over at most three continuation bytes.\<close>

definition decodeLastRune :: "string \<Rightarrow> rune \<times> nat" where
  "decodeLastRune s =
     (case rev s of
        [] \<Rightarrow> (RuneError, 0)
      | c # cs \<Rightarrow>
          if byte c < 0x80 then (byte c, 1)
          else let k = length (takeWhile isCont (take 3 cs)) + 2;
                   (r, n) = decodeRune (drop (length s - k) s)
               in if n = k then (r, n) else (RuneError, 1))"

lemma decodeLastRune_width:
  "s \<noteq> [] \<Longrightarrow> 1 \<le> snd (decodeLastRune s) \<and> snd (decodeLastRune s) \<le> length s"
proof -
  assume "s \<noteq> []"
  then obtain c cs where r: "rev s = c # cs" by (cases "rev s") auto
  have len: "snd (decodeRune (drop k s)) \<le> length s" for k
    using decodeRune_width [of "drop k s"] by (cases "drop k s = []") auto
  have l: "length s = Suc (length cs)" using r by (metis length_rev length_Cons)
  define k where "k = length (takeWhile isCont (take 3 cs)) + 2"
  obtain r' n where d: "decodeRune (drop (length s - k) s) = (r', n)" by (metis surj_pair)
  have "n \<le> length s" using len [of "length s - k"] d by simp
  then have "snd (decodeLastRune s) = 1 \<or> snd (decodeLastRune s) = n \<and> 1 \<le> n"
    using d [unfolded k_def] by (auto simp: decodeLastRune_def r Let_def)
  with \<open>n \<le> length s\<close> l show ?thesis by auto
qed

text \<open>\<open>strings.TrimLeftFunc(s, unicode.IsSpace)\<close>, \<open>TrimRightFunc\<close>, \<open>TrimSpace\<close>.\<close>

fun trimLeft :: "string \<Rightarrow> string" where
  "trimLeft [] = []"
| "trimLeft (c # cs) =
     (let (r, n) = decodeRune (c # cs) in if isSpace r then trimLeft (drop (n - 1) cs) else c # cs)"

function trimRight :: "string \<Rightarrow> string" where
  "trimRight s =
     (if s = [] then []
      else let (r, n) = decodeLastRune s in
        if isSpace r then trimRight (take (length s - n) s) else s)"
  by pat_completeness auto
termination
proof (relation "measure length", goal_cases)
  case (2 s x r n)
  then have "1 \<le> n" using decodeLastRune_width [of s] by (metis snd_conv)
  with 2 show ?case by simp
qed simp

declare trimRight.simps [simp del]

definition trimSpace :: "string \<Rightarrow> string" where
  "trimSpace s = trimRight (trimLeft s)"

lemma trimRight_prefix: "prefix (trimRight s) s"
proof (induction s rule: trimRight.induct)
  case (1 s)
  obtain r n where d: "decodeLastRune s = (r, n)" by (metis surj_pair)
  have "prefix (take (length s - n) s) s" by (rule take_is_prefix)
  then show ?case using 1 d
    by (subst trimRight.simps) (auto intro: prefix_order.trans)
qed

lemma trimLeft_suffix: "suffix (trimLeft s) s"
proof (induction s rule: trimLeft.induct)
  case (2 c cs)
  obtain r n where d: "decodeRune (c # cs) = (r, n)" by (metis surj_pair)
  have "suffix (drop (n - 1) cs) (c # cs)" by (metis suffix_drop suffix_Cons)
  with 2 d show ?case
    by (auto simp del: decodeRune.simps intro: suffix_order.trans)
qed simp

lemma trimLeft_fix_iff: "trimLeft s = s \<longleftrightarrow> s = [] \<or> \<not> isSpace (fst (decodeRune s))"
proof (cases s)
  case (Cons c cs)
  obtain r n where d: "decodeRune (c # cs) = (r, n)" by (metis surj_pair)
  have "length (trimLeft (drop (n - 1) cs)) < length (c # cs)"
    using suffix_length_le [OF trimLeft_suffix [of "drop (n - 1) cs"]] by simp
  then have "trimLeft (drop (n - 1) cs) \<noteq> c # cs" by auto
  with Cons d show ?thesis by (simp del: decodeRune.simps)
qed simp

lemma trimLeft_trimLeft [simp]: "trimLeft (trimLeft s) = trimLeft s"
proof (induction s rule: trimLeft.induct)
  case (2 c cs)
  obtain r n where d: "decodeRune (c # cs) = (r, n)" by (metis surj_pair)
  with 2 show ?case by (simp del: decodeRune.simps)
qed simp

lemma trimRight_trimRight [simp]: "trimRight (trimRight s) = trimRight s"
proof (induction s rule: trimRight.induct)
  case (1 s)
  obtain r n where d: "decodeLastRune s = (r, n)" by (metis surj_pair)
  show ?case
  proof (cases "s \<noteq> [] \<and> isSpace r")
    case True
    with d have "trimRight s = trimRight (take (length s - n) s)" by (subst trimRight.simps) simp
    with True d 1 show ?thesis by simp
  next
    case False
    with d have "trimRight s = s" by (subst trimRight.simps) auto
    then show ?thesis by simp
  qed
qed

text \<open>A white-space rune is recognised from its own bytes, so cutting the end of a string does not
  make one appear at its start.\<close>

lemma isSpace_RuneError [simp]: "\<not> isSpace RuneError"
  by (simp add: isSpace_def RuneError_def)

lemma decodeRune_append:
  "fst (decodeRune s) \<noteq> RuneError \<Longrightarrow> decodeRune (s @ t) = decodeRune s"
proof (cases s)
  case (Cons c cs)
  assume ok: "fst (decodeRune s) \<noteq> RuneError"
  consider "cs = []" | c1 where "cs = [c1]" | c1 c2 where "cs = [c1, c2]"
    | c1 c2 c3 ds where "cs = c1 # c2 # c3 # ds"
    by (metis list.exhaust)
  then show ?thesis
    using ok unfolding Cons by cases (simp_all add: Let_def split: if_splits)
qed (simp add: RuneError_def)

lemma trimLeft_trimRight: "trimLeft s = s \<Longrightarrow> trimLeft (trimRight s) = trimRight s"
proof -
  assume fix_s: "trimLeft s = s"
  obtain t where s: "s = trimRight s @ t" using trimRight_prefix [of s] by (auto simp: prefix_def)
  show ?thesis
  proof (cases "trimRight s = []")
    case False
    have "\<not> isSpace (fst (decodeRune (trimRight s)))"
    proof
      assume sp: "isSpace (fst (decodeRune (trimRight s)))"
      then have "fst (decodeRune (trimRight s)) \<noteq> RuneError" by auto
      then have "decodeRune s = decodeRune (trimRight s)" using decodeRune_append s by metis
      with sp fix_s False s show False by (auto simp: trimLeft_fix_iff)
    qed
    then show ?thesis by (simp add: trimLeft_fix_iff)
  qed simp
qed

lemma trimSpace_trimSpace [simp]: "trimSpace (trimSpace s) = trimSpace s"
  by (simp add: trimSpace_def trimLeft_trimRight)

lemma trimSpace_Nil [simp]: "trimSpace [] = []"
  by (simp add: trimSpace_def trimRight.simps)

lemma length_trimSpace: "length (trimSpace s) \<le> length s"
  using prefix_length_le [OF trimRight_prefix [of "trimLeft s"]]
    suffix_length_le [OF trimLeft_suffix [of s]]
  by (simp add: trimSpace_def)

text \<open>A string of three-byte runes that neither starts nor ends with white space is left alone.\<close>

lemma decodeLastRune_three:
  assumes "validRune r" "0x800 \<le> r" "r < 0x10000"
  shows "decodeLastRune (s @ encodeRune r) = (r, 3)"
proof -
  define a b c where d: "a = chr (0xE0 + r div 4096)" "b = chr (0x80 + r div 64 mod 64)"
    "c = chr (0x80 + r mod 64)"
  have e: "encodeRune r = [a, b, c]" using assms by (simp add: encodeRune_def d)
  have m: "r mod 64 < 64" "r div 64 mod 64 < 64" "r div 4096 < 16" using assms(3) by auto
  then have bytes: "\<not> byte c < 0x80" "isCont b" "\<not> isCont a" by (simp_all add: d isCont_def)
  have "decodeRune [a, b, c] = (r, 3)"
    using decode_encode_valid [OF assms(1), of "[]"] unfolding e by simp
  with bytes show ?thesis
    unfolding e by (simp add: decodeLastRune_def Let_def del: decodeRune.simps)
qed

lemma trimSpace_three:
  assumes "validRune r" "0x800 \<le> r" "r < 0x10000" "\<not> isSpace r"
  shows "trimSpace (encodeRunes (replicate (Suc n) r)) = encodeRunes (replicate (Suc n) r)"
proof -
  let ?s = "encodeRunes (replicate (Suc n) r)"
  have "replicate (Suc n) r = replicate n r @ [r]" by (simp add: replicate_append_same)
  then have split: "?s = encodeRunes (replicate n r) @ encodeRune r" by (simp add: encodeRunes_def)
  have "decodeRune ?s = (r, length (encodeRune r))"
    using decode_encode_valid [OF assms(1)] by simp
  then have "trimLeft ?s = ?s" using assms(4) unfolding trimLeft_fix_iff by simp
  moreover have "trimRight ?s = ?s"
    using decodeLastRune_three [OF assms(1-3)] assms(4) unfolding split
    by (subst trimRight.simps) simp
  ultimately show ?thesis by (simp add: trimSpace_def)
qed

section \<open>Case mapping and case-insensitive comparison\<close>

definition isLetter :: "unicode \<Rightarrow> rune \<Rightarrow> bool" where
  "isLetter u r \<longleftrightarrow> (if r < 0x80 then 65 \<le> r \<and> r \<le> 90 \<or> 97 \<le> r \<and> r \<le> 122 else u_letter u r)"

definition isDigit :: "unicode \<Rightarrow> rune \<Rightarrow> bool" where
  "isDigit u r \<longleftrightarrow> (if r < 0x80 then 48 \<le> r \<and> r \<le> 57 else u_digit u r)"

definition lowerRune :: "unicode \<Rightarrow> rune \<Rightarrow> rune" where
  "lowerRune u r = (if r < 0x80 then (if 65 \<le> r \<and> r \<le> 90 then r + 32 else r) else u_lower u r)"

definition foldRune :: "unicode \<Rightarrow> rune \<Rightarrow> rune" where
  "foldRune u r = (if r < 0x80 then (if 65 \<le> r \<and> r \<le> 90 then r + 32 else r) else u_fold u r)"

text \<open>\<open>strings.ToLower\<close> and \<open>strings.EqualFold\<close>.\<close>

definition toLower :: "unicode \<Rightarrow> string \<Rightarrow> string" where
  "toLower u s = encodeRunes (map (lowerRune u) (runes s))"

definition equalFold :: "unicode \<Rightarrow> string \<Rightarrow> string \<Rightarrow> bool" where
  "equalFold u s t \<longleftrightarrow> map (foldRune u) (runes s) = map (foldRune u) (runes t)"

text \<open>
  What the program relies on in Unicode's tables, as the standard documents them: lower-casing is
  idempotent and gives a code point, a rune above ASCII that lowers to ASCII lowers to a lower-case
  letter (the Kelvin sign to k, the dotted capital I to i) and never to one of the letters of
  ``bearer'', and the replacement character is neither a letter nor a digit.
\<close>

definition unicode_ok :: "unicode \<Rightarrow> bool" where
  "unicode_ok u \<longleftrightarrow>
     (\<forall>r. validRune r \<longrightarrow> validRune (lowerRune u r)) \<and>
     (\<forall>r. lowerRune u (lowerRune u r) = lowerRune u r) \<and>
     (\<forall>r\<ge>0x80. lowerRune u r < 0x80 \<longrightarrow>
        97 \<le> lowerRune u r \<and> lowerRune u r \<le> 122 \<and> lowerRune u r \<notin> {97, 98, 101, 114}) \<and>
     \<not> isLetter u RuneError \<and> \<not> isDigit u RuneError"

text \<open>The tables of plain ASCII: the smallest instance, used where a concrete one is needed.\<close>

definition ascii_unicode :: unicode where
  "ascii_unicode = \<lparr>u_letter = (\<lambda>_. False), u_digit = (\<lambda>_. False), u_print = (\<lambda>_. False),
     u_lower = (\<lambda>r. r), u_fold = (\<lambda>r. r)\<rparr>"

lemma unicode_ok_ascii [simp]: "unicode_ok ascii_unicode"
  by (auto simp: unicode_ok_def ascii_unicode_def lowerRune_def isLetter_def isDigit_def
      RuneError_def validRune_def)

lemma toLower_eq_Nil [simp]: "toLower u s = [] \<longleftrightarrow> s = []"
  by (simp add: toLower_def)

lemma equalFold_refl [simp]: "equalFold u s s"
  by (simp add: equalFold_def)

lemma equalFold_sym: "equalFold u s t = equalFold u t s"
  by (auto simp: equalFold_def)

lemma runes_toLower:
  assumes "unicode_ok u"
  shows "runes (toLower u s) = map (lowerRune u) (runes s)"
proof -
  have "map (\<lambda>r. if validRune r then r else RuneError) (map (lowerRune u) (runes s))
      = map (lowerRune u) (runes s)"
    using assms runes_valid [of _ s] by (auto simp: unicode_ok_def)
  then show ?thesis
    using runes_encodeRunes [of "map (lowerRune u) (runes s)" "[]"] by (simp add: toLower_def)
qed

lemma toLower_idem: "unicode_ok u \<Longrightarrow> toLower u (toLower u s) = toLower u s"
  unfolding toLower_def [of u "toLower u s"]
  by (simp add: runes_toLower) (simp add: toLower_def comp_def unicode_ok_def)

text \<open>An ASCII byte of a decoded string is one of its bytes; an ASCII byte of the lower-cased string
  comes from a rune of the original.\<close>

lemma runes_ascii_mem: "r \<in> set (runes s) \<Longrightarrow> r < 0x80 \<Longrightarrow> chr r \<in> set s"
proof (induction s rule: runes.induct)
  case (2 c cs)
  obtain r0 n where d: "decodeRune (c # cs) = (r0, n)" by (metis surj_pair)
  have "r0 < 0x80 \<Longrightarrow> r0 = byte c"
    using d by (auto simp: Let_def RuneError_def isCont_def inRange_def split: list.splits if_splits)
  with 2 d show ?case by (auto simp del: decodeRune.simps dest: in_set_dropD)
qed simp

lemma decodeRune_tail_high:
  "d \<in> set (take (snd (decodeRune (c # cs)) - 1) cs) \<Longrightarrow> 0x80 \<le> byte d"
proof -
  assume d: "d \<in> set (take (snd (decodeRune (c # cs)) - 1) cs)"
  consider "byte c < 0xC2" | "0xC2 \<le> byte c" "byte c < 0xE0" | "0xE0 \<le> byte c" "byte c < 0xF0"
    | "0xF0 \<le> byte c" "byte c < 0xF5" | "0xF5 \<le> byte c" by linarith
  then show ?thesis
  proof cases
    case 2
    with d show ?thesis by (cases cs) (auto simp: isCont_def Let_def split: if_splits)
  next
    case 3
    with d show ?thesis
      by (cases cs; cases "tl cs") (auto simp: isCont_def inRange_def Let_def split: if_splits)
  next
    case 4
    with d show ?thesis
      by (cases cs; cases "tl cs"; cases "tl (tl cs)")
        (auto simp: isCont_def inRange_def Let_def split: if_splits)
  qed (use d in \<open>auto simp: Let_def split: if_splits\<close>)
qed

lemma ascii_mem_runes: "c \<in> set s \<Longrightarrow> byte c < 0x80 \<Longrightarrow> byte c \<in> set (runes s)"
proof (induction s rule: runes.induct)
  case (2 d cs)
  obtain r n where dr: "decodeRune (d # cs) = (r, n)" by (metis surj_pair)
  consider "c = d" | "c \<in> set (drop (n - 1) cs)" | "c \<in> set (take (n - 1) cs)"
    using "2.prems"(1) by (metis Un_iff append_take_drop_id set_ConsD set_append)
  then show ?case
  proof cases
    case 1
    with "2.prems"(2) show ?thesis by simp
  next
    case 2
    with "2.IH" [OF dr [symmetric] refl] "2.prems"(2) dr show ?thesis by (simp del: decodeRune.simps)
  next
    case 3
    with decodeRune_tail_high [of c d cs] dr "2.prems"(2) show ?thesis by simp
  qed
qed simp

lemma toLower_ascii_mem:
  assumes "c \<in> set (toLower u s)" "byte c < 0x80"
  shows "\<exists>r \<in> set (runes s). lowerRune u r = byte c"
  using assms by (auto simp: toLower_def encodeRunes_def dest: byte_in_encodeRune)

section \<open>Splitting and joining\<close>

text \<open>\<open>strings.TrimPrefix\<close>, \<open>TrimRight\<close> with a cut set, \<open>HasSuffix\<close>.\<close>

definition trimPrefix :: "string \<Rightarrow> string \<Rightarrow> string" where
  "trimPrefix s p = (if prefix p s then drop (length p) s else s)"

definition trimRightSet :: "string \<Rightarrow> char list \<Rightarrow> string" where
  "trimRightSet s cs = rev (dropWhile (\<lambda>c. c \<in> set cs) (rev s))"

text \<open>\<open>strings.SplitN(s, sep, 2)\<close> and \<open>strings.Split(s, sep)\<close> for a one-byte separator.\<close>

definition splitN2 :: "string \<Rightarrow> char \<Rightarrow> string list" where
  "splitN2 s sep =
     (let a = takeWhile (\<lambda>c. c \<noteq> sep) s
      in if length a = length s then [s] else [a, drop (length a + 1) s])"

fun splitOn :: "string \<Rightarrow> char \<Rightarrow> string list" where
  "splitOn [] sep = [[]]"
| "splitOn (c # cs) sep =
     (if c = sep then [] # splitOn cs sep
      else case splitOn cs sep of [] \<Rightarrow> [[c]] | p # ps \<Rightarrow> (c # p) # ps)"

text \<open>\<open>strings.Fields\<close>: the maximal runs of bytes that do not start a white-space rune; \<open>w\<close> is the
  word being collected.\<close>

fun fieldsAcc :: "string \<Rightarrow> string \<Rightarrow> string list" where
  "fieldsAcc w [] = (if w = [] then [] else [w])"
| "fieldsAcc w (c # cs) =
     (let (r, n) = decodeRune (c # cs) in
      if isSpace r then (if w = [] then [] else [w]) @ fieldsAcc [] (drop (n - 1) cs)
      else fieldsAcc (w @ take n (c # cs)) (drop (n - 1) cs))"

definition fields :: "string \<Rightarrow> string list" where
  "fields s = fieldsAcc [] s"

fun join :: "string list \<Rightarrow> string \<Rightarrow> string" where
  "join [] sep = []"
| "join [s] sep = s"
| "join (s # t # ts) sep = s @ sep @ join (t # ts) sep"

definition nl :: string where
  "nl = [CHR 0x0A]"

lemma trimRightSet_prefix: "prefix (trimRightSet s cs) s"
  unfolding trimRightSet_def by (metis rev_rev_ident suffix_dropWhile suffix_to_prefix)

lemma trimRightSet_idem [simp]: "trimRightSet (trimRightSet s cs) cs = trimRightSet s cs"
proof -
  have "dropWhile P (dropWhile P xs) = dropWhile P xs" for P and xs :: string
    by (induction xs) auto
  then show ?thesis by (simp add: trimRightSet_def)
qed

lemma splitN2_no_sep: "sep \<notin> set s \<Longrightarrow> splitN2 s sep = [s]"
proof -
  assume "sep \<notin> set s"
  then have "takeWhile (\<lambda>c. c \<noteq> sep) s = s" by (subst takeWhile_eq_all_conv) auto
  then have "length (takeWhile (\<lambda>c. c \<noteq> sep) s) = length s" by (rule arg_cong)
  then show "splitN2 s sep = [s]" by (simp add: splitN2_def Let_def)
qed

lemma splitN2_sep: "sep \<notin> set a \<Longrightarrow> splitN2 (a @ sep # b) sep = [a, b]"
  by (simp add: splitN2_def takeWhile_append)

lemma splitOn_nonempty [simp]: "splitOn s sep \<noteq> []"
  by (induction s) (auto split: list.splits)

lemma join_splitOn: "join (splitOn s sep) [sep] = s"
proof (induction s)
  case (Cons c cs)
  obtain p ps where "splitOn cs sep = p # ps"
    by (meson list.exhaust splitOn_nonempty)
  with Cons show ?case by (cases ps) auto
qed simp

lemma splitOn_no_sep: "p \<in> set (splitOn s sep) \<Longrightarrow> sep \<notin> set p"
  by (induction s arbitrary: p) (auto split: list.splits if_splits)

text \<open>The first field of a trimmed, non-empty string is a prefix of it.\<close>

lemma fieldsAcc_Cons:
  "w \<noteq> [] \<Longrightarrow> \<exists>v ws. fieldsAcc w s = v # ws \<and> prefix v (w @ s) \<and> prefix w v"
proof (induction w s rule: fieldsAcc.induct)
  case (2 w c cs)
  obtain r n where d: "decodeRune (c # cs) = (r, n)" by (metis surj_pair)
  show ?case
  proof (cases "isSpace r")
    case True
    with 2 d show ?thesis by (simp del: decodeRune.simps)
  next
    case False
    have n: "1 \<le> n" using decodeRune_width [of "c # cs"] d by simp
    then have eq: "take n (c # cs) @ drop (n - 1) cs = c # cs"
      by (cases n) auto
    from "2.IH"(2) [OF refl d [symmetric] False] "2.prems"
    obtain v ws where v: "fieldsAcc (w @ take n (c # cs)) (drop (n - 1) cs) = v # ws"
      "prefix v ((w @ take n (c # cs)) @ drop (n - 1) cs)" "prefix (w @ take n (c # cs)) v"
      by blast
    have "prefix v (w @ c # cs)" using v(2) eq by simp
    moreover have "prefix w v" using v(3) by (metis append_prefixD)
    ultimately show ?thesis using v(1) False d by (simp del: decodeRune.simps)
  qed
qed simp

lemma fields_trimmed:
  assumes "trimLeft s = s" "s \<noteq> []"
  obtains v ws where "fields s = v # ws" "prefix v s" "v \<noteq> []"
proof -
  obtain c cs where s: "s = c # cs" using assms(2) by (cases s) auto
  obtain r n where d: "decodeRune (c # cs) = (r, n)" by (metis surj_pair)
  have n: "1 \<le> n" using decodeRune_width [of "c # cs"] d by simp
  then have eq: "take n (c # cs) @ drop (n - 1) cs = c # cs" and ne: "take n (c # cs) \<noteq> []"
    by (cases n; auto)+
  have "\<not> isSpace r" using assms(1) unfolding trimLeft_fix_iff by (simp add: s d del: decodeRune.simps)
  then have "fields s = fieldsAcc (take n (c # cs)) (drop (n - 1) cs)"
    using d s by (simp add: fields_def del: decodeRune.simps)
  moreover obtain v ws where v: "fieldsAcc (take n (c # cs)) (drop (n - 1) cs) = v # ws"
    "prefix v (take n (c # cs) @ drop (n - 1) cs)" "prefix (take n (c # cs)) v"
    using fieldsAcc_Cons [OF ne] by blast
  moreover have "v \<noteq> []" using v(3) ne by auto
  ultimately show ?thesis using that eq s by simp
qed

end
