(* ===== verification/Go_Numbers.thy ===== *)
theory Go_Numbers
  imports Go_Strings
begin

text \<open>
  Decimal printing and parsing as Go's \<open>fmt\<close> and \<open>strconv\<close> do it, for the verbs the program uses:
  \<open>%d\<close>, \<open>%04d\<close>, \<open>%q\<close> of a rune, \<open>strconv.Atoi\<close> and \<open>strconv.ParseInt(s, 10, 64)\<close>.
\<close>

section \<open>Printing\<close>

fun itoa :: "nat \<Rightarrow> string" where
  "itoa n = (if n < 10 then [chr (48 + n)] else itoa (n div 10) @ [chr (48 + n mod 10)])"

declare itoa.simps [simp del]

definition pad4 :: "nat \<Rightarrow> string" where
  "pad4 n = replicate (4 - length (itoa n)) (CHR ''0'') @ itoa n"

definition hexDigit :: "nat \<Rightarrow> char" where
  "hexDigit n = (if n < 10 then chr (48 + n) else chr (87 + n))"

fun hexPad :: "nat \<Rightarrow> nat \<Rightarrow> string" where
  "hexPad 0 n = []"
| "hexPad (Suc w) n = hexPad w (n div 16) @ [hexDigit (n mod 16)]"

definition isPrint :: "unicode \<Rightarrow> rune \<Rightarrow> bool" where
  "isPrint u r \<longleftrightarrow> (if r < 0x80 then 0x20 \<le> r \<and> r < 0x7F else u_print u r)"

text \<open>\<open>strconv.QuoteRune\<close>, the verb \<open>%q\<close> of a rune: single quotes around the escaped rune.\<close>

definition escapeRune :: "unicode \<Rightarrow> rune \<Rightarrow> string" where
  "escapeRune u r =
     (if r = 39 \<or> r = 92 then [chr 92, chr r]
      else if isPrint u r then encodeRune r
      else if r = 7 then [chr 92] @ ''a''
      else if r = 8 then [chr 92] @ ''b''
      else if r = 12 then [chr 92] @ ''f''
      else if r = 10 then [chr 92] @ ''n''
      else if r = 13 then [chr 92] @ ''r''
      else if r = 9 then [chr 92] @ ''t''
      else if r = 11 then [chr 92] @ ''v''
      else if r < 32 \<or> r = 127 then [chr 92] @ ''x'' @ hexPad 2 r
      else if r < 0x10000 then [chr 92] @ ''u'' @ hexPad 4 r
      else [chr 92] @ ''U'' @ hexPad 8 r)"

definition quoteRune :: "unicode \<Rightarrow> rune \<Rightarrow> string" where
  "quoteRune u r = [chr 39] @ escapeRune u (if validRune r then r else RuneError) @ [chr 39]"

section \<open>Parsing\<close>

definition isDecimal :: "char \<Rightarrow> bool" where
  "isDecimal c \<longleftrightarrow> 48 \<le> byte c \<and> byte c \<le> 57"

definition digitsVal :: "string \<Rightarrow> nat" where
  "digitsVal ds = foldl (\<lambda>n c. n * 10 + (byte c - 48)) 0 ds"

definition int64_min :: int where
  "int64_min = -9223372036854775808"

definition int64_max :: int where
  "int64_max = 9223372036854775807"

text \<open>\<open>strconv.Atoi\<close> and \<open>strconv.ParseInt(s, 10, 64)\<close>: a sign, then decimal digits, in range;
  \<open>None\<close> is the error (syntax or range).\<close>

definition parseInt64 :: "string \<Rightarrow> int option" where
  "parseInt64 s =
     (let neg = prefix ''-'' s;
          ds = (if neg \<or> prefix ''+'' s then drop 1 s else s);
          n = int (digitsVal ds);
          v = (if neg then - n else n)
      in if ds = [] \<or> \<not> list_all isDecimal ds then None
         else if int64_min \<le> v \<and> v \<le> int64_max then Some v else None)"

lemma itoa_nonempty [simp]: "itoa n \<noteq> []"
  by (subst itoa.simps) simp

lemma isDecimal_chr: "d < 10 \<Longrightarrow> isDecimal (chr (48 + d))"
  by (simp add: isDecimal_def)

lemma itoa_decimal: "list_all isDecimal (itoa n)"
proof (induction n rule: itoa.induct)
  case (1 n)
  then show ?case by (subst itoa.simps) (simp add: isDecimal_chr)
qed

lemma digitsVal_append: "digitsVal (ds @ [c]) = digitsVal ds * 10 + (byte c - 48)"
  by (simp add: digitsVal_def)

lemma digitsVal_itoa: "digitsVal (itoa n) = n"
proof (induction n rule: itoa.induct)
  case (1 n)
  show ?case
  proof (cases "n < 10")
    case True
    then show ?thesis by (subst itoa.simps) (simp add: digitsVal_def)
  next
    case False
    with 1 show ?thesis by (subst itoa.simps) (simp add: digitsVal_append)
  qed
qed

lemma itoa_inject: "itoa m = itoa n \<longleftrightarrow> m = n"
  by (metis digitsVal_itoa)

lemma hd_itoa_no_sign: "\<not> prefix ''-'' (itoa n)" "\<not> prefix ''+'' (itoa n)"
  using itoa_decimal [of n] by (cases "itoa n"; auto simp: isDecimal_def byte_def)+

lemma parseInt64_itoa: "int n \<le> int64_max \<Longrightarrow> parseInt64 (itoa n) = Some (int n)"
  by (simp add: parseInt64_def Let_def hd_itoa_no_sign itoa_decimal digitsVal_itoa int64_min_def)

lemma parseInt64_itoa_neg:
  "- int n \<ge> int64_min \<Longrightarrow> parseInt64 (CHR ''-'' # itoa n) = Some (- int n)"
  by (simp add: parseInt64_def Let_def itoa_decimal digitsVal_itoa int64_max_def)

lemma parseInt64_range: "parseInt64 s = Some v \<Longrightarrow> int64_min \<le> v \<and> v \<le> int64_max"
  by (auto simp: parseInt64_def Let_def split: if_splits)

lemma digitsVal_zeros: "digitsVal (replicate k (CHR ''0'') @ ds) = digitsVal ds"
  by (induction k) (simp_all add: digitsVal_def byte_def)

lemma pad4_inject: "pad4 m = pad4 n \<longleftrightarrow> m = n"
  by (metis digitsVal_zeros digitsVal_itoa pad4_def)

end
