(* ===== verification/Chat_Util.thy ===== *)
theory Chat_Util
  imports Go_Numbers
begin

text \<open>
  The chat package's helpers, \<open>internal/chat/util.go\<close>: room keys, the checks on room and user names,
  and the parser of slash commands. A returned \<open>error\<close> is a value of \<open>chat_error\<close>; \<open>errorText\<close> is
  its \<open>Error()\<close> method, the text the client is sent.
\<close>

datatype chat_error =
    EmptyRoomName
  | RoomNameTooLong
  | InvalidRoomRune rune
  | UserNameTooShort
  | UserNameTooLong
  | InvalidUserRune rune
  | UserNameInUse string

fun errorText :: "unicode \<Rightarrow> chat_error \<Rightarrow> string" where
  "errorText u EmptyRoomName = ''room name cannot be empty''"
| "errorText u RoomNameTooLong = ''room name is too long (max 32 characters)''"
| "errorText u (InvalidRoomRune r) = ''invalid character '' @ quoteRune u r @ '' in room name''"
| "errorText u UserNameTooShort = ''name must be at least 3 characters long''"
| "errorText u UserNameTooLong = ''name is too long (max 24 characters)''"
| "errorText u (InvalidUserRune r) = ''invalid character '' @ quoteRune u r @ '' in name''"
| "errorText u (UserNameInUse n) = ''username '' @ [chr 34] @ n @ [chr 34] @ '' already in use''"

definition normalizeRoomKey :: "unicode \<Rightarrow> string \<Rightarrow> string" where
  "normalizeRoomKey u name = toLower u (trimSpace name)"

definition roomRuneOk :: "unicode \<Rightarrow> rune \<Rightarrow> bool" where
  "roomRuneOk u r \<longleftrightarrow> isLetter u r \<or> isDigit u r \<or> r = 45 \<or> r = 95 \<or> r = 32"

definition userRuneOk :: "unicode \<Rightarrow> rune \<Rightarrow> bool" where
  "userRuneOk u r \<longleftrightarrow> isLetter u r \<or> isDigit u r \<or> r = 45 \<or> r = 95"

text \<open>The loops over the runes return at the first rune that is not allowed.\<close>

definition sanitizeRoomName :: "unicode \<Rightarrow> string \<Rightarrow> chat_error + string" where
  "sanitizeRoomName u name =
     (let trimmed = trimSpace name in
      if trimmed = [] then Inl EmptyRoomName
      else if length trimmed > 32 then Inl RoomNameTooLong
      else case find (\<lambda>r. \<not> roomRuneOk u r) (runes trimmed) of
             None \<Rightarrow> Inr trimmed
           | Some r \<Rightarrow> Inl (InvalidRoomRune r))"

definition sanitizeUserName :: "unicode \<Rightarrow> string \<Rightarrow> chat_error + string" where
  "sanitizeUserName u name =
     (let trimmed = trimSpace name in
      if length trimmed < 3 then Inl UserNameTooShort
      else if length trimmed > 24 then Inl UserNameTooLong
      else case find (\<lambda>r. \<not> userRuneOk u r) (runes trimmed) of
             None \<Rightarrow> Inr trimmed
           | Some r \<Rightarrow> Inl (InvalidUserRune r))"

definition parseCommand :: "unicode \<Rightarrow> string \<Rightarrow> string \<times> string" where
  "parseCommand u raw =
     (let trimmed = trimPrefix (trimSpace raw) ''/'' in
      if trimmed = [] then ([], [])
      else let parts = splitN2 trimmed (CHR '' ''); cmd = toLower u (parts ! 0) in
        if length parts = 1 then (cmd, [])
        else (cmd, trimSpace (parts ! 1)))"

text \<open>\<open>None\<close> is the error of \<open>strconv.Atoi\<close>.\<close>

definition parseOptionalInt :: "string \<Rightarrow> int \<Rightarrow> int option" where
  "parseOptionalInt value fallback =
     (if trimSpace value = [] then Some fallback else parseInt64 value)"

section \<open>What the checks accept\<close>

lemma normalizeRoomKey_trimmed: "normalizeRoomKey u (trimSpace s) = normalizeRoomKey u s"
  by (simp add: normalizeRoomKey_def)

lemma normalizeRoomKey_eq_Nil: "normalizeRoomKey u s = [] \<longleftrightarrow> trimSpace s = []"
  by (simp add: normalizeRoomKey_def)

lemma find_None_all: "find (\<lambda>x. \<not> P x) xs = None \<longleftrightarrow> list_all P xs"
  by (auto simp: find_None_iff list_all_iff)

lemma find_None_all_sum:
  "(case find (\<lambda>x. \<not> P x) xs of None \<Rightarrow> Inr a | Some x \<Rightarrow> Inl (f x)) = Inr b
     \<longleftrightarrow> list_all P xs \<and> a = b"
  using find_None_all [of P xs] by (auto split: option.splits)

lemma sanitizeRoomName_Inr:
  "sanitizeRoomName u name = Inr out \<longleftrightarrow>
     out = trimSpace name \<and> out \<noteq> [] \<and> length out \<le> 32 \<and> list_all (roomRuneOk u) (runes out)"
  by (cases "trimSpace name = []"; cases "32 < length (trimSpace name)")
    (auto simp: sanitizeRoomName_def Let_def find_None_all_sum)

lemma sanitizeUserName_Inr:
  "sanitizeUserName u name = Inr out \<longleftrightarrow>
     out = trimSpace name \<and> 3 \<le> length out \<and> length out \<le> 24 \<and> list_all (userRuneOk u) (runes out)"
  by (auto simp: sanitizeUserName_def Let_def find_None_all_sum)

lemma sanitizeRoomName_trimmed: "sanitizeRoomName u name = Inr out \<Longrightarrow> trimSpace out = out"
  by (simp add: sanitizeRoomName_Inr)

lemma sanitizeRoomName_nonempty: "sanitizeRoomName u name = Inr out \<Longrightarrow> out \<noteq> []"
  by (blast dest: sanitizeRoomName_Inr [THEN iffD1])

text \<open>The room-name check accepts a name exactly when its trimmed form is 1 to 32 bytes long and
  all its runes are letters, digits, dashes, underscores or blanks; it then returns the trimmed
  form, which the check accepts again unchanged.\<close>

theorem sanitizeRoomName_spec:
  "(sanitizeRoomName u name = Inr out) =
     (out = trimSpace name \<and> 1 \<le> length out \<and> length out \<le> 32 \<and> list_all (roomRuneOk u) (runes out)
      \<and> sanitizeRoomName u out = Inr out)"
  by (metis One_nat_def Suc_le_eq length_greater_0_conv sanitizeRoomName_Inr trimSpace_trimSpace)

lemma sanitizeRoomName_key: "sanitizeRoomName u name = Inr out \<Longrightarrow> normalizeRoomKey u out \<noteq> []"
  by (simp add: normalizeRoomKey_eq_Nil sanitizeRoomName_trimmed sanitizeRoomName_nonempty)

lemma userRuneOk_not_space: "unicode_ok u \<Longrightarrow> userRuneOk u r \<Longrightarrow> r < 0x80 \<Longrightarrow> \<not> isSpace r"
  by (auto simp: userRuneOk_def isLetter_def isDigit_def isSpace_def)

text \<open>The nick check accepts a name exactly when its trimmed form is 3 to 24 bytes of letters,
  digits, dashes and underscores; an accepted name has no ASCII white space, so it can be the first
  field of a \<open>/msg\<close> command, and it is never a slash command.\<close>

theorem sanitizeUserName_spec:
  assumes "unicode_ok u"
  shows "(sanitizeUserName u name = Inr out) =
     (out = trimSpace name \<and> 3 \<le> length out \<and> length out \<le> 24 \<and> list_all (userRuneOk u) (runes out)
      \<and> sanitizeUserName u out = Inr out \<and> CHR '' '' \<notin> set out \<and> CHR ''/'' \<notin> set out)"
proof -
  have "\<not> list_all (userRuneOk u) (runes out)" if "c \<in> set out" "c = CHR '' '' \<or> c = CHR ''/''" for c
  proof -
    have "byte c \<in> set (runes out)" "byte c = 32 \<or> byte c = 47"
      using that ascii_mem_runes [of c out] by (auto simp: byte_def)
    moreover from this have "\<not> userRuneOk u (byte c)"
      by (auto simp: userRuneOk_def isLetter_def isDigit_def)
    ultimately show ?thesis by (auto simp only: list_all_iff)
  qed
  then show ?thesis
    by (metis sanitizeUserName_Inr trimSpace_trimSpace)
qed

lemma three_byte_length:
  "validRune r \<Longrightarrow> 0x800 \<le> r \<Longrightarrow> r < 0x10000 \<Longrightarrow> length (encodeRunes (replicate n r)) = 3 * n"
  by (induction n) (simp_all add: encodeRune_def Let_def)

lemma runes_replicate: "validRune r \<Longrightarrow> runes (encodeRunes (replicate n r)) = replicate n r"
  using runes_encodeRunes [of "replicate n r" "[]"] by simp

text \<open>The limits the messages state in characters are limits in bytes: with any Unicode tables, a
  single three-byte letter is accepted as a nick of ``at least 3 characters'', and a nick of nine
  such letters is refused as longer than 24 characters.\<close>

theorem nick_limits_count_bytes:
  assumes "isLetter u r" "\<not> isSpace r" "validRune r" "0x800 \<le> r" "r < 0x10000"
  shows "sanitizeUserName u (encodeRunes [r]) = Inr (encodeRunes [r])
    \<and> length (runes (encodeRunes [r])) = 1
    \<and> sanitizeUserName u (encodeRunes (replicate 9 r)) = Inl UserNameTooLong
    \<and> length (runes (encodeRunes (replicate 9 r))) = 9"
proof -
  have t: "trimSpace (encodeRunes (replicate (Suc n) r)) = encodeRunes (replicate (Suc n) r)" for n
    using assms by (intro trimSpace_three) auto
  note facts = three_byte_length [OF assms(3-5)] runes_replicate [OF assms(3)]
  have "sanitizeUserName u (encodeRunes (replicate 1 r)) = Inr (encodeRunes (replicate 1 r))"
    unfolding sanitizeUserName_Inr facts using t [of 0] assms(1) by (simp add: facts userRuneOk_def)
  moreover have "sanitizeUserName u (encodeRunes (replicate 9 r)) = Inl UserNameTooLong"
    using t [of 8] by (simp add: sanitizeUserName_def facts)
  ultimately show ?thesis using facts [of 1] facts [of 9] by simp
qed

text \<open>One Han ideograph, U+4E2D, in tables that know it as a letter.\<close>

theorem nick_limits_count_bytes_witness:
  "\<exists>u. unicode_ok u \<and> isLetter u 0x4E2D
     \<and> sanitizeUserName u (encodeRunes (replicate 9 0x4E2D)) = Inl UserNameTooLong"
proof -
  define u where "u = ascii_unicode\<lparr>u_letter := (\<lambda>r. r = 0x4E2D)\<rparr>"
  have "unicode_ok u"
    by (auto simp: u_def unicode_ok_def ascii_unicode_def lowerRune_def isLetter_def isDigit_def
        RuneError_def validRune_def)
  moreover have "isLetter u 0x4E2D" by (simp add: u_def isLetter_def)
  moreover have "\<not> isSpace 0x4E2D" "validRune 0x4E2D" by (simp_all add: isSpace_def validRune_def)
  ultimately show ?thesis using nick_limits_count_bytes [of u "0x4E2D"] by auto
qed

text \<open>A command line is a slash, a word with no blank in it and, after a blank, the arguments:
  the parser returns the lower-cased word and the trimmed arguments, whatever white space surrounds
  the line.\<close>

theorem parseCommand_spec:
  assumes "trimSpace raw = CHR ''/'' # w @ rest" "w \<noteq> []" "CHR '' '' \<notin> set w"
    and "rest = [] \<or> (\<exists>a. rest = CHR '' '' # a)"
  shows "parseCommand u raw = (toLower u w, trimSpace (drop 1 rest))"
  using assms splitN2_no_sep [of "CHR '' ''" w] splitN2_sep [of "CHR '' ''" w]
  by (auto simp: parseCommand_def trimPrefix_def Let_def)

theorem parseCommand_spec_witness:
  "parseCommand ascii_unicode '' /MSG  bob   hello there '' = (''msg'', ''bob   hello there'')"
proof -
  have t: "trimSpace '' /MSG  bob   hello there '' = CHR ''/'' # ''MSG'' @ ''  bob   hello there''"
    by code_simp
  have "parseCommand ascii_unicode '' /MSG  bob   hello there ''
      = (toLower ascii_unicode ''MSG'', trimSpace (drop 1 ''  bob   hello there''))"
    by (rule parseCommand_spec [OF t]) auto
  moreover have "(toLower ascii_unicode ''MSG'', trimSpace (drop 1 ''  bob   hello there''))
      = (''msg'', ''bob   hello there'')"
    by code_simp
  ultimately show ?thesis by simp
qed

theorem sanitizeUserName_spec_witness:
  "unicode_ok ascii_unicode \<and> sanitizeUserName ascii_unicode ''  bob_123 '' = Inr ''bob_123''"
proof -
  have "sanitizeUserName ascii_unicode ''bob_123'' = Inr ''bob_123''"
    "list_all (userRuneOk ascii_unicode) (runes ''bob_123'')"
    by code_simp+
  moreover have "trimSpace ''  bob_123 '' = ''bob_123''"
    by code_simp
  ultimately show ?thesis
    using sanitizeUserName_spec [of ascii_unicode "''  bob_123 ''" "''bob_123''"] by simp
qed

text \<open>The cases of \<open>util_test.go\<close>.\<close>

lemma util_test_sanitizeUserName:
  "isl (sanitizeUserName ascii_unicode ''Alice'') = False"
  "isl (sanitizeUserName ascii_unicode ''bob_123'') = False"
  "isl (sanitizeUserName ascii_unicode ''xy'') = True"
  "isl (sanitizeUserName ascii_unicode ''this-name-is-way-too-long-for-the-server'') = True"
  "isl (sanitizeUserName ascii_unicode ''bad name'') = True"
  by code_simp+

lemma util_test_parseCommand:
  "parseCommand ascii_unicode ''/nick Alice'' = (''nick'', ''Alice'')"
  "parseCommand ascii_unicode ''/rooms'' = (''rooms'', [])"
  by code_simp+

lemma util_test_normalizeRoomKey:
  "normalizeRoomKey ascii_unicode ''  GoLang  '' = ''golang''"
  by code_simp

end
