(* ===== verification/Chat_Config.thy ===== *)
theory Chat_Config
  imports Chat_Util
begin

text \<open>
  The chat server's parameters, \<open>internal/chat/config.go\<close>. A \<open>time.Duration\<close> is a number of
  nanoseconds; the integers are Go's 64-bit \<open>int\<close>s, which are only compared here.
\<close>

record Config =
  IdleTimeout :: int
  HistoryLimit :: int
  MaxMessageBytes :: int
  LobbyName :: string
  SystemName :: string
  SendBufferSize :: int

definition minute :: int where
  "minute = 60000000000"

definition DefaultConfig :: Config where
  "DefaultConfig = \<lparr>IdleTimeout = 2 * minute, HistoryLimit = 50, MaxMessageBytes = 4096,
     LobbyName = ''lobby'', SystemName = ''livechat'', SendBufferSize = 64\<rparr>"

definition withDefaults :: "Config \<Rightarrow> Config" where
  "withDefaults c =
     (let defaults = DefaultConfig in
      c\<lparr>IdleTimeout := (if IdleTimeout c \<le> 0 then IdleTimeout defaults else IdleTimeout c),
        HistoryLimit := (if HistoryLimit c \<le> 0 then HistoryLimit defaults else HistoryLimit c),
        MaxMessageBytes := (if MaxMessageBytes c \<le> 0 then MaxMessageBytes defaults else MaxMessageBytes c),
        LobbyName := (if LobbyName c = [] then LobbyName defaults else LobbyName c),
        SystemName := (if SystemName c = [] then SystemName defaults else SystemName c),
        SendBufferSize := (if SendBufferSize c \<le> 0 then SendBufferSize defaults else SendBufferSize c)\<rparr>)"

text \<open>A configuration the server can run with.\<close>

definition config_ok :: "Config \<Rightarrow> bool" where
  "config_ok c \<longleftrightarrow> 0 < IdleTimeout c \<and> 0 < HistoryLimit c \<and> 0 < MaxMessageBytes c
     \<and> LobbyName c \<noteq> [] \<and> SystemName c \<noteq> [] \<and> 0 < SendBufferSize c"

lemma withDefaults_fields:
  "IdleTimeout (withDefaults c) = (if IdleTimeout c \<le> 0 then 2 * minute else IdleTimeout c)"
  "HistoryLimit (withDefaults c) = (if HistoryLimit c \<le> 0 then 50 else HistoryLimit c)"
  "MaxMessageBytes (withDefaults c) = (if MaxMessageBytes c \<le> 0 then 4096 else MaxMessageBytes c)"
  "LobbyName (withDefaults c) = (if LobbyName c = [] then ''lobby'' else LobbyName c)"
  "SystemName (withDefaults c) = (if SystemName c = [] then ''livechat'' else SystemName c)"
  "SendBufferSize (withDefaults c) = (if SendBufferSize c \<le> 0 then 64 else SendBufferSize c)"
  by (simp_all add: withDefaults_def Let_def DefaultConfig_def)

lemma config_ok_withDefaults [simp]: "config_ok (withDefaults c)"
  by (simp add: config_ok_def withDefaults_fields minute_def)

lemma withDefaults_id: "config_ok c \<Longrightarrow> withDefaults c = c"
  by (simp add: config_ok_def withDefaults_def Let_def)

text \<open>\<open>withDefaults\<close> turns any configuration into one the server can run with, and changes
  nothing exactly when the configuration already was one (so it is idempotent).\<close>

theorem withDefaults_spec:
  "config_ok (withDefaults c) \<and> (withDefaults c = c) = config_ok c
   \<and> withDefaults (withDefaults c) = withDefaults c"
  using config_ok_withDefaults [of c] by (metis withDefaults_id)

end
