(* ===== verification/Chat_Room.thy ===== *)
theory Chat_Room
  imports Chat_Config "HOL-Library.Multiset"
begin

text \<open>
  A chat room, \<open>internal/chat/room.go\<close>: its key and visible name, its topic, its members by client
  id, and the most recent messages. A \<open>*Client\<close> is a reference \<open>cref\<close>; the client it points to is
  not needed here, except for its id and its nick, which are arguments. The room's mutex makes each
  operation one step.
\<close>

type_synonym cref = nat

record Room =
  room_key :: string
  room_name :: string
  room_topic :: string
  room_members :: "(string, cref) gomap"
  room_history :: "string list"
  room_historyLimit :: int

text \<open>\<open>make([]string, 0, historyLimit)\<close> panics on a negative capacity: \<open>None\<close>.\<close>

definition newRoom :: "unicode \<Rightarrow> string \<Rightarrow> int \<Rightarrow> Room option" where
  "newRoom u name historyLimit =
     (let trimmed = trimSpace name;
          trimmed = (if trimmed = [] then ''lobby'' else trimmed)
      in if historyLimit < 0 then None
         else Some \<lparr>room_key = normalizeRoomKey u trimmed, room_name = trimmed, room_topic = [],
                room_members = [], room_history = [], room_historyLimit = historyLimit\<rparr>)"

definition Room_Key :: "Room \<Rightarrow> string" where
  "Room_Key r = room_key r"

definition Room_Name :: "Room \<Rightarrow> string" where
  "Room_Name r = room_name r"

definition SetName :: "string \<Rightarrow> Room \<Rightarrow> Room" where
  "SetName name r = (let trimmed = trimSpace name in if trimmed = [] then r else r\<lparr>room_name := trimmed\<rparr>)"

definition Topic :: "Room \<Rightarrow> string" where
  "Topic r = room_topic r"

definition SetTopic :: "string \<Rightarrow> Room \<Rightarrow> string \<times> Room" where
  "SetTopic topic r = (let trimmed = trimSpace topic in (trimmed, r\<lparr>room_topic := trimmed\<rparr>))"

definition AddMember :: "string \<Rightarrow> cref \<Rightarrow> Room \<Rightarrow> Room" where
  "AddMember cid c r = r\<lparr>room_members := AList.update cid c (room_members r)\<rparr>"

definition RemoveMember :: "string \<Rightarrow> Room \<Rightarrow> Room" where
  "RemoveMember cid r = r\<lparr>room_members := AList.delete cid (room_members r)\<rparr>"

definition MemberCount :: "Room \<Rightarrow> nat" where
  "MemberCount r = length (room_members r)"

definition IsEmpty :: "Room \<Rightarrow> bool" where
  "IsEmpty r \<longleftrightarrow> MemberCount r = 0"

definition MembersSnapshot :: "cref option \<Rightarrow> Room \<Rightarrow> cref list" where
  "MembersSnapshot exclude r = filter (\<lambda>m. exclude \<noteq> Some m) (map snd (room_members r))"

text \<open>\<open>sort.Strings\<close> orders by bytes, the order of List\_Lexorder on characters.\<close>

definition MemberNames :: "(cref \<Rightarrow> string) \<Rightarrow> Room \<Rightarrow> string list" where
  "MemberNames displayName r = sort (map (\<lambda>(_, m). displayName m) (room_members r))"

definition AppendHistory :: "string \<Rightarrow> Room \<Rightarrow> Room" where
  "AppendHistory entry r =
     (if room_historyLimit r \<le> 0 then r
      else let h = room_history r @ [entry];
               h = (if int (length h) > room_historyLimit r
                    then drop (nat (int (length h) - room_historyLimit r)) h else h)
        in r\<lparr>room_history := h\<rparr>)"

text \<open>\<open>copy(out, src)\<close> into a slice of \<open>limit\<close> empty strings.\<close>

definition copyInto :: "string list \<Rightarrow> string list \<Rightarrow> string list" where
  "copyInto out src = take (length out) src @ drop (length src) out"

definition RecentHistory :: "int \<Rightarrow> Room \<Rightarrow> string list" where
  "RecentHistory limit r =
     (let len = int (length (room_history r));
          limit = (if limit \<le> 0 \<or> limit > len then len else limit);
          start = (if len - limit < 0 then 0 else len - limit)
      in copyInto (replicate (nat limit) []) (drop (nat start) (room_history r)))"

section \<open>Rooms as created\<close>

lemma newRoom_Some:
  "newRoom u name l = Some r \<Longrightarrow>
   0 \<le> l \<and> room_name r = (if trimSpace name = [] then ''lobby'' else trimSpace name)
   \<and> room_key r = normalizeRoomKey u (room_name r) \<and> room_members r = [] \<and> room_history r = []
   \<and> room_historyLimit r = l \<and> room_topic r = []"
  by (auto simp: newRoom_def Let_def split: if_splits)

lemma newRoom_total: "0 \<le> l \<Longrightarrow> \<exists>r. newRoom u name l = Some r"
  by (simp add: newRoom_def Let_def)

section \<open>Membership\<close>

lemma room_update_simps [simp]:
  "room_key (AddMember i c r) = room_key r" "room_name (AddMember i c r) = room_name r"
  "room_topic (AddMember i c r) = room_topic r" "room_history (AddMember i c r) = room_history r"
  "room_historyLimit (AddMember i c r) = room_historyLimit r"
  "room_members (AddMember i c r) = AList.update i c (room_members r)"
  "room_key (RemoveMember i r) = room_key r" "room_name (RemoveMember i r) = room_name r"
  "room_topic (RemoveMember i r) = room_topic r" "room_history (RemoveMember i r) = room_history r"
  "room_historyLimit (RemoveMember i r) = room_historyLimit r"
  "room_members (RemoveMember i r) = AList.delete i (room_members r)"
  by (simp_all add: AddMember_def RemoveMember_def)

lemma room_content_simps [simp]:
  "room_key (AppendHistory e r) = room_key r" "room_name (AppendHistory e r) = room_name r"
  "room_topic (AppendHistory e r) = room_topic r" "room_members (AppendHistory e r) = room_members r"
  "room_historyLimit (AppendHistory e r) = room_historyLimit r"
  "room_key (snd (SetTopic t r)) = room_key r" "room_name (snd (SetTopic t r)) = room_name r"
  "room_topic (snd (SetTopic t r)) = trimSpace t" "room_members (snd (SetTopic t r)) = room_members r"
  "room_history (snd (SetTopic t r)) = room_history r"
  "room_historyLimit (snd (SetTopic t r)) = room_historyLimit r"
  "fst (SetTopic t r) = trimSpace t"
  by (simp_all add: AppendHistory_def SetTopic_def Let_def)

lemma IsEmpty_iff [simp]: "IsEmpty r \<longleftrightarrow> room_members r = []"
  by (simp add: IsEmpty_def MemberCount_def)

lemma set_MembersSnapshot: "set (MembersSnapshot ex r) = {m \<in> snd ` set (room_members r). ex \<noteq> Some m}"
  by (auto simp: MembersSnapshot_def)

text \<open>The list of member nicks a room shows is sorted, holds every member's nick once for each
  member, and is the same whatever order Go iterates over the member map.\<close>

theorem MemberNames_spec:
  "sorted (MemberNames nick r)
   \<and> mset (MemberNames nick r) = image_mset (\<lambda>(_, m). nick m) (mset (room_members r))
   \<and> (mset (room_members r') = mset (room_members r) \<longrightarrow> MemberNames nick r' = MemberNames nick r)"
proof -
  have "MemberNames nick r' = MemberNames nick r" if "mset (room_members r') = mset (room_members r)"
  proof -
    have "mset (map (\<lambda>(_, m). nick m) (room_members r')) = mset (map (\<lambda>(_, m). nick m) (room_members r))"
      using that by simp
    then show ?thesis unfolding MemberNames_def
      by (metis mset_sort properties_for_sort sorted_sort)
  qed
  then show ?thesis by (simp add: MemberNames_def)
qed

theorem MemberNames_spec_witness:
  "\<exists>r r'. room_members r = [(''client-1'', 0), (''client-2'', 1)]
     \<and> room_members r' = [(''client-2'', 1), (''client-1'', 0)]
     \<and> MemberNames (\<lambda>m. if m = 0 then ''zoe'' else ''ann'') r' = MemberNames (\<lambda>m. if m = 0 then ''zoe'' else ''ann'') r"
proof -
  obtain r0 where "newRoom ascii_unicode ''go'' 2 = Some r0" using newRoom_total [of 2] by auto
  define r r' where "r = r0\<lparr>room_members := [(''client-1'', 0), (''client-2'', 1)]\<rparr>"
    and "r' = r0\<lparr>room_members := [(''client-2'', 1), (''client-1'', 0)]\<rparr>"
  have "mset (room_members r') = mset (room_members r)"
    by (simp add: r_def r'_def)
  with MemberNames_spec have "MemberNames (\<lambda>m. if m = 0 then ''zoe'' else ''ann'') r'
      = MemberNames (\<lambda>m. if m = 0 then ''zoe'' else ''ann'') r"
    by blast
  moreover have "room_members r = [(''client-1'', 0), (''client-2'', 1)]"
    "room_members r' = [(''client-2'', 1), (''client-1'', 0)]"
    by (simp_all add: r_def r'_def)
  ultimately show ?thesis by blast
qed

section \<open>The message history\<close>

text \<open>The last \<open>n\<close> entries of a log.\<close>

definition lastN :: "nat \<Rightarrow> 'a list \<Rightarrow> 'a list" where
  "lastN n xs = drop (length xs - n) xs"

lemma length_lastN [simp]: "length (lastN n xs) = min n (length xs)"
  by (auto simp: lastN_def)

lemma lastN_all [simp]: "length xs \<le> n \<Longrightarrow> lastN n xs = xs"
  by (simp add: lastN_def)

lemma lastN_lastN: "lastN m (lastN n xs) = lastN (min m n) xs"
  by (cases "n \<le> length xs"; cases "m \<le> n") (auto simp: lastN_def min_def)

lemma lastN_snoc: "0 < n \<Longrightarrow> lastN n (lastN n xs @ [x]) = lastN n (xs @ [x])"
  by (cases "n \<le> length xs") (auto simp: lastN_def Suc_diff_le)

text \<open>The history refines the log of everything said: it is the log's last \<open>historyLimit\<close> entries.\<close>

definition history_is :: "Room \<Rightarrow> string list \<Rightarrow> bool" where
  "history_is r log \<longleftrightarrow> 0 < room_historyLimit r \<and> room_history r = lastN (nat (room_historyLimit r)) log"

lemma AppendHistory_lastN:
  "0 < room_historyLimit r \<Longrightarrow>
   room_history (AppendHistory e r) = lastN (nat (room_historyLimit r)) (room_history r @ [e])"
  by (auto simp: AppendHistory_def Let_def lastN_def nat_diff_distrib intro!: arg_cong [where f = "\<lambda>k. drop k _"])

lemma AppendHistory_refines: "history_is r log \<Longrightarrow> history_is (AppendHistory e r) (log @ [e])"
  by (simp add: history_is_def AppendHistory_lastN lastN_snoc)

lemma AppendHistory_bound:
  "int (length (room_history r)) \<le> room_historyLimit r \<Longrightarrow>
   int (length (room_history (AppendHistory e r))) \<le> room_historyLimit r"
  by (auto simp: AppendHistory_def Let_def)

lemma RecentHistory_lastN:
  "RecentHistory k r =
     lastN (if k \<le> 0 \<or> k > int (length (room_history r)) then length (room_history r) else nat k)
       (room_history r)"
  by (auto simp: RecentHistory_def Let_def copyInto_def lastN_def nat_diff_distrib)

lemma fold_AppendHistory_refines: "history_is r log \<Longrightarrow> history_is (fold AppendHistory es r) (log @ es)"
proof (induction es arbitrary: r log)
  case (Cons e es)
  from Cons.IH [OF AppendHistory_refines [OF Cons.prems, of e]] show ?case by simp
qed simp

lemma fold_AppendHistory_limit [simp]:
  "room_historyLimit (fold AppendHistory es r) = room_historyLimit r"
  by (induction es arbitrary: r) simp_all

text \<open>C18. A room with a positive limit keeps exactly the last \<open>historyLimit\<close> messages of everything
  appended to it, in order, and \<open>RecentHistory\<close> returns the last \<open>k\<close> of those (all of them for a
  \<open>k\<close> that is not positive or too large): the bounded buffer implements the full log.\<close>

theorem history_refines_log:
  assumes "newRoom u name l = Some r" "0 < l"
  shows "room_history (fold AppendHistory es r) = lastN (nat l) es
    \<and> RecentHistory k (fold AppendHistory es r) =
       lastN (if k \<le> 0 then nat l else min (nat k) (nat l)) es"
proof -
  have "history_is r []"
    using assms newRoom_Some [of u name l r] by (simp add: history_is_def lastN_def)
  from fold_AppendHistory_refines [OF this, of es]
  have h: "room_history (fold AppendHistory es r) = lastN (nat l) es"
    using assms newRoom_Some [of u name l r] by (simp add: history_is_def)
  then show ?thesis
    by (auto simp: RecentHistory_lastN h lastN_lastN min_def)
qed

theorem history_refines_log_witness:
  "\<exists>r. newRoom ascii_unicode ''go'' 2 = Some r
     \<and> room_history (fold AppendHistory [''a'', ''b'', ''c''] r) = [''b'', ''c'']
     \<and> RecentHistory 1 (fold AppendHistory [''a'', ''b'', ''c''] r) = [''c'']"
proof -
  obtain r where "newRoom ascii_unicode ''go'' 2 = Some r" using newRoom_total [of 2] by auto
  with history_refines_log [OF this, of "[''a'', ''b'', ''c'']" 1] show ?thesis
    by (simp add: lastN_def)
qed

end
