(* ===== verification/Chat_Client.thy ===== *)
theory Chat_Client
  imports Chat_Room
begin

text \<open>
  One TCP client, \<open>internal/chat/client.go\<close>: its nick, the room it caches, its outgoing channel and
  what its two background goroutines have done. This theory holds what a client does to itself;
  what it does through the server (\<open>start\<close>, \<open>readLoop\<close>, \<open>shutdown\<close>) is in Chat\_Server.

  A Go panic (here: a send on a closed channel) is \<open>None\<close>. The connection is the bytes written to
  it and whether it is closed. The timer of \<open>idleWatcher\<close> is the time it fires at. Log output is not
  modelled.
\<close>

record Client =
  cl_id :: string
  cl_name :: string
  cl_roomKey :: string
  cl_roomDisplay :: string
  cl_send :: "string list"
  cl_sendClosed :: bool
  cl_done :: bool
  cl_idleReset :: bool
  cl_once :: bool
  cl_connClosed :: bool
  cl_written :: string
  cl_writing :: bool
  cl_timer :: "int option"

definition newClient :: "string \<Rightarrow> string \<Rightarrow> Client" where
  "newClient cid name = \<lparr>cl_id = cid, cl_name = name, cl_roomKey = [], cl_roomDisplay = [],
     cl_send = [], cl_sendClosed = False, cl_done = False, cl_idleReset = False, cl_once = False,
     cl_connClosed = False, cl_written = [], cl_writing = False, cl_timer = None\<rparr>"

text \<open>\<open>Send\<close>: nothing after \<open>done\<close> is closed; otherwise a non-blocking send into a channel of capacity
  \<open>cap\<close>, dropped when it is full. A send on a closed channel panics.\<close>

definition trySend :: "nat \<Rightarrow> string \<Rightarrow> Client \<Rightarrow> Client option" where
  "trySend cap message c =
     (let sanitized = trimRightSet message [CHR 0x0D, CHR 0x0A] in
      if cl_done c then Some c
      else if cl_sendClosed c then None
      else if length (cl_send c) < cap then Some (c\<lparr>cl_send := cl_send c @ [sanitized]\<rparr>)
      else Some c)"

text \<open>\<open>touch\<close>: a non-blocking send into the one-slot channel \<open>idleReset\<close>.\<close>

definition touch :: "Client \<Rightarrow> Client" where
  "touch c = c\<lparr>cl_idleReset := True\<rparr>"

definition setName :: "string \<Rightarrow> Client \<Rightarrow> Client" where
  "setName name c = c\<lparr>cl_name := name\<rparr>"

definition Client_Name :: "Client \<Rightarrow> string" where
  "Client_Name c = cl_name c"

definition DisplayName :: "Client \<Rightarrow> string" where
  "DisplayName c = Client_Name c"

definition RoomKey :: "Client \<Rightarrow> string" where
  "RoomKey c = cl_roomKey c"

definition RoomName :: "Client \<Rightarrow> string" where
  "RoomName c = cl_roomDisplay c"

definition setRoom :: "Room \<Rightarrow> Client \<Rightarrow> Client" where
  "setRoom room c = c\<lparr>cl_roomKey := Room_Key room, cl_roomDisplay := Room_Name room\<rparr>"

text \<open>The part of \<open>shutdown\<close> inside \<open>once.Do\<close> before the server is told.\<close>

definition closeClient :: "Client \<Rightarrow> Client" where
  "closeClient c = c\<lparr>cl_once := True, cl_done := True, cl_sendClosed := True, cl_connClosed := True\<rparr>"

text \<open>
  One iteration of \<open>writeLoop\<close>. Its \<open>select\<close> may take any ready case: the closed \<open>done\<close> channel, or a
  receive from \<open>send\<close>, which on a closed and empty channel ends the loop. \<open>ok\<close> says whether
  \<open>io.WriteString\<close> succeeds on an open connection. The second component of the result is the
  reason the loop shuts the client down with, if it does.
\<close>

datatype write_choice = TakeDone | TakeSend bool

definition writeLoopStep :: "write_choice \<Rightarrow> Client \<Rightarrow> Client \<times> string option" where
  "writeLoopStep w c =
     (if \<not> cl_writing c then (c, None)
      else case w of
        TakeDone \<Rightarrow> if cl_done c then (c\<lparr>cl_writing := False\<rparr>, None) else (c, None)
      | TakeSend ok \<Rightarrow>
          (case cl_send c of
             [] \<Rightarrow> if cl_sendClosed c then (c\<lparr>cl_writing := False\<rparr>, None) else (c, None)
           | msg # rest \<Rightarrow>
               let msg' = (if suffix nl msg then msg else msg @ nl);
                   c' = c\<lparr>cl_send := rest\<rparr>
               in if cl_connClosed c \<or> \<not> ok
                  then (c'\<lparr>cl_writing := False\<rparr>, Some ''write failure'')
                  else (c'\<lparr>cl_written := cl_written c @ msg'\<rparr>, None)))"

text \<open>
  One iteration of \<open>idleWatcher\<close> at time \<open>now\<close>, again with the ready case of its \<open>select\<close> that is
  taken. The second component says that the timer fired: the caller sends the notice and shuts the
  client down.
\<close>

datatype idle_choice = IdleDone | IdleFire | IdleReset

definition startIdle :: "int \<Rightarrow> int \<Rightarrow> Client \<Rightarrow> Client" where
  "startIdle now timeout c = (if timeout \<le> 0 then c else c\<lparr>cl_timer := Some (now + timeout)\<rparr>)"

definition idleWatcherStep :: "int \<Rightarrow> int \<Rightarrow> idle_choice \<Rightarrow> Client \<Rightarrow> Client \<times> bool" where
  "idleWatcherStep now timeout i c =
     (case cl_timer c of
        None \<Rightarrow> (c, False)
      | Some t \<Rightarrow>
          (case i of
             IdleDone \<Rightarrow> if cl_done c then (c\<lparr>cl_timer := None\<rparr>, False) else (c, False)
           | IdleFire \<Rightarrow> if t \<le> now then (c\<lparr>cl_timer := None\<rparr>, True) else (c, False)
           | IdleReset \<Rightarrow>
               if cl_idleReset c then (c\<lparr>cl_idleReset := False, cl_timer := Some (now + timeout)\<rparr>, False)
               else (c, False)))"

section \<open>The outgoing channel\<close>

text \<open>A client whose channels are open: a send cannot panic.\<close>

definition openClient :: "Client \<Rightarrow> bool" where
  "openClient c \<longleftrightarrow> \<not> cl_done c \<and> \<not> cl_sendClosed c"

definition sendSafe :: "Client \<Rightarrow> bool" where
  "sendSafe c \<longleftrightarrow> (cl_sendClosed c \<longrightarrow> cl_done c)"

lemma trySend_safe: "sendSafe c \<Longrightarrow> \<exists>c'. trySend cap m c = Some c'"
  by (simp add: trySend_def sendSafe_def Let_def)

definition mustSend :: "nat \<Rightarrow> string \<Rightarrow> Client \<Rightarrow> Client" where
  "mustSend cap m c = (case trySend cap m c of Some c' \<Rightarrow> c' | None \<Rightarrow> c)"

interpretation client_outbox: bounded_outbox
  "mustSend cap" cl_send "\<lambda>m. trimRightSet m [CHR 0x0D, CHR 0x0A]" cap openClient for cap
  by unfold_locales (auto simp: mustSend_def trySend_def openClient_def Let_def)

text \<open>While a client is open, a burst of messages appends to its channel, in order and without
  their trailing line breaks, as many of them as there is room for; the rest are dropped and the
  channel never holds more than its capacity.\<close>

theorem send_burst:
  assumes "openClient c" "length (cl_send c) \<le> cap"
  shows "cl_send (fold (mustSend cap) ms c) =
      cl_send c @ take (cap - length (cl_send c)) (map (\<lambda>m. trimRightSet m [CHR 0x0D, CHR 0x0A]) ms)
    \<and> length (cl_send (fold (mustSend cap) ms c)) \<le> cap"
  using client_outbox.outbox_run [OF assms] client_outbox.outbox_bounded [OF assms] by simp

theorem send_burst_witness:
  "cl_send (fold (mustSend 2) [''a'', ''b'', ''c''] (newClient ''client-1'' ''guest-0001'')) = [''a'', ''b'']"
proof -
  have "openClient (newClient ''client-1'' ''guest-0001'')" "length (cl_send (newClient ''client-1'' ''guest-0001'')) \<le> 2"
    by (simp_all add: openClient_def newClient_def)
  from send_burst [OF this, of "[''a'', ''b'', ''c'']"]
  show ?thesis by (simp add: newClient_def trimRightSet_def)
qed

section \<open>The writer\<close>

definition terminated :: "string \<Rightarrow> string" where
  "terminated msg = (if suffix nl msg then msg else msg @ nl)"

text \<open>While the connection works the writer is a queue: after \<open>n\<close> turns it has written the first \<open>n\<close>
  queued messages, in order, each ended by a line break, and the others are still queued.\<close>

theorem writer_fifo:
  assumes "cl_writing c" "\<not> cl_connClosed c" "n \<le> length (cl_send c)"
  shows "((\<lambda>c. fst (writeLoopStep (TakeSend True) c)) ^^ n) c =
    c\<lparr>cl_send := drop n (cl_send c),
      cl_written := cl_written c @ concat (map terminated (take n (cl_send c)))\<rparr>"
  using assms(3)
proof (induction n)
  case (Suc n)
  then obtain msg where msg: "drop n (cl_send c) = msg # drop (Suc n) (cl_send c)" "cl_send c ! n = msg"
    by (metis Cons_nth_drop_Suc Suc_le_eq)
  with Suc assms(1,2) show ?case
    by (simp add: writeLoopStep_def Let_def terminated_def take_Suc_conv_app_nth)
qed simp

theorem writer_fifo_witness:
  "cl_written (((\<lambda>c. fst (writeLoopStep (TakeSend True) c)) ^^ 2)
     ((newClient ''client-1'' ''ann'')\<lparr>cl_writing := True, cl_send := [''a'', ''b'', ''c'']\<rparr>)) =
   ''a'' @ nl @ ''b'' @ nl"
proof -
  let ?c = "(newClient ''client-1'' ''ann'')\<lparr>cl_writing := True, cl_send := [''a'', ''b'', ''c'']\<rparr>"
  have "cl_writing ?c" "\<not> cl_connClosed ?c" "2 \<le> length (cl_send ?c)" by (simp_all add: newClient_def)
  from writer_fifo [OF this] have "cl_written (((\<lambda>c. fst (writeLoopStep (TakeSend True) c)) ^^ 2) ?c) =
      terminated ''a'' @ terminated ''b''"
    by (simp add: newClient_def)
  moreover have "terminated ''a'' @ terminated ''b'' = ''a'' @ nl @ ''b'' @ nl" by code_simp
  ultimately show ?thesis by simp
qed

lemma writeLoopStep_closed:
  "cl_connClosed c \<Longrightarrow> cl_connClosed (fst (writeLoopStep w c)) \<and> cl_written (fst (writeLoopStep w c)) = cl_written c"
  by (simp add: writeLoopStep_def Let_def split: write_choice.split list.split)

text \<open>Once a client is closed nothing more reaches its connection, whatever turns its writer takes:
  messages still queued then -- the farewell of \<open>/quit\<close>, the notice of the idle timeout -- are lost.\<close>

theorem closed_client_is_silent:
  "cl_written (fold (\<lambda>w c. fst (writeLoopStep w c)) ws (closeClient c)) = cl_written c"
proof -
  have "cl_connClosed c \<Longrightarrow> cl_written (fold (\<lambda>w c. fst (writeLoopStep w c)) ws c) = cl_written c" for c
    by (induction ws arbitrary: c) (simp_all add: writeLoopStep_closed)
  from this [of "closeClient c"] show ?thesis by (simp add: closeClient_def)
qed

text \<open>Turns of the two goroutines, each taking a case that is ready, for as long as the goroutine lives.\<close>

fun writerReady :: "write_choice \<Rightarrow> Client \<Rightarrow> bool" where
  "writerReady TakeDone c = cl_done c"
| "writerReady (TakeSend ok) c = (cl_send c \<noteq> [] \<or> cl_sendClosed c)"

fun writerRun :: "write_choice list \<Rightarrow> Client \<Rightarrow> bool" where
  "writerRun [] c = True"
| "writerRun (w # ws) c = (cl_writing c \<and> writerReady w c \<and> writerRun ws (fst (writeLoopStep w c)))"

fun idleReady :: "int \<Rightarrow> idle_choice \<Rightarrow> Client \<Rightarrow> bool" where
  "idleReady now IdleDone c = cl_done c"
| "idleReady now IdleFire c = (case cl_timer c of None \<Rightarrow> False | Some t \<Rightarrow> t \<le> now)"
| "idleReady now IdleReset c = cl_idleReset c"

fun idleRun :: "int \<Rightarrow> (int \<times> idle_choice) list \<Rightarrow> Client \<Rightarrow> bool" where
  "idleRun timeout [] c = True"
| "idleRun timeout ((now, i) # is) c =
     (cl_timer c \<noteq> None \<and> idleReady now i c \<and> idleRun timeout is (fst (idleWatcherStep now timeout i c)))"

lemma writer_ends: "cl_done c \<Longrightarrow> cl_connClosed c \<Longrightarrow> writerReady w c \<Longrightarrow> \<not> cl_writing (fst (writeLoopStep w c))"
  by (cases w) (auto simp: writeLoopStep_def Let_def split: list.split)

lemma writerRun_stopped: "\<not> cl_writing c \<Longrightarrow> writerRun ws c \<Longrightarrow> ws = []"
  by (cases ws) simp_all

lemma idleRun_stopped: "cl_timer c = None \<Longrightarrow> idleRun timeout is c \<Longrightarrow> is = []"
  by (cases "is") auto

lemma idle_step_ends:
  "idleReady now i c \<Longrightarrow> cl_timer (fst (idleWatcherStep now timeout i c)) = None
     \<or> i = IdleReset \<and> \<not> cl_idleReset (fst (idleWatcherStep now timeout i c))"
  by (cases i) (auto simp: idleWatcherStep_def split: option.split)

text \<open>When a client has been closed its goroutines end: the writer takes at most one more turn, and the
  idle watcher, while the reader sees no further line, at most two.\<close>

theorem closed_client_ends:
  "(writerRun ws (closeClient c) \<longrightarrow> length ws \<le> 1) \<and> (idleRun timeout is (closeClient c) \<longrightarrow> length is \<le> 2)"
proof (intro conjI impI)
  assume run: "writerRun ws (closeClient c)"
  show "length ws \<le> 1"
  proof (cases ws)
    case (Cons w ws')
    with run have "writerReady w (closeClient c)" "writerRun ws' (fst (writeLoopStep w (closeClient c)))" by simp_all
    moreover have "cl_done (closeClient c)" "cl_connClosed (closeClient c)" by (simp_all add: closeClient_def)
    ultimately show ?thesis using writer_ends writerRun_stopped Cons by fastforce
  qed simp
next
  assume run: "idleRun timeout is (closeClient c)"
  have once: "length js \<le> 1" if "idleRun timeout js d" "\<not> cl_idleReset d" for js d
  proof (cases js)
    case (Cons j js')
    obtain now i where j: "j = (now, i)" by (metis surj_pair)
    with Cons that have "idleReady now i d" "idleRun timeout js' (fst (idleWatcherStep now timeout i d))" "i \<noteq> IdleReset"
      by auto
    then show ?thesis using idle_step_ends [of now i d timeout] idleRun_stopped Cons by fastforce
  qed simp
  show "length is \<le> 2"
  proof (cases "is")
    case (Cons j js)
    obtain now i where j: "j = (now, i)" by (metis surj_pair)
    let ?d = "fst (idleWatcherStep now timeout i (closeClient c))"
    from run Cons j have "idleReady now i (closeClient c)" "idleRun timeout js ?d" by simp_all
    then have "length js \<le> 1"
      using idle_step_ends [of now i "closeClient c" timeout] idleRun_stopped [of ?d timeout js] once [of js ?d] by auto
    then show ?thesis using Cons by simp
  qed simp
qed

theorem closed_client_ends_witness:
  "writerRun [TakeSend True] (closeClient ((newClient ''client-1'' ''ann'')\<lparr>cl_writing := True, cl_send := [''a'']\<rparr>))
   \<and> \<not> writerRun [TakeSend True, TakeDone] (closeClient ((newClient ''client-1'' ''ann'')\<lparr>cl_writing := True, cl_send := [''a'']\<rparr>))"
proof -
  let ?c = "(newClient ''client-1'' ''ann'')\<lparr>cl_writing := True, cl_send := [''a'']\<rparr>"
  have "writerRun [TakeSend True] (closeClient ?c)" by code_simp
  moreover have "\<not> writerRun [TakeSend True, TakeDone] (closeClient ?c)"
    using closed_client_ends [of "[TakeSend True, TakeDone]" ?c 0 "[]"] by auto
  ultimately show ?thesis ..
qed

section \<open>The idle timer\<close>

text \<open>A turn of the watcher at time \<open>t\<close>, before which the reader may have seen a line.\<close>

definition idleTurn :: "int \<Rightarrow> int \<times> bool \<times> idle_choice \<Rightarrow> Client \<Rightarrow> Client" where
  "idleTurn timeout = (\<lambda>(t, touched, i) c. fst (idleWatcherStep t timeout i (if touched then touch c else c)))"

definition timerFrom :: "int \<Rightarrow> Client \<Rightarrow> bool" where
  "timerFrom b c \<longleftrightarrow> (\<forall>T. cl_timer c = Some T \<longrightarrow> b \<le> T)"

lemma timerFrom_turn:
  assumes "timerFrom (b + timeout) c" "b \<le> t"
  shows "timerFrom ((if touched \<and> i = IdleReset then t else b) + timeout) (idleTurn timeout (t, touched, i) c)"
  using assms
  by (auto simp: timerFrom_def idleTurn_def idleWatcherStep_def touch_def split: option.splits idle_choice.splits)

lemma timerFrom_run:
  assumes "timerFrom (b + timeout) c" "sorted (b # map fst evs)"
    and "snd (idleWatcherStep now timeout i (fold (idleTurn timeout) evs c))"
  shows "b + timeout \<le> now \<and> (\<forall>t. (t, True, IdleReset) \<in> set evs \<longrightarrow> t + timeout \<le> now)"
  using assms
proof (induction evs arbitrary: b c)
  case Nil
  then show ?case
    by (auto simp: timerFrom_def idleWatcherStep_def split: option.splits idle_choice.splits if_splits)
next
  case (Cons e evs)
  obtain t touched j where e: "e = (t, touched, j)" by (cases e)
  let ?b = "if touched \<and> j = IdleReset then t else b"
  have "timerFrom (?b + timeout) (idleTurn timeout e c)"
    unfolding e by (rule timerFrom_turn [OF Cons.prems(1)]) (use Cons.prems(2) e in simp)
  moreover have "sorted (?b # map fst evs)" using Cons.prems(2) e by auto
  ultimately have "?b + timeout \<le> now \<and> (\<forall>t. (t, True, IdleReset) \<in> set evs \<longrightarrow> t + timeout \<le> now)"
    by (rule Cons.IH) (use Cons.prems(3) in simp)
  moreover have "b \<le> ?b" using Cons.prems(2) e by simp
  ultimately show ?case by (auto simp: e split: if_splits)
qed

text \<open>The idle watcher never fires early: when it does, the timeout has passed since the connection
  began and since every turn in which it took notice of a line.\<close>

theorem idle_never_early:
  assumes "0 < timeout" "cl_timer c = None" "sorted (t0 # map fst evs)"
    and "snd (idleWatcherStep now timeout i (fold (idleTurn timeout) evs (startIdle t0 timeout c)))"
  shows "t0 + timeout \<le> now \<and> (\<forall>t. (t, True, IdleReset) \<in> set evs \<longrightarrow> t + timeout \<le> now)"
proof (rule timerFrom_run [OF _ assms(3,4)])
  show "timerFrom (t0 + timeout) (startIdle t0 timeout c)"
    using assms(1) by (simp add: timerFrom_def startIdle_def)
qed

theorem idle_never_early_witness:
  "let evs = [(5, True, IdleReset), (9, False, IdleFire)]; c = newClient ''client-1'' ''ann'' in
   snd (idleWatcherStep 15 10 IdleFire (fold (idleTurn 10) evs (startIdle 0 10 c))) \<and> (5 :: int) + 10 \<le> 15"
proof -
  let ?evs = "[(5 :: int, True, IdleReset), (9, False, IdleFire)]" and ?c = "newClient ''client-1'' ''ann''"
  have "snd (idleWatcherStep 15 10 IdleFire (fold (idleTurn 10) ?evs (startIdle 0 10 ?c)))"
    by code_simp
  with idle_never_early [of 10 ?c 0 ?evs 15 IdleFire] show ?thesis by (simp add: Let_def newClient_def)
qed

end
