(* ===== verification/Chat_Server.thy ===== *)
theory Chat_Server
  imports Chat_Client "HOL-Library.Product_Lexorder" "HOL-Library.Word"
begin

text \<open>
  The chat server, \<open>internal/chat/server.go\<close>, and the parts of \<open>client.go\<close> that work through it.

  The state is the server's fields and the heap its pointers lead into: \<open>clientAt\<close> and \<open>roomAt\<close> give
  the \<open>Client\<close> and the \<open>Room\<close> at a reference, \<open>nextClient\<close> and \<open>nextRoom\<close> are the next references
  \<open>&Client{}\<close> and \<open>&Room{}\<close> return. \<open>crashed\<close> records that a goroutine has panicked (which ends
  the process). Each handler is one function on this state, run without interruption; what happens
  between the handlers' critical sections when goroutines interleave is in Chat\_Races. The lines of a
  connection are handed on by \<open>bufio.Scanner\<close>, whose \<open>ScanLines\<close> is written out below. Log output is not
  modelled.
\<close>

type_synonym rref = nat

record Server =
  cfg :: Config
  srv_rooms :: "(string, rref) gomap"
  srv_clients :: "(string, cref) gomap"
  srv_names :: "(string, cref) gomap"
  srv_nextID :: "64 word"
  roomAt :: "rref \<Rightarrow> Room"
  clientAt :: "cref \<Rightarrow> Client"
  nextRoom :: rref
  nextClient :: cref
  crashed :: bool

definition nilRoom :: Room where
  "nilRoom = \<lparr>room_key = [], room_name = [], room_topic = [], room_members = [],
     room_history = [], room_historyLimit = 0\<rparr>"

definition NewServer :: "Config \<Rightarrow> Server" where
  "NewServer c = \<lparr>cfg = withDefaults c, srv_rooms = [], srv_clients = [], srv_names = [],
     srv_nextID = 0, roomAt = (\<lambda>_. nilRoom), clientAt = (\<lambda>_. newClient [] []),
     nextRoom = 0, nextClient = 0, crashed = False\<rparr>"

section \<open>Access to the heap\<close>

definition modClient :: "cref \<Rightarrow> (Client \<Rightarrow> Client) \<Rightarrow> Server \<Rightarrow> Server" where
  "modClient c f s = s\<lparr>clientAt := (clientAt s)(c := f (clientAt s c))\<rparr>"

definition modRoom :: "rref \<Rightarrow> (Room \<Rightarrow> Room) \<Rightarrow> Server \<Rightarrow> Server" where
  "modRoom r f s = s\<lparr>roomAt := (roomAt s)(r := f (roomAt s r))\<rparr>"

definition nick :: "Server \<Rightarrow> cref \<Rightarrow> string" where
  "nick s c = DisplayName (clientAt s c)"

section \<open>Sending\<close>

definition sendCap :: "Server \<Rightarrow> nat" where
  "sendCap s = nat (SendBufferSize (cfg s))"

definition Send :: "cref \<Rightarrow> string \<Rightarrow> Server \<Rightarrow> Server" where
  "Send c message s =
     (case trySend (sendCap s) message (clientAt s c) of
        Some c' \<Rightarrow> modClient c (\<lambda>_. c') s
      | None \<Rightarrow> s\<lparr>crashed := True\<rparr>)"

definition sendSystem :: "cref \<Rightarrow> string \<Rightarrow> Server \<Rightarrow> Server" where
  "sendSystem c message s = Send c (''['' @ SystemName (cfg s) @ ''] '' @ message) s"

definition broadcastRoom :: "rref option \<Rightarrow> string \<Rightarrow> bool \<Rightarrow> cref option \<Rightarrow> Server \<Rightarrow> Server" where
  "broadcastRoom room txt store exclude s =
     (case room of
        None \<Rightarrow> s
      | Some r \<Rightarrow>
          let s = (if store then modRoom r (AppendHistory txt) s else s);
              recipients = MembersSnapshot exclude (roomAt s r);
              formatted = ''['' @ Room_Name (roomAt s r) @ ''] '' @ txt
          in fold (\<lambda>member. Send member formatted) recipients s)"

definition roomForClient :: "cref \<Rightarrow> Server \<Rightarrow> rref option" where
  "roomForClient c s =
     (let key = RoomKey (clientAt s c) in if key = [] then None else map_of (srv_rooms s) key)"

section \<open>Connecting and leaving\<close>

definition addClient :: "unicode \<Rightarrow> cref \<Rightarrow> Server \<Rightarrow> chat_error + Server" where
  "addClient u c s =
     (let key = toLower u (cl_name (clientAt s c)) in
      case map_of (srv_names s) key of
        Some _ \<Rightarrow> Inl (UserNameInUse (cl_name (clientAt s c)))
      | None \<Rightarrow> Inr (s\<lparr>srv_clients := AList.update (cl_id (clientAt s c)) c (srv_clients s),
                     srv_names := AList.update key c (srv_names s)\<rparr>))"

definition isLobby :: "unicode \<Rightarrow> Server \<Rightarrow> Room \<Rightarrow> bool" where
  "isLobby u s room \<longleftrightarrow> equalFold u (Room_Name room) (LobbyName (cfg s))"

text \<open>The part of \<open>removeClient\<close> under the server's lock; it returns the client's room.\<close>

definition forget :: "unicode \<Rightarrow> cref \<Rightarrow> Server \<Rightarrow> Server" where
  "forget u c s = s\<lparr>srv_clients := AList.delete (cl_id (clientAt s c)) (srv_clients s),
     srv_names := AList.delete (toLower u (cl_name (clientAt s c))) (srv_names s)\<rparr>"

definition unregister :: "unicode \<Rightarrow> cref \<Rightarrow> Server \<Rightarrow> Server \<times> rref option" where
  "unregister u c s =
     (let cl = clientAt s c;
          s = forget u c s;
          roomKey = RoomKey cl;
          room = (if roomKey = [] then None else map_of (srv_rooms s) roomKey)
      in case room of
           None \<Rightarrow> (s, None)
         | Some r \<Rightarrow>
             let s = modRoom r (RemoveMember (cl_id cl)) s;
                 s = (if IsEmpty (roomAt s r) \<and> \<not> isLobby u s (roomAt s r)
                      then s\<lparr>srv_rooms := AList.delete roomKey (srv_rooms s)\<rparr> else s)
             in (s, Some r))"

definition removeClient :: "unicode \<Rightarrow> cref \<Rightarrow> string \<Rightarrow> Server \<Rightarrow> Server" where
  "removeClient u c reason s =
     (let (s, room) = unregister u c s
      in broadcastRoom room (nick s c @ '' left ('' @ reason @ '')'') False (Some c) s)"

definition shutdown :: "unicode \<Rightarrow> cref \<Rightarrow> string \<Rightarrow> Server \<Rightarrow> Server" where
  "shutdown u c reason s =
     (if cl_once (clientAt s c) then s else removeClient u c reason (modClient c closeClient s))"

section \<open>Moving between rooms\<close>

text \<open>
  \<open>moveClientRoom\<close> in two parts: finding the room or making it, and the exchange of memberships. The
  result is the room, the previous room and whether the client was already there; \<open>None\<close> is the
  panic of \<open>newRoom\<close>.
\<close>

definition findRoom :: "unicode \<Rightarrow> string \<Rightarrow> Server \<Rightarrow> (Server \<times> rref) option" where
  "findRoom u roomName s =
     (let key = normalizeRoomKey u roomName;
          key = (if key = [] then normalizeRoomKey u (LobbyName (cfg s)) else key)
      in case map_of (srv_rooms s) key of
           Some r \<Rightarrow> Some (s, r)
         | None \<Rightarrow>
             (case newRoom u roomName (HistoryLimit (cfg s)) of
                None \<Rightarrow> None
              | Some new \<Rightarrow>
                  Some (s\<lparr>srv_rooms := AList.update key (nextRoom s) (srv_rooms s),
                          roomAt := (roomAt s)(nextRoom s := new),
                          nextRoom := Suc (nextRoom s)\<rparr>, nextRoom s)))"

definition switchRoom :: "cref \<Rightarrow> rref \<Rightarrow> Server \<Rightarrow> Server \<times> rref option" where
  "switchRoom c room s =
     (let currentKey = RoomKey (clientAt s c);
          cid = cl_id (clientAt s c);
          previous = (if currentKey = [] then None else map_of (srv_rooms s) currentKey);
          s = (case previous of None \<Rightarrow> s | Some p \<Rightarrow> modRoom p (RemoveMember cid) s);
          s = modRoom room (AddMember cid c) s
      in (modClient c (setRoom (roomAt s room)) s, previous))"

definition moveClientRoom ::
  "unicode \<Rightarrow> cref \<Rightarrow> string \<Rightarrow> Server \<Rightarrow> (Server \<times> rref \<times> rref option \<times> bool) option" where
  "moveClientRoom u c roomName s =
     (case findRoom u roomName s of
        None \<Rightarrow> None
      | Some (s, room) \<Rightarrow>
          if RoomKey (clientAt s c) = Room_Key (roomAt s room) then Some (s, room, Some room, True)
          else let (s, previous) = switchRoom c room s in Some (s, room, previous, False))"

definition cleanupRoom :: "unicode \<Rightarrow> rref option \<Rightarrow> Server \<Rightarrow> Server" where
  "cleanupRoom u room s =
     (case room of
        None \<Rightarrow> s
      | Some r \<Rightarrow>
          if isLobby u s (roomAt s r) then s
          else if \<not> IsEmpty (roomAt s r) then s
          else s\<lparr>srv_rooms := AList.delete (Room_Key (roomAt s r)) (srv_rooms s)\<rparr>)"

definition sendHistory :: "cref \<Rightarrow> rref \<Rightarrow> string list \<Rightarrow> Server \<Rightarrow> Server" where
  "sendHistory c r history s =
     fold (\<lambda>line s. Send c (''['' @ Room_Name (roomAt s r) @ ''] '' @ line) s) history s"

text \<open>What a client that has moved is sent, and what both rooms are told; then the previous room is
  cleaned up.\<close>

definition joinNotices :: "cref \<Rightarrow> rref \<Rightarrow> bool \<Rightarrow> Server \<Rightarrow> Server" where
  "joinNotices c room announce s =
     (let s = sendSystem c (''Joined #'' @ Room_Name (roomAt s room) @ '' (''
                @ itoa (MemberCount (roomAt s room)) @ '' users)'') s;
          topic = Topic (roomAt s room);
          s = (if topic \<noteq> [] then sendSystem c (''Topic: '' @ topic) s else s);
          history = RecentHistory (HistoryLimit (cfg s)) (roomAt s room);
          s = (if history \<noteq> []
               then sendHistory c room history
                      (sendSystem c (''Recent '' @ itoa (length history) @ '' messages:'') s)
               else s)
      in if announce
         then broadcastRoom (Some room) (nick s c @ '' joined the room'') False (Some c) s
         else s)"

definition leavePrevious :: "unicode \<Rightarrow> cref \<Rightarrow> rref \<Rightarrow> rref option \<Rightarrow> Server \<Rightarrow> Server" where
  "leavePrevious u c room previous s =
     (if previous \<noteq> None \<and> previous \<noteq> Some room
      then cleanupRoom u previous
             (broadcastRoom previous (nick s c @ '' left the room'') False (Some c) s)
      else s)"

definition joinRoom :: "unicode \<Rightarrow> cref \<Rightarrow> string \<Rightarrow> bool \<Rightarrow> Server \<Rightarrow> Server" where
  "joinRoom u c desired announce s =
     (let roomName = (if trimSpace desired = [] then LobbyName (cfg s) else desired) in
      case sanitizeRoomName u roomName of
        Inl err \<Rightarrow> sendSystem c (errorText u err) s
      | Inr validName \<Rightarrow>
          (case moveClientRoom u c validName s of
             None \<Rightarrow> s\<lparr>crashed := True\<rparr>
           | Some (s, room, previous, already) \<Rightarrow>
               if already then sendSystem c (''You are already in #'' @ Room_Name (roomAt s room)) s
               else leavePrevious u c room previous (joinNotices c room announce s)))"

section \<open>Commands\<close>

definition dash :: string where
  "dash = [CHR 0xE2, CHR 0x80, CHR 0x93]"

definition arrow :: string where
  "arrow = [CHR 0xE2, CHR 0x86, CHR 0x92]"

definition helpText :: string where
  "helpText = join
     [''Available commands:'',
      ''/Help                Show this message'',
      ''/Who [all]           List users in current room or all rooms'',
      ''/Rooms               List all rooms'',
      ''/Join <room>         Join or create a room'',
      ''/Leave               Return to the lobby'',
      ''/Nick <name>         Change your display name'',
      ''/Msg <user> <text>   Send a private message'',
      ''/Topic [text]        View or set the room topic'',
      ''/History [n]         Show the last n messages from the room'',
      ''/Me <action>         Share a role-play style action'',
      ''/Whoami              Display your current identity'',
      ''/Ping                Check connection health'',
      ''/Quit                Disconnect from the server''] nl"

definition postMessage :: "cref \<Rightarrow> string \<Rightarrow> Server \<Rightarrow> Server" where
  "postMessage c txt s =
     (case roomForClient c s of
        None \<Rightarrow> sendSystem c ''You are not inside a room. Use /join <room> first.'' s
      | Some r \<Rightarrow> broadcastRoom (Some r) (nick s c @ '': '' @ txt) True None s)"

definition cmdAction :: "cref \<Rightarrow> string \<Rightarrow> Server \<Rightarrow> Server" where
  "cmdAction c args s =
     (if trimSpace args = [] then sendSystem c ''Usage: /me <action>'' s
      else case roomForClient c s of
        None \<Rightarrow> sendSystem c ''You are not inside a room. Use /join <room> first.'' s
      | Some r \<Rightarrow> broadcastRoom (Some r) (''* '' @ nick s c @ '' '' @ args) True None s)"

text \<open>\<open>cmdNick\<close>: the exchange of names under the server's lock, then the rest, here without interruption. The code
  releases the lock in between; rename\_races\_shutdown shows what can come of it.\<close>

definition claimName :: "unicode \<Rightarrow> cref \<Rightarrow> string \<Rightarrow> string \<Rightarrow> Server \<Rightarrow> Server option" where
  "claimName u c oldName name s =
     (case map_of (srv_names s) (toLower u name) of
        Some _ \<Rightarrow> None
      | None \<Rightarrow> Some (s\<lparr>srv_names :=
          AList.update (toLower u name) c (AList.delete (toLower u oldName) (srv_names s))\<rparr>))"

definition cmdNick :: "unicode \<Rightarrow> cref \<Rightarrow> string \<Rightarrow> Server \<Rightarrow> Server" where
  "cmdNick u c args s =
     (if trimSpace args = [] then sendSystem c ''Usage: /nick <new-name>'' s
      else case sanitizeUserName u args of
        Inl err \<Rightarrow> sendSystem c (errorText u err) s
      | Inr name \<Rightarrow>
          let oldName = nick s c in
          (case claimName u c oldName name s of
             None \<Rightarrow> sendSystem c ''That name is already taken.'' s
           | Some s \<Rightarrow>
               let s = modClient c (setName name) s;
                   s = sendSystem c (''You're now known as '' @ name) s
               in broadcastRoom (roomForClient c s) (oldName @ '' is now known as '' @ name) False (Some c) s))"

definition cmdWho :: "unicode \<Rightarrow> cref \<Rightarrow> string \<Rightarrow> Server \<Rightarrow> Server" where
  "cmdWho u c args s =
     (if equalFold u (trimSpace args) ''all''
      then let names = sort (map (\<lambda>(_, client). nick s client) (srv_clients s))
        in sendSystem c (''Online ('' @ itoa (length names) @ ''): '' @ join names '', '') s
      else case roomForClient c s of
        None \<Rightarrow> sendSystem c ''You are not inside a room.'' s
      | Some r \<Rightarrow>
          let names = MemberNames (nick s) (roomAt s r)
          in sendSystem c (''#'' @ Room_Name (roomAt s r) @ '' ('' @ itoa (length names) @ ''): ''
               @ join names '', '') s)"

text \<open>\<open>sort.Slice\<close> with the comparison of \<open>cmdRooms\<close>: larger rooms first, then by name. (Rooms have
  different names, so that the sort is not stable in Go cannot be seen.)\<close>

record summary =
  sum_name :: string
  sum_count :: nat
  sum_topic :: string

definition summaries :: "Server \<Rightarrow> summary list" where
  "summaries s =
     sort_key (\<lambda>m. (- int (sum_count m), sum_name m))
       (map (\<lambda>(_, r). \<lparr>sum_name = Room_Name (roomAt s r), sum_count = MemberCount (roomAt s r),
                       sum_topic = Topic (roomAt s r)\<rparr>) (srv_rooms s))"

definition roomLine :: "summary \<Rightarrow> string" where
  "roomLine m =
     (let line = '' - #'' @ sum_name m @ '' ('' @ itoa (sum_count m) @ '')'';
          line = (if sum_topic m \<noteq> [] then line @ '' '' @ dash @ '' '' @ sum_topic m else line)
      in line @ nl)"

definition cmdRooms :: "cref \<Rightarrow> Server \<Rightarrow> Server" where
  "cmdRooms c s =
     (let sums = summaries s in
      if sums = [] then sendSystem c ''No active rooms yet. Be the first to /join one!'' s
      else Send c (''Rooms:'' @ nl @ concat (map roomLine sums)) s)"

definition directMessage :: "unicode \<Rightarrow> cref \<Rightarrow> string \<Rightarrow> string \<Rightarrow> Server \<Rightarrow> Server" where
  "directMessage u from targetName txt s =
     (case map_of (srv_names s) (toLower u targetName) of
        None \<Rightarrow> sendSystem from ''User not found.'' s
      | Some target \<Rightarrow>
          let payload = trimSpace txt in
          if payload = [] then sendSystem from ''Message cannot be empty.'' s
          else let toMsg = ''[dm] '' @ nick s from @ '' '' @ arrow @ '' you: '' @ payload;
                   fromMsg = ''[dm] you '' @ arrow @ '' '' @ nick s target @ '': '' @ payload
               in Send from fromMsg (Send target toMsg s))"

definition cmdMsg :: "unicode \<Rightarrow> cref \<Rightarrow> string \<Rightarrow> Server \<Rightarrow> Server" where
  "cmdMsg u c args s =
     (case Go_Strings.fields args of
        targetName # _ # _ \<Rightarrow>
          let message = trimSpace (drop (length targetName) args) in
          if trimSpace message = [] then sendSystem c ''You need to provide a message body.'' s
          else directMessage u c targetName message s
      | _ \<Rightarrow> sendSystem c ''Usage: /msg <user> <message>'' s)"

definition cmdTopic :: "cref \<Rightarrow> string \<Rightarrow> Server \<Rightarrow> Server" where
  "cmdTopic c args s =
     (case roomForClient c s of
        None \<Rightarrow> sendSystem c ''You are not inside a room.'' s
      | Some r \<Rightarrow>
          if trimSpace args = []
          then (let topic = Topic (roomAt s r) in
                if topic = [] then sendSystem c ''No topic set for this room.'' s
                else sendSystem c (''Topic for #'' @ Room_Name (roomAt s r) @ '': '' @ topic) s)
          else let (topic, room) = SetTopic args (roomAt s r);
                   s = modRoom r (\<lambda>_. room) s
               in broadcastRoom (Some r) (nick s c @ '' set the topic: '' @ topic) False None s)"

definition cmdHistory :: "cref \<Rightarrow> string \<Rightarrow> Server \<Rightarrow> Server" where
  "cmdHistory c args s =
     (case roomForClient c s of
        None \<Rightarrow> sendSystem c ''You are not inside a room.'' s
      | Some r \<Rightarrow>
          (case parseOptionalInt args 10 of
             None \<Rightarrow> sendSystem c ''History length must be a number.'' s
           | Some limit \<Rightarrow>
               let limit = (if limit \<le> 0 then 10 else limit);
                   history = RecentHistory limit (roomAt s r)
               in if history = [] then sendSystem c ''No history yet.'' s
                  else sendHistory c r history
                         (sendSystem c (''Last '' @ itoa (length history) @ '' messages in #''
                            @ Room_Name (roomAt s r) @ '':'') s)))"

definition executeCommand :: "unicode \<Rightarrow> cref \<Rightarrow> string \<Rightarrow> string \<Rightarrow> Server \<Rightarrow> Server" where
  "executeCommand u c cmd args s =
     (if cmd = ''help'' then sendSystem c helpText s
      else if cmd = ''nick'' then cmdNick u c args s
      else if cmd = ''who'' then cmdWho u c args s
      else if cmd = ''rooms'' then cmdRooms c s
      else if cmd = ''join'' then joinRoom u c args True s
      else if cmd = ''leave'' then joinRoom u c (LobbyName (cfg s)) True s
      else if cmd = ''msg'' then cmdMsg u c args s
      else if cmd = ''topic'' then cmdTopic c args s
      else if cmd = ''history'' then cmdHistory c args s
      else if cmd = ''me'' then cmdAction c args s
      else if cmd = ''quit'' \<or> cmd = ''exit'' then shutdown u c ''quit'' (sendSystem c ''Bye!'' s)
      else if cmd = ''whoami''
      then sendSystem c (''You are '' @ nick s c @ '' in #'' @ RoomName (clientAt s c)) s
      else if cmd = ''ping'' then sendSystem c ''pong'' s
      else sendSystem c ''Unknown command. Type /help for assistance.'' s)"

definition handleInput :: "unicode \<Rightarrow> cref \<Rightarrow> string \<Rightarrow> Server \<Rightarrow> Server" where
  "handleInput u c line s =
     (let trimmed = trimSpace line in
      if trimmed = [] then s
      else if prefix ''/'' trimmed
      then let (cmd, args) = parseCommand u trimmed in
        if cmd = [] then s else executeCommand u c cmd args s
      else postMessage c trimmed s)"

section \<open>The life of a connection\<close>

text \<open>
  \<open>bufio.Scanner\<close> with \<open>ScanLines\<close> over the bytes the connection delivers until it ends: the lines
  without their line break and a carriage return before it. A line that fills the buffer ends the
  scan with \<open>ErrTooLong\<close> (the second component). \<open>Scanner.Buffer(make([]byte, 0, 1024), max)\<close>
  makes the larger of \<open>max\<close> and 1024 the buffer's final size.
\<close>

definition dropCR :: "string \<Rightarrow> string" where
  "dropCR line = (if suffix [CHR 0x0D] line then butlast line else line)"

definition scanBuffer :: "int \<Rightarrow> nat" where
  "scanBuffer maxBytes = max 1024 (nat maxBytes)"

function scanLines :: "nat \<Rightarrow> string \<Rightarrow> string list \<times> bool" where
  "scanLines cap bs =
     (if bs = [] then ([], False)
      else let line = takeWhile (\<lambda>b. b \<noteq> CHR 0x0A) bs in
        if cap \<le> length line then ([], True)
        else let (ls, tooLong) = scanLines cap (drop (length line + 1) bs)
             in (dropCR line # ls, tooLong))"
  by pat_completeness auto
termination
  by (relation "measure (\<lambda>(cap, bs). length bs)") auto

declare scanLines.simps [simp del]

text \<open>The body of \<open>readLoop\<close>'s loop, and the loop itself with its deferred \<open>shutdown\<close>.\<close>

definition readLine :: "unicode \<Rightarrow> cref \<Rightarrow> string \<Rightarrow> Server \<Rightarrow> Server" where
  "readLine u c line s = handleInput u c line (modClient c touch s)"

definition readLoop :: "unicode \<Rightarrow> cref \<Rightarrow> string \<Rightarrow> Server \<Rightarrow> Server" where
  "readLoop u c input s =
     (let (ls, tooLong) = scanLines (scanBuffer (MaxMessageBytes (cfg s))) input
      in shutdown u c ''connection closed'' (fold (readLine u c) ls s))"

text \<open>\<open>start\<close> up to the read loop: the two goroutines, the welcome, the lobby. \<open>now\<close> is the clock.\<close>

definition startClient :: "unicode \<Rightarrow> int \<Rightarrow> cref \<Rightarrow> Server \<Rightarrow> Server" where
  "startClient u now c s =
     (let s = modClient c (\<lambda>cl. cl\<lparr>cl_writing := True\<rparr>) s;
          s = modClient c (startIdle now (IdleTimeout (cfg s))) s;
          s = sendSystem c (''Welcome to '' @ SystemName (cfg s) @ ''! Type /help for commands.'') s
      in joinRoom u c (LobbyName (cfg s)) True s)"

text \<open>\<open>handleConn\<close> up to the read loop: a client with a fresh id and guest name; if the name is taken
  the connection is closed.\<close>

definition handleConn :: "unicode \<Rightarrow> int \<Rightarrow> Server \<Rightarrow> Server" where
  "handleConn u now s =
     (let seq = srv_nextID s + 1;
          name = ''guest-'' @ pad4 (unat seq);
          cid = ''client-'' @ itoa (unat seq);
          c = nextClient s;
          s = s\<lparr>srv_nextID := seq, nextClient := Suc c,
                clientAt := (clientAt s)(c := newClient cid name)\<rparr>
      in case addClient u c s of
           Inl _ \<Rightarrow> modClient c (\<lambda>cl. cl\<lparr>cl_connClosed := True\<rparr>) s
         | Inr s \<Rightarrow> startClient u now c s)"

definition writeLoop :: "unicode \<Rightarrow> cref \<Rightarrow> write_choice \<Rightarrow> Server \<Rightarrow> Server" where
  "writeLoop u c w s =
     (let (cl, stop) = writeLoopStep w (clientAt s c); s = modClient c (\<lambda>_. cl) s
      in case stop of None \<Rightarrow> s | Some reason \<Rightarrow> shutdown u c reason s)"

definition idleWatcher :: "unicode \<Rightarrow> int \<Rightarrow> cref \<Rightarrow> idle_choice \<Rightarrow> Server \<Rightarrow> Server" where
  "idleWatcher u now c i s =
     (let (cl, fired) = idleWatcherStep now (IdleTimeout (cfg s)) i (clientAt s c);
          s = modClient c (\<lambda>_. cl) s
      in if fired
         then shutdown u c ''idle timeout'' (sendSystem c ''Disconnected due to inactivity.'' s)
         else s)"

section \<open>What the reader handles\<close>

lemma scanLines_line:
  assumes "CHR 0x0A \<notin> set l" "length l < cap"
  shows "scanLines cap (l @ nl @ bs) = (case scanLines cap bs of (ls, tooLong) \<Rightarrow> (dropCR l # ls, tooLong))"
proof -
  have "takeWhile (\<lambda>b. b \<noteq> CHR 0x0A) (l @ nl @ bs) = l"
    using assms(1) by (subst takeWhile_append2) (auto simp: nl_def)
  then show ?thesis using assms(2) by (subst scanLines.simps) (simp add: Let_def nl_def)
qed

lemma scanLines_rest:
  assumes "CHR 0x0A \<notin> set l" "length l < cap"
  shows "scanLines cap l = (if l = [] then [] else [dropCR l], False)"
proof -
  have all: "takeWhile (\<lambda>b. b \<noteq> CHR 0x0A) l = l" using assms(1) by (subst takeWhile_eq_all_conv) metis
  show ?thesis
    using assms(2) unfolding scanLines.simps [of cap l] Let_def all by (simp add: scanLines.simps [of cap "[]"])
qed

lemma scanLines_tooLong:
  assumes "CHR 0x0A \<notin> set l" "cap \<le> length l" "l \<noteq> []"
  shows "scanLines cap (l @ beyond) = ([], True)"
proof -
  have "takeWhile (\<lambda>b. b \<noteq> CHR 0x0A) (l @ beyond) = l @ takeWhile (\<lambda>b. b \<noteq> CHR 0x0A) beyond"
    using assms(1) by (intro takeWhile_append2) auto
  then show ?thesis using assms(2,3) by (subst scanLines.simps) (simp add: Let_def)
qed

lemma scanLines_lines:
  assumes "\<forall>l\<in>set ls. CHR 0x0A \<notin> set l \<and> length l < cap"
  shows "scanLines cap (concat (map (\<lambda>l. l @ nl) ls) @ bs) =
    (case scanLines cap bs of (ms, tooLong) \<Rightarrow> (map dropCR ls @ ms, tooLong))"
  using assms by (induction ls) (simp_all add: scanLines_line [unfolded append_assoc] split: prod.split)

lemma readLoop_lines:
  assumes "\<forall>l\<in>set ls. CHR 0x0A \<notin> set l \<and> length l < 1024"
  shows "readLoop u c (concat (map (\<lambda>l. l @ nl) ls)) s =
    shutdown u c ''connection closed'' (fold (readLine u c) (map dropCR ls) s)"
proof -
  have "\<forall>l\<in>set ls. CHR 0x0A \<notin> set l \<and> length l < scanBuffer (MaxMessageBytes (cfg s))"
    using assms by (auto simp: scanBuffer_def)
  from scanLines_lines [OF this, of "[]"] show ?thesis
    by (simp add: readLoop_def scanLines.simps [of "scanBuffer (MaxMessageBytes (cfg s))" "[]"])
qed

text \<open>C29. The read loop handles, in order and without the carriage returns at their ends, exactly the lines that
  the connection delivers, also a last one without a line break, and then shuts the client down. A line
  that does not fit the buffer ends the loop in its place: neither it nor anything after it is handled.
  Lines fit if they are shorter than \<open>MaxMessageBytes\<close>, or than 1024 bytes if that is more.\<close>

theorem readLoop_handles_lines:
  assumes "\<forall>l\<in>set ls. CHR 0x0A \<notin> set l \<and> length l < max 1024 (nat (MaxMessageBytes (cfg s)))"
    and "CHR 0x0A \<notin> set rest"
  shows "(length rest < max 1024 (nat (MaxMessageBytes (cfg s))) \<longrightarrow>
      readLoop u c (concat (map (\<lambda>l. l @ nl) ls) @ rest) s =
        shutdown u c ''connection closed''
          (fold (readLine u c) (map dropCR (ls @ (if rest = [] then [] else [rest]))) s))
    \<and> (max 1024 (nat (MaxMessageBytes (cfg s))) \<le> length rest \<longrightarrow>
      readLoop u c (concat (map (\<lambda>l. l @ nl) ls) @ rest @ beyond) s =
        shutdown u c ''connection closed'' (fold (readLine u c) (map dropCR ls) s))"
proof -
  define cap where "cap = max 1024 (nat (MaxMessageBytes (cfg s)))"
  have buf: "scanBuffer (MaxMessageBytes (cfg s)) = cap" by (simp add: scanBuffer_def cap_def)
  note lines = scanLines_lines [OF assms(1) [folded cap_def]]
  have "rest \<noteq> []" if "cap \<le> length rest" using that by (auto simp: cap_def)
  then show ?thesis
    using scanLines_rest [OF assms(2), of cap] scanLines_tooLong [OF assms(2), of cap beyond]
    by (simp add: readLoop_def buf lines flip: cap_def)
qed

text \<open>Two lines, one of them ended in the manner of Telnet, and a line of 4096 bytes, which is one too many.\<close>

theorem readLoop_handles_lines_witness:
  "readLoop ascii_unicode 0 (''hello'' @ nl @ ''bye'' @ [CHR 0x0D] @ nl @ replicate 4096 CHR 0x78 @ nl) (NewServer DefaultConfig)
   = shutdown ascii_unicode 0 ''connection closed''
       (readLine ascii_unicode 0 ''bye'' (readLine ascii_unicode 0 ''hello'' (NewServer DefaultConfig)))"
proof -
  have limit: "MaxMessageBytes (cfg (NewServer DefaultConfig)) = 4096" by code_simp
  have cr: "dropCR ''hello'' = ''hello''" "dropCR (''bye'' @ [CHR 0x0D]) = ''bye''" by code_simp+
  have "\<forall>l\<in>set [''hello'', ''bye'' @ [CHR 0x0D]]. CHR 0x0A \<notin> set l
      \<and> length l < max 1024 (nat (MaxMessageBytes (cfg (NewServer DefaultConfig))))"
    unfolding limit by simp
  from readLoop_handles_lines [OF this, of "replicate 4096 CHR 0x78" ascii_unicode 0 nl] show ?thesis
    unfolding limit by (simp add: cr [simplified] nl_def)
qed

end
