(* ===== verification/Chat_Core.thy ===== *)
theory Chat_Core
  imports Chat_Server
begin

text \<open>
  The consistency of the chat server's state: what sending leaves alone, and the invariant \<open>chat_inv\<close> in its
  parts: registers, rooms, occupancy, liveness of registered clients, channels.
\<close>

section \<open>What sending does not touch\<close>

text \<open>\<open>core\<close> forgets the contents of the outgoing channels and the crash flag: what remains is what a
  send leaves alone.\<close>

definition core :: "Server \<Rightarrow> Server" where
  "core s = s\<lparr>clientAt := (\<lambda>d. (clientAt s d)\<lparr>cl_send := []\<rparr>), crashed := False\<rparr>"

lemma core_projs:
  assumes "core t = core s"
  shows "cfg t = cfg s" "srv_rooms t = srv_rooms s" "srv_clients t = srv_clients s"
    "srv_names t = srv_names s" "srv_nextID t = srv_nextID s" "roomAt t = roomAt s"
    "nextRoom t = nextRoom s" "nextClient t = nextClient s"
    "cl_id (clientAt t d) = cl_id (clientAt s d)"
    "cl_name (clientAt t d) = cl_name (clientAt s d)"
    "cl_roomKey (clientAt t d) = cl_roomKey (clientAt s d)"
    "cl_roomDisplay (clientAt t d) = cl_roomDisplay (clientAt s d)"
    "cl_done (clientAt t d) = cl_done (clientAt s d)"
    "cl_sendClosed (clientAt t d) = cl_sendClosed (clientAt s d)"
    "cl_once (clientAt t d) = cl_once (clientAt s d)"
    "cl_connClosed (clientAt t d) = cl_connClosed (clientAt s d)"
    "cl_written (clientAt t d) = cl_written (clientAt s d)"
proof -
  from assms show "cfg t = cfg s" "srv_rooms t = srv_rooms s" "srv_clients t = srv_clients s"
    "srv_names t = srv_names s" "srv_nextID t = srv_nextID s" "roomAt t = roomAt s"
    "nextRoom t = nextRoom s" "nextClient t = nextClient s"
    unfolding core_def by (cases s, cases t, simp)+
  have "clientAt (core t) d = clientAt (core s) d" using assms by simp
  then show "cl_id (clientAt t d) = cl_id (clientAt s d)"
    "cl_name (clientAt t d) = cl_name (clientAt s d)"
    "cl_roomKey (clientAt t d) = cl_roomKey (clientAt s d)"
    "cl_roomDisplay (clientAt t d) = cl_roomDisplay (clientAt s d)"
    "cl_done (clientAt t d) = cl_done (clientAt s d)"
    "cl_sendClosed (clientAt t d) = cl_sendClosed (clientAt s d)"
    "cl_once (clientAt t d) = cl_once (clientAt s d)"
    "cl_connClosed (clientAt t d) = cl_connClosed (clientAt s d)"
    "cl_written (clientAt t d) = cl_written (clientAt s d)"
    unfolding core_def by (cases "clientAt s d", cases "clientAt t d", simp)+
qed

lemma trySend_cases:
  "trySend cap m c = Some c' \<Longrightarrow> c' = c\<lparr>cl_send := cl_send c'\<rparr>
     \<and> (length (cl_send c) \<le> cap \<longrightarrow> length (cl_send c') \<le> cap)"
  by (auto simp: trySend_def Let_def split: if_splits)

lemma core_Send [simp]: "core (Send c m s) = core s"
proof (cases "trySend (sendCap s) m (clientAt s c)")
  case None
  then show ?thesis by (simp add: Send_def core_def)
next
  case (Some c')
  from trySend_cases [OF Some] obtain x where "c' = clientAt s c\<lparr>cl_send := x\<rparr>" by blast
  with Some show ?thesis by (simp add: Send_def core_def modClient_def fun_eq_iff)
qed

lemma core_fold: "(\<And>x s. core (f x s) = core s) \<Longrightarrow> core (fold f xs s) = core s"
  by (induction xs arbitrary: s) simp_all

lemma core_sendSystem [simp]: "core (sendSystem c m s) = core s"
  by (simp add: sendSystem_def)

lemma core_broadcast [simp]: "core (broadcastRoom r m False ex s) = core s"
  by (simp add: broadcastRoom_def core_fold split: option.splits)

lemma core_sendHistory [simp]: "core (sendHistory c r h s) = core s"
  by (simp add: sendHistory_def core_fold)

lemmas Send_projs [simp] = core_projs [OF core_Send]
lemmas sendSystem_projs [simp] = core_projs [OF core_sendSystem]
lemmas broadcast_projs [simp] = core_projs [OF core_broadcast]
lemmas sendHistory_projs [simp] = core_projs [OF core_sendHistory]

lemma modClient_projs [simp]:
  "cfg (modClient c f s) = cfg s" "srv_rooms (modClient c f s) = srv_rooms s"
  "srv_clients (modClient c f s) = srv_clients s" "srv_names (modClient c f s) = srv_names s"
  "srv_nextID (modClient c f s) = srv_nextID s" "roomAt (modClient c f s) = roomAt s"
  "nextRoom (modClient c f s) = nextRoom s" "nextClient (modClient c f s) = nextClient s"
  "crashed (modClient c f s) = crashed s"
  "clientAt (modClient c f s) d = (if d = c then f (clientAt s c) else clientAt s d)"
  by (simp_all add: modClient_def)

lemma modRoom_projs [simp]:
  "cfg (modRoom r f s) = cfg s" "srv_rooms (modRoom r f s) = srv_rooms s"
  "srv_clients (modRoom r f s) = srv_clients s" "srv_names (modRoom r f s) = srv_names s"
  "srv_nextID (modRoom r f s) = srv_nextID s" "clientAt (modRoom r f s) = clientAt s"
  "nextRoom (modRoom r f s) = nextRoom s" "nextClient (modRoom r f s) = nextClient s"
  "crashed (modRoom r f s) = crashed s"
  "roomAt (modRoom r f s) d = (if d = r then f (roomAt s r) else roomAt s d)"
  by (simp_all add: modRoom_def)

lemma client_update_simps [simp]:
  "cl_id (setRoom r c) = cl_id c" "cl_name (setRoom r c) = cl_name c"
  "cl_roomKey (setRoom r c) = room_key r" "cl_roomDisplay (setRoom r c) = room_name r"
  "cl_done (setRoom r c) = cl_done c" "cl_sendClosed (setRoom r c) = cl_sendClosed c"
  "cl_once (setRoom r c) = cl_once c" "cl_send (setRoom r c) = cl_send c"
  "cl_id (setName n c) = cl_id c" "cl_name (setName n c) = n"
  "cl_roomKey (setName n c) = cl_roomKey c" "cl_done (setName n c) = cl_done c"
  "cl_sendClosed (setName n c) = cl_sendClosed c" "cl_once (setName n c) = cl_once c"
  "cl_send (setName n c) = cl_send c"
  "cl_id (closeClient c) = cl_id c" "cl_name (closeClient c) = cl_name c"
  "cl_roomKey (closeClient c) = cl_roomKey c" "cl_send (closeClient c) = cl_send c"
  "cl_done (closeClient c)" "cl_sendClosed (closeClient c)" "cl_once (closeClient c)"
  "cl_connClosed (closeClient c)" "cl_written (closeClient c) = cl_written c"
  by (simp_all add: setRoom_def setName_def closeClient_def Room_Key_def Room_Name_def)

section \<open>The invariant\<close>

definition registered :: "Server \<Rightarrow> cref \<Rightarrow> bool" where
  "registered s c \<longleftrightarrow> map_of (srv_clients s) (cl_id (clientAt s c)) = Some c"

text \<open>Clients are registered under their ids and their lower-cased nicks, and under nothing else.\<close>

definition reg_inv :: "unicode \<Rightarrow> Server \<Rightarrow> bool" where
  "reg_inv u s \<longleftrightarrow>
     keys_distinct (srv_clients s) \<and> keys_distinct (srv_names s) \<and>
     (\<forall>i c. map_of (srv_clients s) i = Some c \<longrightarrow>
        cl_id (clientAt s c) = i \<and> c < nextClient s \<and>
        (\<exists>n\<le>unat (srv_nextID s). i = ''client-'' @ itoa n) \<and>
        map_of (srv_names s) (toLower u (cl_name (clientAt s c))) = Some c) \<and>
     (\<forall>k c. map_of (srv_names s) k = Some c \<longrightarrow>
        registered s c \<and> k = toLower u (cl_name (clientAt s c)))"

text \<open>A room is stored under its key; its members are exactly the registered clients that cache its
  key; a registered client's cached key is empty or names a room.\<close>

definition room_ok :: "unicode \<Rightarrow> Server \<Rightarrow> string \<Rightarrow> rref \<Rightarrow> bool" where
  "room_ok u s k r \<longleftrightarrow>
     r < nextRoom s \<and> room_key (roomAt s r) = k \<and> k \<noteq> [] \<and>
     normalizeRoomKey u (room_name (roomAt s r)) = k \<and> keys_distinct (room_members (roomAt s r)) \<and>
     room_historyLimit (roomAt s r) = HistoryLimit (cfg s) \<and>
     int (length (room_history (roomAt s r))) \<le> HistoryLimit (cfg s)"

definition rooms_inv :: "unicode \<Rightarrow> Server \<Rightarrow> bool" where
  "rooms_inv u s \<longleftrightarrow>
     keys_distinct (srv_rooms s) \<and>
     (\<forall>k r. map_of (srv_rooms s) k = Some r \<longrightarrow> room_ok u s k r \<and>
        (\<forall>i c. map_of (room_members (roomAt s r)) i = Some c \<longleftrightarrow>
           map_of (srv_clients s) i = Some c \<and> cl_roomKey (clientAt s c) = k)) \<and>
     (\<forall>i c. map_of (srv_clients s) i = Some c \<longrightarrow> cl_roomKey (clientAt s c) \<noteq> [] \<longrightarrow>
        map_of (srv_rooms s) (cl_roomKey (clientAt s c)) \<noteq> None)"

text \<open>Every room but the lobby, and possibly the rooms in \<open>except\<close>, has a member.\<close>

definition occupied :: "unicode \<Rightarrow> rref set \<Rightarrow> Server \<Rightarrow> bool" where
  "occupied u except s \<longleftrightarrow>
     (\<forall>k r. map_of (srv_rooms s) k = Some r \<longrightarrow> r \<notin> except \<longrightarrow>
        room_members (roomAt s r) \<noteq> [] \<or> isLobby u s (roomAt s r))"

definition live_inv :: "Server \<Rightarrow> bool" where
  "live_inv s \<longleftrightarrow>
     (\<forall>i c. map_of (srv_clients s) i = Some c \<longrightarrow>
        openClient (clientAt s c) \<and> \<not> cl_once (clientAt s c))"

definition channels_inv :: "Server \<Rightarrow> bool" where
  "channels_inv s \<longleftrightarrow> \<not> crashed s \<and>
     (\<forall>c. sendSafe (clientAt s c) \<and> length (cl_send (clientAt s c)) \<le> sendCap s)"

definition chat_inv :: "unicode \<Rightarrow> Server \<Rightarrow> bool" where
  "chat_inv u s \<longleftrightarrow> config_ok (cfg s) \<and> reg_inv u s \<and> rooms_inv u s \<and> occupied u {} s
     \<and> live_inv s \<and> channels_inv s"

text \<open>All but the last part see only the core.\<close>

lemma inv_core:
  assumes "core t = core s"
  shows "registered t c = registered s c" "reg_inv u t = reg_inv u s" "rooms_inv u t = rooms_inv u s"
    "occupied u e t = occupied u e s" "live_inv t = live_inv s"
  by (simp_all add: registered_def reg_inv_def rooms_inv_def room_ok_def occupied_def isLobby_def
      live_inv_def openClient_def core_projs [OF assms])

lemmas inv_Send [simp] = inv_core [OF core_Send] inv_core [OF core_sendSystem]
  inv_core [OF core_broadcast] inv_core [OF core_sendHistory]

lemma channels_Send: "channels_inv s \<Longrightarrow> channels_inv (Send c m s)"
proof -
  assume inv: "channels_inv s"
  then obtain c' where t: "trySend (sendCap s) m (clientAt s c) = Some c'"
    using trySend_safe unfolding channels_inv_def by blast
  with trySend_cases [OF t] inv have "length (cl_send c') \<le> sendCap s" "c' = clientAt s c\<lparr>cl_send := cl_send c'\<rparr>"
    by (auto simp: channels_inv_def)
  moreover from this(2) inv have "sendSafe c'"
    by (metis (no_types, lifting) Client.select_convs(6,7) Client.surjective Client.update_convs(5)
        channels_inv_def sendSafe_def)
  ultimately show ?thesis using inv t
    by (auto simp: channels_inv_def Send_def sendCap_def)
qed

lemma fold_keeps: "(\<And>x s. P s \<Longrightarrow> P (f x s)) \<Longrightarrow> P s \<Longrightarrow> P (fold f xs s)"
  by (induction xs arbitrary: s) simp_all

lemma channels_sendSystem: "channels_inv s \<Longrightarrow> channels_inv (sendSystem c m s)"
  by (simp add: sendSystem_def channels_Send)

lemma channels_modRoom [simp]: "channels_inv (modRoom r f s) = channels_inv s"
  by (simp add: channels_inv_def sendCap_def)

lemma channels_broadcast: "channels_inv s \<Longrightarrow> channels_inv (broadcastRoom r m st ex s)"
  by (auto simp: broadcastRoom_def Let_def intro!: fold_keeps [where P = channels_inv] channels_Send
      split: option.splits)

lemma channels_sendHistory: "channels_inv s \<Longrightarrow> channels_inv (sendHistory c r h s)"
  by (auto simp: sendHistory_def intro!: fold_keeps [where P = channels_inv] channels_Send)

lemmas channels_sending = channels_Send channels_sendSystem channels_broadcast channels_sendHistory

text \<open>So does the whole invariant under everything that only sends.\<close>

lemma chat_inv_channels: "chat_inv u s \<Longrightarrow> channels_inv s"
  by (simp add: chat_inv_def)

lemma chat_inv_core:
  assumes "core t = core s" "chat_inv u s" "channels_inv s \<Longrightarrow> channels_inv t"
  shows "chat_inv u t"
  using assms(2,3) by (simp add: chat_inv_def inv_core [OF assms(1)] core_projs [OF assms(1)])

lemma chat_inv_Send [inv_intros]: "chat_inv u s \<Longrightarrow> chat_inv u (Send c m s)"
  by (rule chat_inv_core [OF core_Send _ channels_Send])

lemma chat_inv_sendSystem [inv_intros]: "chat_inv u s \<Longrightarrow> chat_inv u (sendSystem c m s)"
  by (rule chat_inv_core [OF core_sendSystem _ channels_sendSystem])

lemma chat_inv_broadcast [inv_intros]: "chat_inv u s \<Longrightarrow> chat_inv u (broadcastRoom r m False ex s)"
  by (rule chat_inv_core [OF core_broadcast _ channels_broadcast])

lemma chat_inv_sendHistory [inv_intros]: "chat_inv u s \<Longrightarrow> chat_inv u (sendHistory c r h s)"
  by (rule chat_inv_core [OF core_sendHistory _ channels_sendHistory])

end
