(* ===== verification/Chat_Moves.thy ===== *)
theory Chat_Moves
  imports Chat_Core
begin

text \<open>
  Moving a client from room to room keeps the invariant: finding or making the room, the exchange of
  memberships, the clean-up of the room left behind.
\<close>

section \<open>Rooms\<close>

lemma rooms_invD:
  assumes "rooms_inv u s" "map_of (srv_rooms s) k = Some r"
  shows "room_ok u s k r"
    and "map_of (room_members (roomAt s r)) i = Some c \<longleftrightarrow>
         map_of (srv_clients s) i = Some c \<and> cl_roomKey (clientAt s c) = k"
  using assms by (auto simp: rooms_inv_def)

lemma rooms_inv_client:
  assumes "rooms_inv u s" "map_of (srv_clients s) i = Some c" "cl_roomKey (clientAt s c) \<noteq> []"
  obtains r where "map_of (srv_rooms s) (cl_roomKey (clientAt s c)) = Some r"
  using assms that unfolding rooms_inv_def by (metis not_None_eq)

lemma rooms_inv_inj:
  "rooms_inv u s \<Longrightarrow> map_of (srv_rooms s) k = Some r \<Longrightarrow> map_of (srv_rooms s) k' = Some r \<Longrightarrow> k = k'"
  by (metis room_ok_def rooms_invD(1))

text \<open>Changing what a room remembers, not who it is or who is in it.\<close>

lemma rooms_inv_modRoom:
  assumes "rooms_inv u s"
    and "room_key (f (roomAt s r)) = room_key (roomAt s r)"
      "room_name (f (roomAt s r)) = room_name (roomAt s r)"
      "room_members (f (roomAt s r)) = room_members (roomAt s r)"
      "room_historyLimit (f (roomAt s r)) = room_historyLimit (roomAt s r)"
    and "\<And>k. room_ok u s k r \<Longrightarrow> int (length (room_history (f (roomAt s r)))) \<le> HistoryLimit (cfg s)"
  shows "rooms_inv u (modRoom r f s)"
proof -
  have "room_ok u (modRoom r f s) k r'" if ok: "room_ok u s k r'" for k r'
  proof (cases "r' = r")
    case True
    then have "int (length (room_history (f (roomAt s r)))) \<le> HistoryLimit (cfg s)"
      using assms(6) ok by blast
    with True ok assms(2-5) show ?thesis by (auto simp: room_ok_def)
  qed (use ok in \<open>simp add: room_ok_def\<close>)
  moreover have "room_members (roomAt (modRoom r f s) r') = room_members (roomAt s r')" for r'
    using assms(4) by simp
  ultimately show ?thesis using assms(1) unfolding rooms_inv_def by simp
qed

lemma occupied_modRoom:
  "room_name (f (roomAt s r)) = room_name (roomAt s r) \<Longrightarrow>
   room_members (f (roomAt s r)) = room_members (roomAt s r) \<Longrightarrow>
   occupied u e (modRoom r f s) = occupied u e s"
  by (auto simp: occupied_def isLobby_def Room_Name_def)

lemma reg_inv_modRoom [simp]: "reg_inv u (modRoom r f s) = reg_inv u s"
  by (simp add: reg_inv_def registered_def)

lemma live_inv_modRoom [simp]: "live_inv (modRoom r f s) = live_inv s"
  by (simp add: live_inv_def)

lemma registered_modRoom [simp]: "registered (modRoom r f s) c = registered s c"
  by (simp add: registered_def)

lemma chat_inv_AppendHistory [inv_intros]:
  "chat_inv u s \<Longrightarrow> chat_inv u (modRoom r (AppendHistory e) s)"
  unfolding chat_inv_def
  by (auto intro!: rooms_inv_modRoom simp: occupied_modRoom room_ok_def)
    (metis AppendHistory_bound)

lemma chat_inv_SetTopic [inv_intros]:
  "chat_inv u s \<Longrightarrow> chat_inv u (modRoom r (\<lambda>_. snd (SetTopic t (roomAt s r))) s)"
  unfolding chat_inv_def
  by (auto intro!: rooms_inv_modRoom simp: occupied_modRoom room_ok_def)

lemma chat_inv_post [inv_intros]: "chat_inv u s \<Longrightarrow> chat_inv u (broadcastRoom r m st ex s)"
proof (cases st)
  case True
  assume inv: "chat_inv u s"
  show ?thesis
  proof (cases r)
    case (Some r')
    have "broadcastRoom (Some r') m True ex s =
        broadcastRoom (Some r') m False ex (modRoom r' (AppendHistory m) s)"
      by (simp add: broadcastRoom_def Let_def)
    with Some True inv show ?thesis by (simp add: inv_intros)
  qed (use inv in \<open>simp add: broadcastRoom_def\<close>)
qed (simp add: inv_intros)

section \<open>Moving a client to another room\<close>

lemma chat_invD:
  assumes "chat_inv u s"
  shows "config_ok (cfg s)" "reg_inv u s" "rooms_inv u s" "occupied u e s" "live_inv s" "channels_inv s"
  using assms by (auto simp: chat_inv_def occupied_def)

lemma registered_unique:
  "reg_inv u s \<Longrightarrow> map_of (srv_clients s) i = Some c \<Longrightarrow> registered s c \<and> cl_id (clientAt s c) = i"
  by (auto simp: reg_inv_def registered_def)

text \<open>\<open>findRoom\<close> returns a stored room; a new one is the only one that may be empty.\<close>

definition withRoom :: "string \<Rightarrow> Room \<Rightarrow> Server \<Rightarrow> Server" where
  "withRoom k new s = s\<lparr>srv_rooms := AList.update k (nextRoom s) (srv_rooms s),
     roomAt := (roomAt s)(nextRoom s := new), nextRoom := Suc (nextRoom s)\<rparr>"

lemma withRoom_projs [simp]:
  "cfg (withRoom k new s) = cfg s" "srv_clients (withRoom k new s) = srv_clients s"
  "srv_names (withRoom k new s) = srv_names s" "srv_nextID (withRoom k new s) = srv_nextID s"
  "clientAt (withRoom k new s) = clientAt s" "nextClient (withRoom k new s) = nextClient s"
  "crashed (withRoom k new s) = crashed s" "nextRoom (withRoom k new s) = Suc (nextRoom s)"
  "srv_rooms (withRoom k new s) = AList.update k (nextRoom s) (srv_rooms s)"
  "roomAt (withRoom k new s) r = (if r = nextRoom s then new else roomAt s r)"
  by (simp_all add: withRoom_def)

lemma rooms_inv_withRoom:
  assumes inv: "rooms_inv u s" and fresh: "map_of (srv_rooms s) k = None"
    and new: "room_key new = k" "k \<noteq> []" "normalizeRoomKey u (room_name new) = k"
      "room_members new = []" "room_historyLimit new = HistoryLimit (cfg s)" "room_history new = []"
    and limit: "0 \<le> HistoryLimit (cfg s)"
  shows "rooms_inv u (withRoom k new s)"
proof -
  let ?t = "withRoom k new s"
  have old: "r \<noteq> nextRoom s" if "map_of (srv_rooms s) k' = Some r" for k' r
    using rooms_invD(1) [OF inv that] by (auto simp: room_ok_def)
  have none: "cl_roomKey (clientAt s c) \<noteq> k" if "map_of (srv_clients s) i = Some c" for i c
    by (metis fresh inv new(2) option.distinct(1) rooms_inv_client that)
  have "room_ok u ?t k' r \<and> (\<forall>i c. map_of (room_members (roomAt ?t r)) i = Some c \<longleftrightarrow>
      map_of (srv_clients ?t) i = Some c \<and> cl_roomKey (clientAt ?t c) = k')"
    if "map_of (srv_rooms ?t) k' = Some r" for k' r
  proof (cases "k' = k")
    case True
    with that have "r = nextRoom s" by simp
    moreover have "\<not> (map_of (srv_clients s) i = Some c \<and> cl_roomKey (clientAt s c) = k)" for i c
      using none by blast
    ultimately show ?thesis using True new limit by (simp add: room_ok_def)
  next
    case False
    with that have "map_of (srv_rooms s) k' = Some r" by simp
    with rooms_invD [OF inv this] old [OF this] show ?thesis by (simp add: room_ok_def)
  qed
  moreover have "map_of (srv_rooms ?t) (cl_roomKey (clientAt ?t c)) \<noteq> None"
    if "map_of (srv_clients ?t) i = Some c" "cl_roomKey (clientAt ?t c) \<noteq> []" for i c
    using that inv by (auto simp: rooms_inv_def)
  moreover have "keys_distinct (srv_rooms ?t)"
    using inv by (simp add: rooms_inv_def)
  ultimately show ?thesis unfolding rooms_inv_def by blast
qed

lemma findRoom_cases:
  assumes inv: "chat_inv u s" and name: "trimSpace name = name" "name \<noteq> []"
    and found: "findRoom u name s = Some (s', r)"
  obtains "map_of (srv_rooms s) (normalizeRoomKey u name) = Some r" "s' = s"
  | new where "map_of (srv_rooms s) (normalizeRoomKey u name) = None" "r = nextRoom s"
      "s' = withRoom (normalizeRoomKey u name) new s" "newRoom u name (HistoryLimit (cfg s)) = Some new"
proof -
  have "normalizeRoomKey u name \<noteq> []" using name by (simp add: normalizeRoomKey_eq_Nil)
  with found that show thesis
    by (auto simp: findRoom_def Let_def withRoom_def split: option.splits)
qed

lemma findRoom_ok:
  assumes inv: "chat_inv u s" and name: "trimSpace name = name" "name \<noteq> []"
    and found: "findRoom u name s = Some (s', r)"
  shows "map_of (srv_rooms s') (normalizeRoomKey u name) = Some r
    \<and> rooms_inv u s' \<and> reg_inv u s' \<and> occupied u {r} s' \<and> live_inv s' \<and> channels_inv s'
    \<and> cfg s' = cfg s \<and> clientAt s' = clientAt s \<and> srv_clients s' = srv_clients s"
  using inv name found
proof (cases rule: findRoom_cases)
  case 1
  then show ?thesis using chat_invD [OF inv] by auto
next
  case (2 new)
  note n = newRoom_Some [OF 2(4)]
  have "rooms_inv u s'"
    unfolding 2(3) using chat_invD(3) [OF inv] 2(1) n name
    by (intro rooms_inv_withRoom) (auto simp: normalizeRoomKey_eq_Nil)
  moreover have "occupied u {r} s'"
    using chat_invD(4) [OF inv, of "{}"] unfolding 2 by (auto simp: occupied_def isLobby_def)
  moreover have "reg_inv u s'" "live_inv s'" "channels_inv s'"
    using chat_invD [OF inv] unfolding 2
    by (auto simp: reg_inv_def registered_def live_inv_def channels_inv_def sendCap_def)
  ultimately show ?thesis unfolding 2 by simp
qed

lemma findRoom_total:
  assumes "chat_inv u s"
  shows "\<exists>s' r. findRoom u name s = Some (s', r)"
proof -
  have "0 \<le> HistoryLimit (cfg s)" using assms by (simp add: chat_inv_def config_ok_def)
  from newRoom_total [OF this] obtain new where "newRoom u name (HistoryLimit (cfg s)) = Some new"
    by blast
  then show ?thesis
    by (cases "map_of (srv_rooms s) (if normalizeRoomKey u name = []
          then normalizeRoomKey u (LobbyName (cfg s)) else normalizeRoomKey u name)")
      (simp_all add: findRoom_def Let_def)
qed

lemma switchRoom_unfold:
  assumes sw: "switchRoom c r s = (s', previous)"
  shows "previous = (if cl_roomKey (clientAt s c) = [] then None
           else map_of (srv_rooms s) (cl_roomKey (clientAt s c)))"
    and "cfg s' = cfg s" "srv_rooms s' = srv_rooms s" "srv_clients s' = srv_clients s"
    "srv_names s' = srv_names s" "srv_nextID s' = srv_nextID s" "nextRoom s' = nextRoom s"
    "nextClient s' = nextClient s" "crashed s' = crashed s"
    and "roomAt s' r' =
      (let room = (if previous = Some r' then RemoveMember (cl_id (clientAt s c)) (roomAt s r') else roomAt s r')
       in if r' = r then AddMember (cl_id (clientAt s c)) c room else room)"
    and "clientAt s' d =
      (if d = c then (clientAt s c)\<lparr>cl_roomKey := room_key (roomAt s r), cl_roomDisplay := room_name (roomAt s r)\<rparr>
       else clientAt s d)"
proof -
  show prev: "previous = (if cl_roomKey (clientAt s c) = [] then None
           else map_of (srv_rooms s) (cl_roomKey (clientAt s c)))"
    using sw by (simp add: switchRoom_def Let_def RoomKey_def)
  define s1 where "s1 = modRoom r (AddMember (cl_id (clientAt s c)) c)
      (case previous of None \<Rightarrow> s | Some p \<Rightarrow> modRoom p (RemoveMember (cl_id (clientAt s c))) s)"
  have s': "s' = modClient c (setRoom (roomAt s1 r)) s1"
    using sw unfolding s1_def prev by (simp add: switchRoom_def Let_def RoomKey_def)
  have s1: "cfg s1 = cfg s" "srv_rooms s1 = srv_rooms s" "srv_clients s1 = srv_clients s"
    "srv_names s1 = srv_names s" "srv_nextID s1 = srv_nextID s" "nextRoom s1 = nextRoom s"
    "nextClient s1 = nextClient s" "crashed s1 = crashed s" "clientAt s1 = clientAt s"
    "room_key (roomAt s1 r) = room_key (roomAt s r)" "room_name (roomAt s1 r) = room_name (roomAt s r)"
    "roomAt s1 r' =
      (let room = (if previous = Some r' then RemoveMember (cl_id (clientAt s c)) (roomAt s r') else roomAt s r')
       in if r' = r then AddMember (cl_id (clientAt s c)) c room else room)"
    by (cases previous; simp add: s1_def)+
  show "cfg s' = cfg s" "srv_rooms s' = srv_rooms s" "srv_clients s' = srv_clients s"
    "srv_names s' = srv_names s" "srv_nextID s' = srv_nextID s" "nextRoom s' = nextRoom s"
    "nextClient s' = nextClient s" "crashed s' = crashed s"
    "roomAt s' r' =
      (let room = (if previous = Some r' then RemoveMember (cl_id (clientAt s c)) (roomAt s r') else roomAt s r')
       in if r' = r then AddMember (cl_id (clientAt s c)) c room else room)"
    unfolding s' by (simp_all only: modClient_projs s1)
  show "clientAt s' d =
      (if d = c then (clientAt s c)\<lparr>cl_roomKey := room_key (roomAt s r), cl_roomDisplay := room_name (roomAt s r)\<rparr>
       else clientAt s d)"
    unfolding s' by (simp add: s1 setRoom_def Room_Key_def Room_Name_def)
qed

lemma switchRoom_rooms:
  assumes rooms: "rooms_inv u s" and reg: "reg_inv u s" and c: "registered s c"
    and room: "map_of (srv_rooms s) k = Some r" and new: "cl_roomKey (clientAt s c) \<noteq> k"
    and sw: "switchRoom c r s = (s', previous)"
  shows "rooms_inv u s'"
proof -
  note un = switchRoom_unfold [OF sw]
  let ?i = "cl_id (clientAt s c)" and ?k0 = "cl_roomKey (clientAt s c)"
  have ci: "map_of (srv_clients s) ?i = Some c" using c by (simp add: registered_def)
  have rk: "room_key (roomAt s r) = k" "k \<noteq> []"
    using rooms_invD(1) [OF rooms room] by (simp_all add: room_ok_def)
  have idc: "map_of (srv_clients s) i = Some d \<Longrightarrow> (i = ?i) = (d = c)" for i d
    using registered_unique [OF reg] ci by (metis option.inject)
  have prev: "previous = Some p \<longleftrightarrow> k' = ?k0" if "map_of (srv_rooms s) k' = Some p" for k' p
  proof -
    have "k' \<noteq> []" using rooms_invD(1) [OF rooms that] by (simp add: room_ok_def)
    with that un(1) show ?thesis using rooms_inv_inj [OF rooms that, of ?k0]
      by (cases "?k0 = []") auto
  qed
  have ok: "room_ok u s' k' r'" if "map_of (srv_rooms s) k' = Some r'" for k' r'
    using rooms_invD(1) [OF rooms that] unfolding room_ok_def un(2) un(7) un(10) Let_def
    by (cases "r' = r") simp_all
  have mem: "map_of (room_members (roomAt s' r')) i = Some d \<longleftrightarrow>
      map_of (srv_clients s) i = Some d \<and> cl_roomKey (clientAt s' d) = k'"
    if r': "map_of (srv_rooms s) k' = Some r'" for k' r' i d
  proof -
    note old = rooms_invD(2) [OF rooms r', of i d]
    have kk: "r' = r \<longleftrightarrow> k' = k" using r' room rooms_inv_inj [OF rooms r', of k] by auto
    show ?thesis
    proof (cases "i = ?i")
      case True
      have "map_of (room_members (roomAt s' r')) i = Some d \<longleftrightarrow> d = c \<and> k' = k"
        using True old new kk prev [OF r'] ci unfolding un(10) Let_def by auto
      moreover have "(map_of (srv_clients s) i = Some d \<and> cl_roomKey (clientAt s' d) = k') \<longleftrightarrow> d = c \<and> k' = k"
        using True ci rk unfolding un(11) by auto
      ultimately show ?thesis by simp
    next
      case False
      then have "map_of (room_members (roomAt s' r')) i = map_of (room_members (roomAt s r')) i"
        unfolding un(10) Let_def by simp
      moreover have "map_of (srv_clients s) i = Some d \<Longrightarrow> d \<noteq> c" using idc False by blast
      ultimately show ?thesis using old unfolding un(11) by auto
    qed
  qed
  have "map_of (srv_rooms s) (cl_roomKey (clientAt s' d)) \<noteq> None"
    if "map_of (srv_clients s) i = Some d" "cl_roomKey (clientAt s' d) \<noteq> []" for i d
    using that rooms room rk unfolding un(11) rooms_inv_def by auto
  with ok mem show ?thesis
    using rooms unfolding rooms_inv_def un(3,4) by blast
qed

lemma switchRoom_rest:
  assumes reg: "reg_inv u s" and c: "registered s c" and sw: "switchRoom c r s = (s', previous)"
  shows "reg_inv u s'" "registered s' d = registered s d"
    "live_inv s \<Longrightarrow> live_inv s'" "channels_inv s \<Longrightarrow> channels_inv s'"
    "occupied u {r} s \<Longrightarrow> occupied u (set_option previous - {r}) s'"
proof -
  note un = switchRoom_unfold [OF sw]
  have same: "cl_id (clientAt s' d) = cl_id (clientAt s d)" "cl_name (clientAt s' d) = cl_name (clientAt s d)"
    "cl_once (clientAt s' d) = cl_once (clientAt s d)" "cl_done (clientAt s' d) = cl_done (clientAt s d)"
    "cl_sendClosed (clientAt s' d) = cl_sendClosed (clientAt s d)" "cl_send (clientAt s' d) = cl_send (clientAt s d)" for d
    unfolding un(11) by simp_all
  show regd: "registered s' d = registered s d" for d
    unfolding registered_def un(4) same ..
  show "reg_inv u s'"
    using reg unfolding reg_inv_def regd un(2-9) same .
  show "live_inv s \<Longrightarrow> live_inv s'"
    unfolding live_inv_def openClient_def un(2-9) same .
  show "channels_inv s \<Longrightarrow> channels_inv s'"
    unfolding channels_inv_def sendSafe_def sendCap_def un(2-9) same .
  show "occupied u (set_option previous - {r}) s'" if "occupied u {r} s"
  proof -
    have "room_members (roomAt s' r') \<noteq> [] \<or> isLobby u s' (roomAt s' r')"
      if "map_of (srv_rooms s) k = Some r'" "r' \<notin> set_option previous - {r}" for k r'
    proof (cases "r' = r")
      case True
      then show ?thesis unfolding un(10) Let_def by simp
    next
      case False
      with that(2) have "previous \<noteq> Some r'" by auto
      with False have "roomAt s' r' = roomAt s r'" unfolding un(10) Let_def by simp
      with False that(1) \<open>occupied u {r} s\<close> show ?thesis
        unfolding occupied_def isLobby_def un(2) by auto
    qed
    then show ?thesis unfolding occupied_def un(3) by blast
  qed
qed

text \<open>Deleting the entry of an empty room.\<close>

definition dropRoom :: "string \<Rightarrow> Server \<Rightarrow> Server" where
  "dropRoom k s = s\<lparr>srv_rooms := AList.delete k (srv_rooms s)\<rparr>"

lemma dropRoom_projs [simp]:
  "cfg (dropRoom k s) = cfg s" "srv_clients (dropRoom k s) = srv_clients s"
  "srv_names (dropRoom k s) = srv_names s" "srv_nextID (dropRoom k s) = srv_nextID s"
  "clientAt (dropRoom k s) = clientAt s" "nextClient (dropRoom k s) = nextClient s"
  "roomAt (dropRoom k s) = roomAt s" "nextRoom (dropRoom k s) = nextRoom s"
  "crashed (dropRoom k s) = crashed s" "srv_rooms (dropRoom k s) = AList.delete k (srv_rooms s)"
  by (simp_all add: dropRoom_def)

lemma rooms_inv_dropRoom:
  assumes rooms: "rooms_inv u s" and k: "map_of (srv_rooms s) k = Some r"
    and empty: "room_members (roomAt s r) = []"
  shows "rooms_inv u (dropRoom k s)"
proof -
  have none: "cl_roomKey (clientAt s c) \<noteq> k" if "map_of (srv_clients s) i = Some c" for i c
    using rooms_invD(2) [OF rooms k, of i c] empty that by simp
  have "room_ok u (dropRoom k s) k' r'" if "room_ok u s k' r'" for k' r'
    using that by (simp add: room_ok_def)
  with rooms none show ?thesis unfolding rooms_inv_def by simp
qed

lemma occupied_dropRoom:
  assumes rooms: "rooms_inv u s" and k: "map_of (srv_rooms s) k = Some r" and occ: "occupied u {r} s"
  shows "occupied u {} (dropRoom k s)"
proof -
  have "r' \<noteq> r" if "map_of (srv_rooms s) k' = Some r'" "k' \<noteq> k" for k' r'
    using that k rooms_inv_inj [OF rooms] by blast
  with occ show ?thesis unfolding occupied_def isLobby_def by simp
qed

lemma cleanupRoom_inv:
  assumes rooms: "rooms_inv u s" and occ: "occupied u (set_option room) s"
    and known: "\<And>r. room = Some r \<Longrightarrow> \<exists>k. map_of (srv_rooms s) k = Some r"
  shows "rooms_inv u (cleanupRoom u room s) \<and> occupied u {} (cleanupRoom u room s)"
proof (cases room)
  case None
  with rooms occ show ?thesis by (simp add: cleanupRoom_def)
next
  case (Some r)
  obtain k where k: "map_of (srv_rooms s) k = Some r" using known [OF Some] by blast
  show ?thesis
  proof (cases "isLobby u s (roomAt s r) \<or> room_members (roomAt s r) \<noteq> []")
    case True
    then have "cleanupRoom u room s = s" using Some by (auto simp: cleanupRoom_def)
    moreover have "occupied u {} s" using True occ Some by (auto simp: occupied_def)
    ultimately show ?thesis using rooms by simp
  next
    case False
    have "room_key (roomAt s r) = k" using rooms_invD(1) [OF rooms k] by (simp add: room_ok_def)
    with False Some have t: "cleanupRoom u room s = dropRoom k s"
      by (simp add: cleanupRoom_def dropRoom_def Room_Key_def)
    show ?thesis unfolding t using rooms_inv_dropRoom [OF rooms k] occupied_dropRoom [OF rooms k] occ Some False
      by simp
  qed
qed

lemma cleanupRoom_projs [simp]:
  "cfg (cleanupRoom u r s) = cfg s" "srv_clients (cleanupRoom u r s) = srv_clients s"
  "srv_names (cleanupRoom u r s) = srv_names s" "srv_nextID (cleanupRoom u r s) = srv_nextID s"
  "clientAt (cleanupRoom u r s) = clientAt s" "nextClient (cleanupRoom u r s) = nextClient s"
  "crashed (cleanupRoom u r s) = crashed s" "roomAt (cleanupRoom u r s) = roomAt s"
  by (simp_all add: cleanupRoom_def split: option.splits)

lemma moveClientRoom_inv:
  assumes inv: "chat_inv u s" and c: "registered s c" and name: "trimSpace name = name" "name \<noteq> []"
  obtains (already) r where "moveClientRoom u c name s = Some (s, r, Some r, True)"
      "map_of (srv_rooms s) (normalizeRoomKey u name) = Some r"
      "cl_roomKey (clientAt s c) = normalizeRoomKey u name"
  | (moved) s1 s' r prev where "moveClientRoom u c name s = Some (s', r, prev, False)"
      "findRoom u name s = Some (s1, r)" "switchRoom c r s1 = (s', prev)"
      "map_of (srv_rooms s1) (normalizeRoomKey u name) = Some r"
      "cl_roomKey (clientAt s c) \<noteq> normalizeRoomKey u name"
proof -
  obtain s1 r where f: "findRoom u name s = Some (s1, r)" using findRoom_total [OF inv] by blast
  note ok = findRoom_ok [OF inv name f]
  obtain s' prev where sw: "switchRoom c r s1 = (s', prev)" by (metis surj_pair)
  have key: "room_key (roomAt s1 r) = normalizeRoomKey u name" "normalizeRoomKey u name \<noteq> []"
    using ok rooms_invD(1) [of u s1 "normalizeRoomKey u name" r] by (auto simp: room_ok_def)
  show thesis
  proof (cases "cl_roomKey (clientAt s c) = normalizeRoomKey u name")
    case True
    have ci: "map_of (srv_clients s) (cl_id (clientAt s c)) = Some c"
      using c by (simp add: registered_def)
    obtain r' where "map_of (srv_rooms s) (normalizeRoomKey u name) = Some r'"
      using rooms_inv_client [OF chat_invD(3) [OF inv] ci] True key(2) by metis
    from inv name f this have "s1 = s" "r = r'"
      by (cases rule: findRoom_cases; simp)+
    with already [of r] True \<open>map_of (srv_rooms s) _ = Some r'\<close> f key(1) ok show ?thesis
      by (simp add: moveClientRoom_def RoomKey_def Room_Key_def)
  next
    case False
    with moved [OF _ f sw] f sw key ok show ?thesis
      by (simp add: moveClientRoom_def RoomKey_def Room_Key_def)
  qed
qed

lemma core_joinNotices [simp]: "core (joinNotices c r a s) = core s"
  by (simp add: joinNotices_def Let_def)

lemma channels_joinNotices: "channels_inv s \<Longrightarrow> channels_inv (joinNotices c r a s)"
  by (simp add: joinNotices_def Let_def channels_sending)

lemmas joinNotices_projs [simp] = core_projs [OF core_joinNotices]
lemmas inv_joinNotices [simp] = inv_core [OF core_joinNotices]

lemma leavePrevious_inv:
  assumes "rooms_inv u s" "occupied u (set_option prev - {r}) s"
    and "\<And>p. prev = Some p \<Longrightarrow> \<exists>k. map_of (srv_rooms s) k = Some p"
  shows "rooms_inv u (leavePrevious u c r prev s) \<and> occupied u {} (leavePrevious u c r prev s)"
proof (cases "prev \<noteq> None \<and> prev \<noteq> Some r")
  case True
  let ?t = "broadcastRoom prev (nick s c @ '' left the room'') False (Some c) s"
  have "set_option prev - {r} = set_option prev" using True by auto
  with assms have "rooms_inv u (cleanupRoom u prev ?t) \<and> occupied u {} (cleanupRoom u prev ?t)"
    by (intro cleanupRoom_inv) auto
  with True show ?thesis by (simp add: leavePrevious_def)
next
  case False
  then have "set_option prev - {r} = {}" by auto
  with False assms show ?thesis by (auto simp: leavePrevious_def)
qed

lemma leavePrevious_projs [simp]:
  "cfg (leavePrevious u c r p s) = cfg s" "srv_clients (leavePrevious u c r p s) = srv_clients s"
  "srv_names (leavePrevious u c r p s) = srv_names s" "srv_nextID (leavePrevious u c r p s) = srv_nextID s"
  "nextClient (leavePrevious u c r p s) = nextClient s" "roomAt (leavePrevious u c r p s) = roomAt s"
  "cl_id (clientAt (leavePrevious u c r p s) d) = cl_id (clientAt s d)"
  "cl_name (clientAt (leavePrevious u c r p s) d) = cl_name (clientAt s d)"
  "cl_roomKey (clientAt (leavePrevious u c r p s) d) = cl_roomKey (clientAt s d)"
  "cl_done (clientAt (leavePrevious u c r p s) d) = cl_done (clientAt s d)"
  "cl_sendClosed (clientAt (leavePrevious u c r p s) d) = cl_sendClosed (clientAt s d)"
  "cl_once (clientAt (leavePrevious u c r p s) d) = cl_once (clientAt s d)"
  by (simp_all add: leavePrevious_def)

lemma channels_cong:
  "clientAt t = clientAt s \<Longrightarrow> cfg t = cfg s \<Longrightarrow> crashed t = crashed s \<Longrightarrow> channels_inv t = channels_inv s"
  by (simp add: channels_inv_def sendCap_def)

lemma channels_leavePrevious: "channels_inv s \<Longrightarrow> channels_inv (leavePrevious u c r p s)"
  using channels_broadcast [of s] by (simp add: leavePrevious_def channels_cong [OF cleanupRoom_projs(5,1,7)])

lemma reg_live_leavePrevious [simp]:
  "registered (leavePrevious u c r p s) d = registered s d"
  "reg_inv u (leavePrevious u c r p s) = reg_inv u s"
  "live_inv (leavePrevious u c r p s) = live_inv s"
  by (simp_all add: registered_def reg_inv_def live_inv_def openClient_def)

lemma joinRoom_inv:
  assumes inv: "chat_inv u s" and c: "registered s c"
  shows "chat_inv u (joinRoom u c desired a s) \<and> (\<forall>d. registered (joinRoom u c desired a s) d = registered s d)"
proof -
  define name where "name = (if trimSpace desired = [] then LobbyName (cfg s) else desired)"
  show ?thesis
  proof (cases "sanitizeRoomName u name")
    case (Inl e)
    then show ?thesis using inv by (simp add: joinRoom_def name_def Let_def inv_intros)
  next
    case (Inr v)
    note v = sanitizeRoomName_trimmed [OF Inr] sanitizeRoomName_nonempty [OF Inr]
    from inv c v show ?thesis
    proof (cases rule: moveClientRoom_inv)
      case (already r)
      with Inr inv show ?thesis by (simp add: joinRoom_def name_def Let_def inv_intros)
    next
      case (moved s1 s' r prev)
      note ok = findRoom_ok [OF inv v moved(2)]
      have c1: "registered s1 d = registered s d" for d using ok by (simp add: registered_def)
      have c2: "cl_roomKey (clientAt s1 c) \<noteq> normalizeRoomKey u v" using moved(5) ok by simp
      note un = switchRoom_unfold [OF moved(3)]
      have rooms: "rooms_inv u s'"
        using switchRoom_rooms [OF _ _ _ moved(4) c2 moved(3)] ok c c1 by simp
      have "reg_inv u s1" "registered s1 c" using ok c c1 by simp_all
      note rest = switchRoom_rest [OF this moved(3)]
      have known: "\<exists>k. map_of (srv_rooms s') k = Some p" if "prev = Some p" for p
        using un(1,3) that by (auto split: if_splits)
      let ?t = "joinNotices c r a s'"
      have eq: "joinRoom u c desired a s = leavePrevious u c r prev ?t"
        using Inr moved(1) by (simp add: joinRoom_def name_def Let_def)
      have "rooms_inv u (leavePrevious u c r prev ?t) \<and> occupied u {} (leavePrevious u c r prev ?t)"
        using rooms rest ok known by (intro leavePrevious_inv) auto
      then show ?thesis
        unfolding eq chat_inv_def using rest ok c1 un(2) chat_invD(1) [OF inv]
        by (simp add: channels_leavePrevious channels_joinNotices)
    qed
  qed
qed

end
