(* ===== verification/Chat_Sessions.thy ===== *)
theory Chat_Sessions
  imports Chat_Moves
begin

text \<open>
  Leaving the server, changing nicks and every other command keep the invariant.
\<close>

section \<open>Leaving the server\<close>

text \<open>Changes to a client that keep its id, nick, room and liveness.\<close>

lemma inv_modClient:
  assumes "\<And>x. cl_id (f x) = cl_id x" "\<And>x. cl_name (f x) = cl_name x" "\<And>x. cl_roomKey (f x) = cl_roomKey x"
  shows "registered (modClient c f s) d = registered s d" "reg_inv u (modClient c f s) = reg_inv u s"
    "rooms_inv u (modClient c f s) = rooms_inv u s" "occupied u e (modClient c f s) = occupied u e s"
proof -
  have same: "cl_id (clientAt (modClient c f s) d) = cl_id (clientAt s d)"
    "cl_name (clientAt (modClient c f s) d) = cl_name (clientAt s d)"
    "cl_roomKey (clientAt (modClient c f s) d) = cl_roomKey (clientAt s d)" for d
    by (simp_all add: assms)
  show reg: "registered (modClient c f s) d = registered s d" for d
    unfolding registered_def same by simp
  show "reg_inv u (modClient c f s) = reg_inv u s"
    unfolding reg_inv_def same reg by simp
  show "rooms_inv u (modClient c f s) = rooms_inv u s"
    unfolding rooms_inv_def room_ok_def same by simp
  show "occupied u e (modClient c f s) = occupied u e s"
    by (simp add: occupied_def isLobby_def)
qed

lemmas inv_closeClient [simp] = inv_modClient [OF client_update_simps(16-18)]

lemma reg_invI:
  assumes "keys_distinct (srv_clients s)" "keys_distinct (srv_names s)"
    and "\<And>i c. map_of (srv_clients s) i = Some c \<Longrightarrow> cl_id (clientAt s c) = i \<and> c < nextClient s
      \<and> (\<exists>n\<le>unat (srv_nextID s). i = ''client-'' @ itoa n)
      \<and> map_of (srv_names s) (toLower u (cl_name (clientAt s c))) = Some c"
    and "\<And>k c. map_of (srv_names s) k = Some c \<Longrightarrow>
      registered s c \<and> k = toLower u (cl_name (clientAt s c))"
  shows "reg_inv u s"
  unfolding reg_inv_def using assms by blast

lemma reg_invD:
  assumes "reg_inv u s"
  shows "map_of (srv_clients s) i = Some c \<Longrightarrow> cl_id (clientAt s c) = i"
    "map_of (srv_clients s) i = Some c \<Longrightarrow> c < nextClient s"
    "map_of (srv_clients s) i = Some c \<Longrightarrow> \<exists>n\<le>unat (srv_nextID s). i = ''client-'' @ itoa n"
    "map_of (srv_clients s) i = Some c \<Longrightarrow>
      map_of (srv_names s) (toLower u (cl_name (clientAt s c))) = Some c"
    "map_of (srv_names s) k = Some c \<Longrightarrow> registered s c"
    "map_of (srv_names s) k = Some c \<Longrightarrow> k = toLower u (cl_name (clientAt s c))"
  using assms unfolding reg_inv_def by blast+

lemma forget_projs [simp]:
  "cfg (forget u c s) = cfg s" "srv_rooms (forget u c s) = srv_rooms s"
  "srv_clients (forget u c s) = AList.delete (cl_id (clientAt s c)) (srv_clients s)"
  "srv_names (forget u c s) = AList.delete (toLower u (cl_name (clientAt s c))) (srv_names s)"
  "srv_nextID (forget u c s) = srv_nextID s" "roomAt (forget u c s) = roomAt s"
  "clientAt (forget u c s) = clientAt s" "nextRoom (forget u c s) = nextRoom s"
  "nextClient (forget u c s) = nextClient s" "crashed (forget u c s) = crashed s"
  by (simp_all add: forget_def)

lemma reg_forget:
  assumes reg: "reg_inv u s" and c: "registered s c"
  shows "reg_inv u (forget u c s)" "registered (forget u c s) d \<longleftrightarrow> registered s d \<and> d \<noteq> c"
proof -
  have ci: "map_of (srv_clients s) (cl_id (clientAt s c)) = Some c" using c by (simp add: registered_def)
  have cn: "map_of (srv_names s) (toLower u (cl_name (clientAt s c))) = Some c"
    using reg ci unfolding reg_inv_def by blast
  show regd: "registered (forget u c s) d \<longleftrightarrow> registered s d \<and> d \<noteq> c" for d
    using ci by (auto simp: registered_def)
  show "reg_inv u (forget u c s)"
  proof (rule reg_invI)
    fix i d
    assume "map_of (srv_clients (forget u c s)) i = Some d"
    then have i: "i \<noteq> cl_id (clientAt s c)" "map_of (srv_clients s) i = Some d"
      by (auto split: if_splits)
    note old = reg_invD(1-4) [OF reg i(2)]
    have "toLower u (cl_name (clientAt s d)) \<noteq> toLower u (cl_name (clientAt s c))"
      using old(1,4) cn i(1) by (metis option.inject)
    with old show "cl_id (clientAt (forget u c s) d) = i \<and> d < nextClient (forget u c s)
      \<and> (\<exists>n\<le>unat (srv_nextID (forget u c s)). i = ''client-'' @ itoa n)
      \<and> map_of (srv_names (forget u c s)) (toLower u (cl_name (clientAt (forget u c s) d))) = Some d"
      by simp
  next
    fix k d
    assume "map_of (srv_names (forget u c s)) k = Some d"
    then have k: "k \<noteq> toLower u (cl_name (clientAt s c))" "map_of (srv_names s) k = Some d"
      by (auto split: if_splits)
    from reg_invD(5,6) [OF reg k(2)] k(1) show
      "registered (forget u c s) d \<and> k = toLower u (cl_name (clientAt (forget u c s) d))"
      unfolding regd by auto
  qed (use reg in \<open>simp_all add: reg_inv_def\<close>)
qed

lemma rooms_forget:
  assumes rooms: "rooms_inv u s" and reg: "reg_inv u s" and c: "registered s c"
    and r: "map_of (srv_rooms s) (cl_roomKey (clientAt s c)) = Some r"
  shows "rooms_inv u (modRoom r (RemoveMember (cl_id (clientAt s c))) (forget u c s))"
proof -
  let ?i = "cl_id (clientAt s c)" and ?k = "cl_roomKey (clientAt s c)"
  let ?t = "modRoom r (RemoveMember ?i) (forget u c s)"
  have ci: "map_of (srv_clients s) ?i = Some c" using c by (simp add: registered_def)
  have ok: "room_ok u ?t k' r'" if "room_ok u s k' r'" for k' r'
    using that by (cases "r' = r") (simp_all add: room_ok_def)
  have mem: "map_of (room_members (roomAt ?t r')) i = Some d \<longleftrightarrow>
      map_of (srv_clients ?t) i = Some d \<and> cl_roomKey (clientAt ?t d) = k'"
    if r': "map_of (srv_rooms s) k' = Some r'" for k' r' i d
  proof -
    note old = rooms_invD(2) [OF rooms r', of i d]
    have kk: "r' = r \<longleftrightarrow> k' = ?k" using r r' rooms_inv_inj [OF rooms r', of ?k] by auto
    show ?thesis using old kk ci by (cases "i = ?i") auto
  qed
  show ?thesis using rooms ok mem unfolding rooms_inv_def by simp
qed

lemma rooms_forget_none:
  assumes rooms: "rooms_inv u s" and reg: "reg_inv u s" and c: "registered s c"
    and none: "cl_roomKey (clientAt s c) = []"
  shows "rooms_inv u (forget u c s)"
proof -
  let ?i = "cl_id (clientAt s c)"
  have ci: "map_of (srv_clients s) ?i = Some c" using c by (simp add: registered_def)
  have ok: "room_ok u (forget u c s) k' r'" if "room_ok u s k' r'" for k' r'
    using that by (simp add: room_ok_def)
  have mem: "map_of (room_members (roomAt s r')) i = Some d \<longleftrightarrow>
      map_of (srv_clients (forget u c s)) i = Some d \<and> cl_roomKey (clientAt s d) = k'"
    if r': "map_of (srv_rooms s) k' = Some r'" for k' r' i d
  proof -
    have "k' \<noteq> []" using rooms_invD(1) [OF rooms r'] by (simp add: room_ok_def)
    then show ?thesis using rooms_invD(2) [OF rooms r', of i d] none ci by (cases "i = ?i") auto
  qed
  show ?thesis using rooms ok mem unfolding rooms_inv_def by simp
qed

text \<open>\<open>unregister\<close> leaves the other clients, and no empty room but the lobby.\<close>

lemma unregister_inv:
  assumes rooms: "rooms_inv u s" and reg: "reg_inv u s" and occ: "occupied u {} s" and c: "registered s c"
    and un: "unregister u c s = (s', room)"
  shows "rooms_inv u s' \<and> reg_inv u s' \<and> occupied u {} s' \<and> cfg s' = cfg s \<and> clientAt s' = clientAt s
    \<and> srv_clients s' = AList.delete (cl_id (clientAt s c)) (srv_clients s) \<and> crashed s' = crashed s
    \<and> (\<forall>d. registered s' d = (registered s d \<and> d \<noteq> c))"
proof (cases "cl_roomKey (clientAt s c) = []")
  case True
  then have "s' = forget u c s"
    using un by (simp add: unregister_def Let_def RoomKey_def)
  then show ?thesis
    using rooms_forget_none [OF rooms reg c True] reg_forget [OF reg c] occ
    by (simp add: occupied_def isLobby_def)
next
  case False
  let ?k = "cl_roomKey (clientAt s c)"
  have ci: "map_of (srv_clients s) (cl_id (clientAt s c)) = Some c" using c by (simp add: registered_def)
  obtain r where r: "map_of (srv_rooms s) ?k = Some r"
    using rooms_inv_client [OF rooms ci False] by blast
  define t where "t = modRoom r (RemoveMember (cl_id (clientAt s c))) (forget u c s)"
  have s': "s' = (if room_members (roomAt t r) = [] \<and> \<not> isLobby u t (roomAt t r) then dropRoom ?k t else t)"
    using un False r by (auto simp: unregister_def Let_def RoomKey_def t_def dropRoom_def split: if_splits)
  have rt: "rooms_inv u t" unfolding t_def by (rule rooms_forget [OF rooms reg c r])
  have occ_t: "occupied u {r} t" using occ unfolding t_def occupied_def isLobby_def by simp
  have kt: "map_of (srv_rooms t) ?k = Some r" using r by (simp add: t_def)
  have "rooms_inv u s' \<and> occupied u {} s'"
  proof (cases "room_members (roomAt t r) = [] \<and> \<not> isLobby u t (roomAt t r)")
    case True
    then show ?thesis using s' rooms_inv_dropRoom [OF rt kt] occupied_dropRoom [OF rt kt occ_t] by simp
  next
    case False
    with s' have "s' = t" by simp
    moreover have "occupied u {} t" using False occ_t unfolding occupied_def by blast
    ultimately show ?thesis using rt by simp
  qed
  moreover have "reg_inv u t" "\<And>d. registered t d = (registered s d \<and> d \<noteq> c)"
    using reg_forget [OF reg c] by (simp_all add: t_def)
  then have "reg_inv u s'" "\<And>d. registered s' d = (registered s d \<and> d \<noteq> c)"
    unfolding s' by (simp_all add: reg_inv_def registered_def)
  ultimately show ?thesis unfolding s' by (simp add: t_def)
qed

lemma shutdown_inv:
  assumes inv: "chat_inv u s" and c: "registered s c"
  shows "chat_inv u (shutdown u c reason s)
    \<and> (\<forall>d. registered (shutdown u c reason s) d = (registered s d \<and> d \<noteq> c))"
proof -
  let ?t = "modClient c closeClient s"
  have once: "\<not> cl_once (clientAt s c)"
    using chat_invD(5) [OF inv] c unfolding live_inv_def registered_def by blast
  obtain s' room where un: "unregister u c ?t = (s', room)" by (metis surj_pair)
  have occ: "occupied u {} ?t" using chat_invD(4) [OF inv] by simp
  have "rooms_inv u ?t" "reg_inv u ?t" "registered ?t c" using chat_invD [OF inv] c by simp_all
  note un' = unregister_inv [OF this(1,2) occ this(3) un]
  have eq: "shutdown u c reason s = broadcastRoom room (nick s' c @ '' left ('' @ reason @ '')'') False (Some c) s'"
    using once un by (simp add: shutdown_def removeClient_def)
  have "live_inv s'"
    unfolding live_inv_def
  proof (intro allI impI)
    fix i d
    assume "map_of (srv_clients s') i = Some d"
    then have i: "i \<noteq> cl_id (clientAt s c)" "map_of (srv_clients s) i = Some d"
      using un' by (auto split: if_splits)
    moreover from i reg_invD(1) [OF chat_invD(2) [OF inv]] have "d \<noteq> c" by blast
    ultimately show "openClient (clientAt s' d) \<and> \<not> cl_once (clientAt s' d)"
      using chat_invD(5) [OF inv] un' unfolding live_inv_def by simp
  qed
  moreover have "channels_inv s'"
    using chat_invD(6) [OF inv] un' unfolding channels_inv_def by (simp add: sendCap_def sendSafe_def)
  ultimately show ?thesis
    unfolding eq chat_inv_def using un' chat_invD(1) [OF inv] c
    by (simp add: channels_broadcast)
qed

section \<open>Changing nicks\<close>

definition renamed :: "unicode \<Rightarrow> cref \<Rightarrow> string \<Rightarrow> Server \<Rightarrow> Server" where
  "renamed u c name s = modClient c (setName name) (s\<lparr>srv_names := AList.update (toLower u name) c
     (AList.delete (toLower u (cl_name (clientAt s c))) (srv_names s))\<rparr>)"

lemma renamed_projs [simp]:
  "cfg (renamed u c n s) = cfg s" "srv_rooms (renamed u c n s) = srv_rooms s"
  "srv_clients (renamed u c n s) = srv_clients s" "roomAt (renamed u c n s) = roomAt s"
  "srv_names (renamed u c n s) = AList.update (toLower u n) c (AList.delete (toLower u (cl_name (clientAt s c))) (srv_names s))"
  "nextRoom (renamed u c n s) = nextRoom s" "nextClient (renamed u c n s) = nextClient s"
  "srv_nextID (renamed u c n s) = srv_nextID s" "crashed (renamed u c n s) = crashed s"
  "clientAt (renamed u c n s) d = (if d = c then setName n (clientAt s c) else clientAt s d)"
  by (simp_all add: renamed_def)

lemma registered_renamed [simp]: "registered (renamed u c n s) = registered s"
  by (simp add: fun_eq_iff registered_def)

lemma claimName_renames:
  assumes "claimName u c (nick s c) name s = Some s1"
  shows "map_of (srv_names s) (toLower u name) = None" "modClient c (setName name) s1 = renamed u c name s"
  using assms by (auto simp: claimName_def nick_def DisplayName_def Client_Name_def renamed_def split: option.splits)

lemma renamed_reg:
  assumes reg: "reg_inv u s" and c: "registered s c" and free: "map_of (srv_names s) (toLower u n) = None"
  shows "reg_inv u (renamed u c n s)"
proof (rule reg_invI)
  let ?old = "toLower u (cl_name (clientAt s c))"
  have ci: "map_of (srv_clients s) (cl_id (clientAt s c)) = Some c" using c by (simp add: registered_def)
  fix i d
  assume "map_of (srv_clients (renamed u c n s)) i = Some d"
  then have i: "map_of (srv_clients s) i = Some d" by simp
  note old = reg_invD(1-4) [OF reg i]
  have "toLower u (cl_name (clientAt s d)) \<notin> {toLower u n, ?old}" if "d \<noteq> c"
    using old(4) free reg_invD(4) [OF reg ci] that by auto
  with old show "cl_id (clientAt (renamed u c n s) d) = i \<and> d < nextClient (renamed u c n s)
    \<and> (\<exists>m\<le>unat (srv_nextID (renamed u c n s)). i = ''client-'' @ itoa m)
    \<and> map_of (srv_names (renamed u c n s)) (toLower u (cl_name (clientAt (renamed u c n s) d))) = Some d"
    by auto
next
  fix k d
  assume k: "map_of (srv_names (renamed u c n s)) k = Some d"
  show "registered (renamed u c n s) d \<and> k = toLower u (cl_name (clientAt (renamed u c n s) d))"
  proof (cases "k = toLower u n")
    case False
    with k have kk: "k \<noteq> toLower u (cl_name (clientAt s c))" "map_of (srv_names s) k = Some d"
      by (auto split: if_splits)
    note old = reg_invD(5,6) [OF reg kk(2)]
    then have "d \<noteq> c" using kk(1) by blast
    with old show ?thesis by simp
  qed (use k c in simp)
qed (use reg in \<open>simp_all add: reg_inv_def\<close>)

lemma renamed_inv:
  assumes inv: "chat_inv u s" and c: "registered s c"
    and claim: "claimName u c (nick s c) name s = Some s1"
  shows "chat_inv u (modClient c (setName name) s1)
    \<and> (\<forall>d. registered (modClient c (setName name) s1) d = registered s d)"
proof -
  let ?t = "renamed u c name s"
  note t = claimName_renames [OF claim]
  have "rooms_inv u ?t" using chat_invD(3) [OF inv] by (simp add: rooms_inv_def room_ok_def)
  moreover have "occupied u {} ?t" using chat_invD(4) [OF inv, of "{}"] by (simp add: occupied_def isLobby_def)
  moreover have "live_inv ?t" using chat_invD(5) [OF inv] by (simp add: live_inv_def openClient_def)
  moreover have "channels_inv ?t" using chat_invD(6) [OF inv] by (simp add: channels_inv_def sendSafe_def sendCap_def)
  ultimately show ?thesis
    using renamed_reg [OF chat_invD(2) [OF inv] c t(1)] chat_invD(1) [OF inv] by (simp add: t(2) chat_inv_def)
qed

lemma cmdNick_inv:
  assumes inv: "chat_inv u s" and c: "registered s c"
  shows "chat_inv u (cmdNick u c args s)"
proof (cases "trimSpace args = []")
  case False
  show ?thesis
  proof (cases "sanitizeUserName u args")
    case (Inr name)
    then show ?thesis
      using False inv renamed_inv [OF inv c, of name]
      by (cases "claimName u c (nick s c) name s") (simp_all add: cmdNick_def Let_def inv_intros)
  qed (use False inv in \<open>simp add: cmdNick_def inv_intros\<close>)
qed (use inv in \<open>simp add: cmdNick_def inv_intros\<close>)

section \<open>Every command\<close>

lemma postMessage_inv [inv_intros]: "chat_inv u s \<Longrightarrow> chat_inv u (postMessage c t s)"
  by (simp add: postMessage_def inv_intros split: option.split)

lemma cmdAction_inv [inv_intros]: "chat_inv u s \<Longrightarrow> chat_inv u (cmdAction c t s)"
  by (simp add: cmdAction_def inv_intros split: option.split)

lemma cmdWho_inv [inv_intros]: "chat_inv u s \<Longrightarrow> chat_inv u (cmdWho u c t s)"
  by (simp add: cmdWho_def Let_def inv_intros split: option.split)

lemma cmdRooms_inv [inv_intros]: "chat_inv u s \<Longrightarrow> chat_inv u (cmdRooms c s)"
  by (simp add: cmdRooms_def Let_def inv_intros)

lemma directMessage_inv [inv_intros]: "chat_inv u s \<Longrightarrow> chat_inv u (directMessage u c n t s)"
  by (simp add: directMessage_def Let_def inv_intros split: option.split)

lemma cmdMsg_inv [inv_intros]: "chat_inv u s \<Longrightarrow> chat_inv u (cmdMsg u c t s)"
  by (simp add: cmdMsg_def Let_def inv_intros split: list.split)

lemma cmdTopic_inv [inv_intros]: "chat_inv u s \<Longrightarrow> chat_inv u (cmdTopic c t s)"
  using chat_inv_SetTopic [of u s _ t]
  by (simp add: cmdTopic_def Let_def SetTopic_def inv_intros split: option.split)

lemma cmdHistory_inv [inv_intros]: "chat_inv u s \<Longrightarrow> chat_inv u (cmdHistory c t s)"
  by (simp add: cmdHistory_def Let_def inv_intros split: option.split)

lemma executeCommand_inv:
  assumes "chat_inv u s" "registered s c"
  shows "chat_inv u (executeCommand u c cmd args s)"
proof -
  have "chat_inv u (shutdown u c ''quit'' (sendSystem c ''Bye!'' s))"
    using assms by (intro shutdown_inv [THEN conjunct1]) (simp_all add: inv_intros)
  then show ?thesis
    using assms joinRoom_inv [OF assms] cmdNick_inv [OF assms]
    by (simp add: executeCommand_def inv_intros)
qed

lemma handleInput_inv:
  "chat_inv u s \<Longrightarrow> registered s c \<Longrightarrow> chat_inv u (handleInput u c line s)"
  by (simp add: handleInput_def Let_def inv_intros executeCommand_inv split: prod.split)

end
