(* ===== verification/Chat_Safe.thy ===== *)
theory Chat_Safe
  imports Chat_Sessions
begin

text \<open>
  What every handler keeps whoever calls it, also a client that has been shut down and whose reader goes
  on with the lines left in its buffer. This is weaker than \<open>chat_inv\<close>: nicks may be left behind and
  rooms may have members that are gone, but the tables are well formed, the bounds hold and nothing panics.
\<close>

section \<open>The safe states\<close>

text \<open>The entries of the tables of clients and names are clients that have been accepted; the clients in the
  table are open; a client that has not been accepted yet is not shut down.\<close>

definition regs_safe :: "Server \<Rightarrow> bool" where
  "regs_safe s \<longleftrightarrow> keys_distinct (srv_clients s) \<and> keys_distinct (srv_names s) \<and>
     (\<forall>i c. map_of (srv_clients s) i = Some c \<longrightarrow> cl_id (clientAt s c) = i \<and> c < nextClient s) \<and>
     (\<forall>k c. map_of (srv_names s) k = Some c \<longrightarrow> c < nextClient s) \<and>
     (\<forall>c. nextClient s \<le> c \<longrightarrow> \<not> cl_once (clientAt s c)) \<and> live_inv s"

text \<open>Rooms are stored under their keys, hold at most \<open>HistoryLimit\<close> messages, and their members are clients
  under their own ids.\<close>

definition rooms_safe :: "unicode \<Rightarrow> Server \<Rightarrow> bool" where
  "rooms_safe u s \<longleftrightarrow> keys_distinct (srv_rooms s) \<and>
     (\<forall>k r. map_of (srv_rooms s) k = Some r \<longrightarrow> room_ok u s k r \<and>
        (\<forall>i c. map_of (room_members (roomAt s r)) i = Some c \<longrightarrow> cl_id (clientAt s c) = i \<and> c < nextClient s))"

definition chat_safe :: "unicode \<Rightarrow> Server \<Rightarrow> bool" where
  "chat_safe u s \<longleftrightarrow> config_ok (cfg s) \<and> regs_safe s \<and> rooms_safe u s \<and> channels_inv s"

lemma chat_safeD:
  assumes "chat_safe u s"
  shows "config_ok (cfg s)" "regs_safe s" "rooms_safe u s" "channels_inv s" "live_inv s"
  using assms by (simp_all add: chat_safe_def regs_safe_def)

lemma rooms_safeD:
  assumes "rooms_safe u s" "map_of (srv_rooms s) k = Some r"
  shows "room_ok u s k r"
    and "map_of (room_members (roomAt s r)) i = Some c \<Longrightarrow> cl_id (clientAt s c) = i \<and> c < nextClient s"
  using assms unfolding rooms_safe_def by blast+

text \<open>What each part looks at.\<close>

lemma regs_safe_cong:
  assumes "srv_clients t = srv_clients s" "srv_names t = srv_names s" "nextClient t = nextClient s"
    and "\<And>d. cl_id (clientAt t d) = cl_id (clientAt s d)" "\<And>d. cl_once (clientAt t d) = cl_once (clientAt s d)"
      "\<And>d. cl_done (clientAt t d) = cl_done (clientAt s d)"
      "\<And>d. cl_sendClosed (clientAt t d) = cl_sendClosed (clientAt s d)"
  shows "regs_safe t = regs_safe s"
  unfolding regs_safe_def live_inv_def openClient_def assms ..

lemma rooms_safe_cong:
  assumes "srv_rooms t = srv_rooms s" "roomAt t = roomAt s" "nextRoom t = nextRoom s" "cfg t = cfg s"
    "nextClient t = nextClient s" "\<And>d. cl_id (clientAt t d) = cl_id (clientAt s d)"
  shows "rooms_safe u t = rooms_safe u s"
  unfolding rooms_safe_def room_ok_def assms ..

lemma safe_core:
  assumes "core t = core s"
  shows "regs_safe t = regs_safe s" "rooms_safe u t = rooms_safe u s"
  by (intro regs_safe_cong rooms_safe_cong core_projs [OF assms])+

lemmas safe_sending [simp] = safe_core [OF core_Send] safe_core [OF core_sendSystem]
  safe_core [OF core_broadcast] safe_core [OF core_sendHistory] safe_core [OF core_joinNotices]

text \<open>Changes to rooms and clients that keep who they are.\<close>

lemma rooms_safe_modRoom:
  assumes "rooms_safe u s"
    and "room_key (f (roomAt s r)) = room_key (roomAt s r)" "room_name (f (roomAt s r)) = room_name (roomAt s r)"
      "room_historyLimit (f (roomAt s r)) = room_historyLimit (roomAt s r)"
    and "keys_distinct (room_members (roomAt s r)) \<Longrightarrow> keys_distinct (room_members (f (roomAt s r)))"
    and "\<And>i c. map_of (room_members (f (roomAt s r))) i = Some c \<Longrightarrow>
      map_of (room_members (roomAt s r)) i = Some c \<or> cl_id (clientAt s c) = i \<and> c < nextClient s"
    and "\<And>k. room_ok u s k r \<Longrightarrow> int (length (room_history (f (roomAt s r)))) \<le> HistoryLimit (cfg s)"
  shows "rooms_safe u (modRoom r f s)"
proof -
  have "room_ok u (modRoom r f s) k r' \<and> (\<forall>i c. map_of (room_members (roomAt (modRoom r f s) r')) i = Some c \<longrightarrow>
      cl_id (clientAt s c) = i \<and> c < nextClient s)" if k: "map_of (srv_rooms s) k = Some r'" for k r'
  proof (cases "r' = r")
    case True
    note ok = rooms_safeD [OF assms(1) k]
    show ?thesis using True ok assms(2-7) by (auto simp: room_ok_def)
  qed (use rooms_safeD [OF assms(1) k] in \<open>simp add: room_ok_def\<close>)
  then show ?thesis using assms(1) by (simp add: rooms_safe_def)
qed

lemma regs_safe_modRoom [simp]: "regs_safe (modRoom r f s) = regs_safe s"
  by (rule regs_safe_cong) simp_all

lemma regs_safe_modClient:
  assumes "\<And>x. cl_id (f x) = cl_id x" "\<And>x. cl_once (f x) = cl_once x" "\<And>x. cl_done (f x) = cl_done x"
    "\<And>x. cl_sendClosed (f x) = cl_sendClosed x"
  shows "regs_safe (modClient c f s) = regs_safe s" "rooms_safe u (modClient c f s) = rooms_safe u s"
  by (intro regs_safe_cong rooms_safe_cong; simp add: assms)+

lemma rooms_safe_delete:
  "rooms_safe u s \<Longrightarrow> rooms_safe u (s\<lparr>srv_rooms := AList.delete k (srv_rooms s)\<rparr>)"
  by (auto simp: rooms_safe_def room_ok_def)

lemma safe_RemoveMember: "rooms_safe u s \<Longrightarrow> rooms_safe u (modRoom r (RemoveMember i) s)"
  by (rule rooms_safe_modRoom) (auto simp: room_ok_def split: if_splits)

lemma safe_AddMember:
  "rooms_safe u s \<Longrightarrow> c < nextClient s \<Longrightarrow> rooms_safe u (modRoom r (AddMember (cl_id (clientAt s c)) c) s)"
  by (rule rooms_safe_modRoom) (auto simp: room_ok_def split: if_splits)

section \<open>Sending and posting\<close>

lemma chat_safe_core:
  assumes "core t = core s" "chat_safe u s" "channels_inv s \<Longrightarrow> channels_inv t"
  shows "chat_safe u t"
  using assms(2,3) by (simp add: chat_safe_def safe_core [OF assms(1)] core_projs [OF assms(1)])

lemma safe_Send [inv_intros]: "chat_safe u s \<Longrightarrow> chat_safe u (Send c m s)"
  by (rule chat_safe_core [OF core_Send _ channels_Send])

lemma safe_sendSystem [inv_intros]: "chat_safe u s \<Longrightarrow> chat_safe u (sendSystem c m s)"
  by (rule chat_safe_core [OF core_sendSystem _ channels_sendSystem])

lemma safe_sendHistory [inv_intros]: "chat_safe u s \<Longrightarrow> chat_safe u (sendHistory c r h s)"
  by (rule chat_safe_core [OF core_sendHistory _ channels_sendHistory])

lemma safe_joinNotices [inv_intros]: "chat_safe u s \<Longrightarrow> chat_safe u (joinNotices c r a s)"
  by (rule chat_safe_core [OF core_joinNotices _ channels_joinNotices])

lemma safe_AppendHistory: "chat_safe u s \<Longrightarrow> chat_safe u (modRoom r (AppendHistory e) s)"
  unfolding chat_safe_def
  by (auto intro!: rooms_safe_modRoom simp: room_ok_def) (metis AppendHistory_bound)

lemma safe_SetTopic [inv_intros]:
  "chat_safe u s \<Longrightarrow> chat_safe u (modRoom r (\<lambda>_. snd (SetTopic t (roomAt s r))) s)"
  unfolding chat_safe_def by (auto intro!: rooms_safe_modRoom simp: room_ok_def)

lemma safe_broadcast: "chat_safe u s \<Longrightarrow> chat_safe u (broadcastRoom r m False ex s)"
  by (rule chat_safe_core [OF core_broadcast _ channels_broadcast])

lemma safe_post [inv_intros]: "chat_safe u s \<Longrightarrow> chat_safe u (broadcastRoom r m st ex s)"
proof (cases "st \<and> r \<noteq> None")
  case True
  then obtain r' where "r = Some r'" st by auto
  then have "broadcastRoom r m st ex s = broadcastRoom r m False ex (modRoom r' (AppendHistory m) s)"
    by (simp add: broadcastRoom_def)
  then show "chat_safe u s \<Longrightarrow> ?thesis" by (simp add: safe_broadcast safe_AppendHistory)
next
  case False
  then show "chat_safe u s \<Longrightarrow> ?thesis" by (cases r) (simp_all add: safe_broadcast broadcastRoom_def [of None])
qed

section \<open>Leaving, renaming and moving\<close>

lemma live_forget:
  assumes regs: "regs_safe s" and c: "c < nextClient s"
  shows "regs_safe (forget u c (modClient c closeClient s))"
proof -
  have "openClient (clientAt s d) \<and> \<not> cl_once (clientAt s d) \<and> d \<noteq> c"
    if "i \<noteq> cl_id (clientAt s c)" "map_of (srv_clients s) i = Some d" for i d
    using regs that unfolding regs_safe_def live_inv_def by blast
  then have "live_inv (forget u c (modClient c closeClient s))"
    by (auto simp: live_inv_def split: if_splits)
  with regs c show ?thesis by (auto simp: regs_safe_def split: if_splits)
qed

lemma unregister_safe:
  assumes "regs_safe s" "rooms_safe u s" "channels_inv s" "config_ok (cfg s)" and c: "c < nextClient s"
    and un: "unregister u c (modClient c closeClient s) = (s', room)"
  shows "chat_safe u s'"
proof -
  let ?t = "forget u c (modClient c closeClient s)"
  have rooms: "rooms_safe u ?t"
    using assms(2) by (simp add: rooms_safe_def room_ok_def)
  have chans: "channels_inv ?t"
    using assms(3) by (auto simp: channels_inv_def sendSafe_def sendCap_def)
  have t: "chat_safe u ?t"
    using live_forget [OF assms(1) c] rooms chans assms(4) by (simp add: chat_safe_def)
  have mem: "chat_safe u (modRoom r (RemoveMember i) ?t)" for r i
    using t safe_RemoveMember [OF rooms] by (simp add: chat_safe_def)
  have drop: "chat_safe u (s\<lparr>srv_rooms := AList.delete k (srv_rooms s)\<rparr>)" if "chat_safe u s" for k s
    using that rooms_safe_delete [of u s k]
    by (auto simp: chat_safe_def regs_safe_def live_inv_def channels_inv_def sendCap_def)
  show ?thesis
    using un t mem drop [OF mem] by (auto simp: unregister_def Let_def split: option.splits if_splits)
qed

lemma safe_shutdown:
  assumes "chat_safe u s" "c < nextClient s"
  shows "chat_safe u (shutdown u c reason s)"
proof -
  obtain s' room where un: "unregister u c (modClient c closeClient s) = (s', room)" by (metis surj_pair)
  have "chat_safe u s'" using chat_safeD [OF assms(1)] assms(2) un by (intro unregister_safe)
  then show ?thesis using assms(1) un by (simp add: shutdown_def removeClient_def inv_intros)
qed

lemma safe_cmdNick:
  assumes "chat_safe u s" "c < nextClient s"
  shows "chat_safe u (cmdNick u c args s)"
proof -
  have renamed: "chat_safe u (renamed u c n s)" for n
    using assms by (auto simp: chat_safe_def regs_safe_def rooms_safe_def room_ok_def live_inv_def openClient_def
        channels_inv_def sendSafe_def sendCap_def split: if_splits)
  show ?thesis
  proof (cases "sanitizeUserName u args")
    case (Inr n)
    show ?thesis
    proof (cases "claimName u c (nick s c) n s")
      case (Some s1)
      with Inr renamed [of n] claimName_renames(2) [OF Some] show ?thesis
        using assms(1) by (simp add: cmdNick_def Let_def inv_intros)
    qed (use Inr assms in \<open>simp add: cmdNick_def inv_intros\<close>)
  qed (use assms in \<open>simp add: cmdNick_def inv_intros\<close>)
qed

lemma safe_findRoom:
  assumes safe: "chat_safe u s" and name: "trimSpace name = name" "name \<noteq> []"
    and found: "findRoom u name s = Some (s', r)"
  shows "chat_safe u s' \<and> clientAt s' = clientAt s \<and> nextClient s' = nextClient s"
proof -
  have "normalizeRoomKey u name \<noteq> []" using name by (simp add: normalizeRoomKey_eq_Nil)
  with found consider "s' = s" | new where "s' = withRoom (normalizeRoomKey u name) new s"
      "newRoom u name (HistoryLimit (cfg s)) = Some new"
    by (auto simp: findRoom_def Let_def withRoom_def split: option.splits)
  then show ?thesis
  proof cases
    case (2 new)
    let ?k = "normalizeRoomKey u name"
    note n = newRoom_Some [OF 2(2)] and rooms = chat_safeD(3) [OF safe]
    have "room_ok u s' k r \<and> (\<forall>i c. map_of (room_members (roomAt s' r)) i = Some c \<longrightarrow>
        cl_id (clientAt s' c) = i \<and> c < nextClient s')" if k: "map_of (srv_rooms s') k = Some r" for k r
    proof (cases "k = ?k")
      case True
      then show ?thesis using k n name unfolding 2(1) by (auto simp: room_ok_def normalizeRoomKey_eq_Nil)
    next
      case False
      then have "map_of (srv_rooms s) k = Some r" using k unfolding 2(1) by simp
      note old = rooms_safeD [OF rooms this]
      then have "r \<noteq> nextRoom s" by (auto simp: room_ok_def)
      with old show ?thesis unfolding 2(1) by (simp add: room_ok_def)
    qed
    then have "rooms_safe u s'" using rooms unfolding rooms_safe_def 2(1) by simp
    then show ?thesis using chat_safeD [OF safe] unfolding 2(1)
      by (simp add: chat_safe_def regs_safe_def live_inv_def channels_inv_def sendCap_def)
  qed (use safe in simp)
qed

lemma safe_switchRoom:
  assumes safe: "chat_safe u s" and c: "c < nextClient s" and sw: "switchRoom c r s = (s', previous)"
  shows "chat_safe u s'"
proof -
  let ?i = "cl_id (clientAt s c)"
  define s1 where "s1 = (case previous of None \<Rightarrow> s | Some p \<Rightarrow> modRoom p (RemoveMember ?i) s)"
  have s1: "rooms_safe u s1" "regs_safe s1" "channels_inv s1" "config_ok (cfg s1)" "clientAt s1 = clientAt s" "nextClient s1 = nextClient s"
    using chat_safeD [OF safe] safe_RemoveMember [of u s] by (auto simp: s1_def split: option.split)
  define s2 where "s2 = modRoom r (AddMember ?i c) s1"
  have "rooms_safe u s2" unfolding s2_def using safe_AddMember [of u s1 c r] s1 c by simp
  with s1 have s2: "chat_safe u s2" by (simp add: s2_def chat_safe_def)
  have s': "s' = modClient c (setRoom (roomAt s2 r)) s2"
    using sw by (auto simp: switchRoom_def Let_def s1_def s2_def)
  have "regs_safe s' \<and> rooms_safe u s'"
    using chat_safeD [OF s2] unfolding s' by (simp add: regs_safe_modClient)
  moreover have "channels_inv s'"
    using chat_safeD(4) [OF s2] unfolding s' by (auto simp: channels_inv_def sendSafe_def sendCap_def)
  ultimately show ?thesis using chat_safeD(1) [OF s2] by (simp add: chat_safe_def s')
qed

lemma safe_cleanupRoom: "chat_safe u s \<Longrightarrow> chat_safe u (cleanupRoom u r s)"
  using rooms_safe_delete [of u s]
  by (auto simp: cleanupRoom_def chat_safe_def regs_safe_def live_inv_def channels_inv_def sendCap_def split: option.split)

lemma safe_leavePrevious [inv_intros]: "chat_safe u s \<Longrightarrow> chat_safe u (leavePrevious u c r p s)"
  by (simp add: leavePrevious_def safe_cleanupRoom inv_intros)

lemma safe_joinRoom:
  assumes safe: "chat_safe u s" and c: "c < nextClient s"
  shows "chat_safe u (joinRoom u c desired a s)"
proof -
  define name where "name = (if trimSpace desired = [] then LobbyName (cfg s) else desired)"
  show ?thesis
  proof (cases "sanitizeRoomName u name")
    case (Inl e)
    then show ?thesis using safe by (simp add: joinRoom_def name_def Let_def inv_intros)
  next
    case (Inr v)
    note v = sanitizeRoomName_trimmed [OF Inr] sanitizeRoomName_nonempty [OF Inr]
    have "0 \<le> HistoryLimit (cfg s)" using safe by (simp add: chat_safe_def config_ok_def)
    then obtain new where "newRoom u v (HistoryLimit (cfg s)) = Some new" using newRoom_total by blast
    then obtain s1 r where f: "findRoom u v s = Some (s1, r)"
      by (cases "map_of (srv_rooms s) (if normalizeRoomKey u v = []
          then normalizeRoomKey u (LobbyName (cfg s)) else normalizeRoomKey u v)")
        (simp_all add: findRoom_def Let_def)
    note s1 = safe_findRoom [OF safe v f]
    obtain s' prev where sw: "switchRoom c r s1 = (s', prev)" by (metis surj_pair)
    have "chat_safe u s'" using safe_switchRoom [OF _ _ sw] s1 c by simp
    then show ?thesis
      using Inr f sw s1 by (simp add: joinRoom_def name_def Let_def moveClientRoom_def inv_intros)
  qed
qed

section \<open>Every line\<close>

lemma safe_postMessage [inv_intros]: "chat_safe u s \<Longrightarrow> chat_safe u (postMessage c t s)"
  by (simp add: postMessage_def inv_intros split: option.split)

lemma safe_queries [inv_intros]:
  "chat_safe u s \<Longrightarrow> chat_safe u (cmdWho u c t s)" "chat_safe u s \<Longrightarrow> chat_safe u (cmdRooms c s)"
  "chat_safe u s \<Longrightarrow> chat_safe u (cmdHistory c t s)"
  by (simp_all add: cmdWho_def cmdRooms_def cmdHistory_def Let_def inv_intros split: option.split)

lemma safe_messages [inv_intros]:
  "chat_safe u s \<Longrightarrow> chat_safe u (cmdAction c t s)" "chat_safe u s \<Longrightarrow> chat_safe u (directMessage u c n t s)"
  by (simp_all add: cmdAction_def directMessage_def Let_def inv_intros split: option.split)

lemma safe_cmdMsg [inv_intros]: "chat_safe u s \<Longrightarrow> chat_safe u (cmdMsg u c t s)"
  by (simp add: cmdMsg_def Let_def inv_intros split: list.split)

lemma safe_cmdTopic [inv_intros]: "chat_safe u s \<Longrightarrow> chat_safe u (cmdTopic c t s)"
  using safe_SetTopic [of u s _ t]
  by (simp add: cmdTopic_def Let_def SetTopic_def inv_intros split: option.split)

lemma safe_executeCommand:
  assumes "chat_safe u s" "c < nextClient s"
  shows "chat_safe u (executeCommand u c cmd args s)"
  using assms safe_shutdown [of u "sendSystem c ''Bye!'' s" c] safe_joinRoom [OF assms] safe_cmdNick [OF assms]
  by (simp add: executeCommand_def inv_intros)

lemma safe_handleInput:
  "chat_safe u s \<Longrightarrow> c < nextClient s \<Longrightarrow> chat_safe u (handleInput u c line s)"
  by (simp add: handleInput_def Let_def inv_intros safe_executeCommand split: prod.split)

lemma safe_modClient:
  assumes "chat_safe u s"
    and "\<And>x. cl_id (f x) = cl_id x" "\<And>x. cl_once (f x) = cl_once x" "\<And>x. cl_done (f x) = cl_done x"
      "\<And>x. cl_sendClosed (f x) = cl_sendClosed x" "\<And>x. length (cl_send (f x)) \<le> length (cl_send x)"
  shows "chat_safe u (modClient c f s)"
proof -
  have "length (cl_send (f x)) \<le> n" if "length (cl_send x) \<le> n" for x n
    using assms(6) [of x] that by simp
  then have "channels_inv (modClient c f s)"
    using chat_safeD(4) [OF assms(1)] unfolding channels_inv_def sendSafe_def sendCap_def by (simp add: assms)
  then show ?thesis using assms(1) regs_safe_modClient [of f] assms(2-5) by (simp add: chat_safe_def)
qed

lemma safe_readLine: "chat_safe u s \<Longrightarrow> c < nextClient s \<Longrightarrow> chat_safe u (readLine u c line s)"
  unfolding readLine_def by (intro safe_handleInput safe_modClient) (simp_all add: touch_def)

end
