(* ===== verification/Chat_Invariant.thy ===== *)
theory Chat_Invariant
  imports Chat_Safe
begin

text \<open>
  New connections, and all events together: every state the server can reach is safe (\<open>chat_safe\<close>), and
  consistent (\<open>chat_inv\<close>) as long as no line is handled after its client was shut down.
\<close>

section \<open>New connections\<close>

lemma not_registered_fresh:
  "reg_inv u s \<Longrightarrow> map_of (srv_clients s) i = Some d \<Longrightarrow> d \<noteq> nextClient s"
  using reg_invD(2) by blast

text \<open>A client object that is allocated but not registered changes nothing.\<close>

definition allocated :: "string \<Rightarrow> string \<Rightarrow> Server \<Rightarrow> Server" where
  "allocated cid name s = s\<lparr>srv_nextID := srv_nextID s + 1, nextClient := Suc (nextClient s),
     clientAt := (clientAt s)(nextClient s := newClient cid name)\<rparr>"

lemma allocated_projs [simp]:
  "cfg (allocated i n s) = cfg s" "srv_rooms (allocated i n s) = srv_rooms s"
  "srv_clients (allocated i n s) = srv_clients s" "srv_names (allocated i n s) = srv_names s"
  "srv_nextID (allocated i n s) = srv_nextID s + 1" "roomAt (allocated i n s) = roomAt s"
  "nextRoom (allocated i n s) = nextRoom s" "nextClient (allocated i n s) = Suc (nextClient s)"
  "crashed (allocated i n s) = crashed s"
  "clientAt (allocated i n s) d = (if d = nextClient s then newClient i n else clientAt s d)"
  by (simp_all add: allocated_def)

lemma unat_Suc_no_wrap: "srv_nextID s \<noteq> - 1 \<Longrightarrow> unat (srv_nextID s + 1) = Suc (unat (srv_nextID s))"
  by (subst add.commute, rule unatSuc) (simp add: add_eq_0_iff)

lemma allocated_inv:
  assumes inv: "chat_inv u s" and room: "srv_nextID s \<noteq> - 1"
  shows "chat_inv u (allocated i n s)"
proof -
  let ?t = "allocated i n s"
  note reg = chat_invD(2) [OF inv]
  have same: "clientAt ?t d = clientAt s d" if "map_of (srv_clients s) j = Some d" for j d
    using not_registered_fresh [OF reg that] by simp
  have regd: "registered ?t d" if "registered s d" for d
    using that same unfolding registered_def by auto
  have "reg_inv u ?t"
  proof (rule reg_invI)
    fix j d
    assume "map_of (srv_clients ?t) j = Some d"
    then have j: "map_of (srv_clients s) j = Some d" by simp
    from reg_invD(3) [OF reg j] have "\<exists>m\<le>unat (srv_nextID ?t). j = ''client-'' @ itoa m"
      using unat_Suc_no_wrap [OF room] by (metis allocated_projs(5) le_SucI)
    with reg_invD(1,2,4) [OF reg j] show "cl_id (clientAt ?t d) = j \<and> d < nextClient ?t
      \<and> (\<exists>m\<le>unat (srv_nextID ?t). j = ''client-'' @ itoa m)
      \<and> map_of (srv_names ?t) (toLower u (cl_name (clientAt ?t d))) = Some d"
      unfolding same [OF j] by simp
  next
    fix k d
    assume "map_of (srv_names ?t) k = Some d"
    then have k: "map_of (srv_names s) k = Some d" by simp
    have "clientAt ?t d = clientAt s d"
      using reg_invD(5) [OF reg k] same unfolding registered_def by blast
    with reg_invD(5,6) [OF reg k] regd show "registered ?t d \<and> k = toLower u (cl_name (clientAt ?t d))"
      by simp
  qed (use reg in \<open>simp_all add: reg_inv_def\<close>)
  moreover have "rooms_inv u ?t"
  proof -
    have "map_of (srv_clients s) j \<noteq> Some (nextClient s)" for j
      using not_registered_fresh [OF reg] by blast
    then show ?thesis using chat_invD(3) [OF inv] same unfolding rooms_inv_def room_ok_def by auto
  qed
  moreover have "occupied u {} ?t"
    using chat_invD(4) [OF inv, of "{}"] unfolding occupied_def isLobby_def by simp
  moreover have "live_inv ?t"
    using chat_invD(5) [OF inv] same unfolding live_inv_def by simp
  moreover have "channels_inv ?t"
    using chat_invD(6) [OF inv] by (simp add: channels_inv_def sendSafe_def sendCap_def newClient_def)
  ultimately show ?thesis using chat_invD(1) [OF inv] unfolding chat_inv_def by simp
qed

text \<open>The same client, registered.\<close>

definition enlisted :: "unicode \<Rightarrow> string \<Rightarrow> string \<Rightarrow> Server \<Rightarrow> Server" where
  "enlisted u cid name s = (allocated cid name s)
     \<lparr>srv_clients := AList.update cid (nextClient s) (srv_clients s),
      srv_names := AList.update (toLower u name) (nextClient s) (srv_names s)\<rparr>"

lemma enlisted_projs [simp]:
  "cfg (enlisted u i n s) = cfg s" "srv_rooms (enlisted u i n s) = srv_rooms s"
  "srv_clients (enlisted u i n s) = AList.update i (nextClient s) (srv_clients s)"
  "srv_names (enlisted u i n s) = AList.update (toLower u n) (nextClient s) (srv_names s)"
  "srv_nextID (enlisted u i n s) = srv_nextID s + 1" "roomAt (enlisted u i n s) = roomAt s"
  "nextRoom (enlisted u i n s) = nextRoom s" "nextClient (enlisted u i n s) = Suc (nextClient s)"
  "crashed (enlisted u i n s) = crashed s"
  "clientAt (enlisted u i n s) d = (if d = nextClient s then newClient i n else clientAt s d)"
  by (simp_all add: enlisted_def)

lemma addClient_enlists:
  assumes "addClient u (nextClient s) (allocated cid name s) = Inr s'"
  shows "map_of (srv_names s) (toLower u name) = None" "s' = enlisted u cid name s"
  using assms by (auto simp: addClient_def newClient_def enlisted_def Let_def split: option.splits)

lemma newClient_projs [simp]:
  "cl_id (newClient i n) = i" "cl_name (newClient i n) = n" "cl_roomKey (newClient i n) = []"
  by (simp_all add: newClient_def)

lemma client_id_fresh:
  assumes "reg_inv u s" "srv_nextID s \<noteq> - 1"
  shows "map_of (srv_clients s) (''client-'' @ itoa (unat (srv_nextID s + 1))) = None"
  using reg_invD(3) [OF assms(1)] unat_Suc_no_wrap [OF assms(2)]
  by (cases "map_of (srv_clients s) (''client-'' @ itoa (unat (srv_nextID s + 1)))") (fastforce simp: itoa_inject)+

lemma registered_enlisted:
  assumes "map_of (srv_clients s) i = None"
  shows "registered (enlisted u i n s) d = (if d = nextClient s then True else registered s d)"
  using assms unfolding registered_def by auto

lemma enlisted_reg:
  assumes reg: "reg_inv u s" and room: "srv_nextID s \<noteq> - 1" and i: "i = ''client-'' @ itoa (unat (srv_nextID s + 1))"
    and free: "map_of (srv_names s) (toLower u n) = None"
  shows "reg_inv u (enlisted u i n s)"
proof (rule reg_invI)
  note fresh = client_id_fresh [OF reg room, folded i]
  fix j d
  assume j: "map_of (srv_clients (enlisted u i n s)) j = Some d"
  show "cl_id (clientAt (enlisted u i n s) d) = j \<and> d < nextClient (enlisted u i n s)
    \<and> (\<exists>m\<le>unat (srv_nextID (enlisted u i n s)). j = ''client-'' @ itoa m)
    \<and> map_of (srv_names (enlisted u i n s)) (toLower u (cl_name (clientAt (enlisted u i n s) d))) = Some d"
  proof (cases "j = i")
    case False
    with j have js: "map_of (srv_clients s) j = Some d" by simp
    note old = reg_invD(1-4) [OF reg js] and d = not_registered_fresh [OF reg js]
    have "toLower u (cl_name (clientAt s d)) \<noteq> toLower u n" using old(4) free by auto
    moreover have "\<exists>m\<le>unat (srv_nextID s + 1). j = ''client-'' @ itoa m"
      using old(3) unat_Suc_no_wrap [OF room] by (metis le_SucI)
    ultimately show ?thesis using old d by simp
  qed (use j i in auto)
next
  fix k d
  assume k: "map_of (srv_names (enlisted u i n s)) k = Some d"
  show "registered (enlisted u i n s) d \<and> k = toLower u (cl_name (clientAt (enlisted u i n s) d))"
  proof (cases "k = toLower u n")
    case False
    with k have ks: "map_of (srv_names s) k = Some d" by simp
    note old = reg_invD(5,6) [OF reg ks]
    then have "d \<noteq> nextClient s" using not_registered_fresh [OF reg] unfolding registered_def by blast
    with old show ?thesis using registered_enlisted [OF client_id_fresh [OF reg room, folded i]] by simp
  qed (use k in \<open>auto simp: registered_def\<close>)
qed (use reg in \<open>simp_all add: reg_inv_def\<close>)

lemma enlisted_rooms:
  assumes rooms: "rooms_inv u s" and reg: "reg_inv u s" and fresh: "map_of (srv_clients s) i = None"
  shows "rooms_inv u (enlisted u i n s)"
proof -
  let ?t = "enlisted u i n s"
  have old: "d \<noteq> nextClient s" if "map_of (srv_clients s) j = Some d" for j d using not_registered_fresh [OF reg that] .
  have mem: "map_of (room_members (roomAt s r)) j = Some d \<longleftrightarrow>
      map_of (srv_clients ?t) j = Some d \<and> cl_roomKey (clientAt ?t d) = k"
    if r: "map_of (srv_rooms s) k = Some r" for k r j d
  proof (cases "j = i")
    case True
    have "k \<noteq> []" using rooms_invD(1) [OF rooms r] by (simp add: room_ok_def)
    then show ?thesis using True fresh rooms_invD(2) [OF rooms r, of j d] by auto
  next
    case False
    then show ?thesis using rooms_invD(2) [OF rooms r, of j d] old [of j d] by auto
  qed
  have "map_of (srv_rooms s) (cl_roomKey (clientAt ?t d)) \<noteq> None"
    if "map_of (srv_clients ?t) j = Some d" "cl_roomKey (clientAt ?t d) \<noteq> []" for j d
    using that rooms old [of j d] unfolding rooms_inv_def by (auto split: if_splits)
  with mem rooms show ?thesis unfolding rooms_inv_def room_ok_def by simp
qed

lemma addClient_inv:
  assumes inv: "chat_inv u s" and room: "srv_nextID s \<noteq> - 1"
    and cid: "cid = ''client-'' @ itoa (unat (srv_nextID s + 1))"
    and add: "addClient u (nextClient s) (allocated cid name s) = Inr s'"
  shows "chat_inv u s' \<and> registered s' (nextClient s)
    \<and> (\<forall>d. d \<noteq> nextClient s \<longrightarrow> registered s' d = registered s d)"
proof -
  note s' = addClient_enlists [OF add] and reg = chat_invD(2) [OF inv]
  note fresh = client_id_fresh [OF reg room, folded cid]
  have "occupied u {} s'"
    using chat_invD(4) [OF inv, of "{}"] by (simp add: s'(2) occupied_def isLobby_def)
  moreover have "live_inv s'"
    using chat_invD(5) [OF inv] by (auto simp: s'(2) live_inv_def openClient_def newClient_def split: if_splits)
  moreover have "channels_inv s'"
    using chat_invD(6) [OF inv] by (simp add: s'(2) channels_inv_def sendSafe_def sendCap_def newClient_def)
  ultimately show ?thesis
    using enlisted_reg [OF reg room cid s'(1)] enlisted_rooms [OF chat_invD(3) [OF inv] reg fresh]
      registered_enlisted [OF fresh] chat_invD(1) [OF inv]
    by (simp add: chat_inv_def s'(2))
qed

section \<open>All events\<close>

text \<open>Changes to a client's goroutines and idle state.\<close>

lemma background_inv:
  assumes inv: "chat_inv u s"
    and f: "\<And>x. cl_id (f x) = cl_id x" "\<And>x. cl_name (f x) = cl_name x" "\<And>x. cl_roomKey (f x) = cl_roomKey x"
      "\<And>x. cl_done (f x) = cl_done x" "\<And>x. cl_sendClosed (f x) = cl_sendClosed x"
      "\<And>x. cl_once (f x) = cl_once x" "\<And>x. length (cl_send (f x)) \<le> length (cl_send x)"
  shows "chat_inv u (modClient c f s) \<and> (\<forall>d. registered (modClient c f s) d = registered s d)"
proof -
  note same = inv_modClient [OF f(1-3)]
  have "length (cl_send (f x)) \<le> n" if "length (cl_send x) \<le> n" for x n
    using f(7) [of x] that by simp
  then have "channels_inv (modClient c f s)"
    using chat_invD(6) [OF inv] unfolding channels_inv_def sendSafe_def sendCap_def by (simp add: f)
  moreover have "live_inv (modClient c f s)"
    using chat_invD(5) [OF inv] unfolding live_inv_def openClient_def by (simp add: f)
  ultimately show ?thesis using inv same unfolding chat_inv_def by simp
qed

lemma handleConn_inv:
  assumes inv: "chat_inv u s" and room: "srv_nextID s \<noteq> - 1"
  shows "chat_inv u (handleConn u now s)
    \<and> (\<forall>d. d \<noteq> nextClient s \<longrightarrow> registered (handleConn u now s) d = registered s d)"
proof -
  define name cid where "name = ''guest-'' @ pad4 (unat (srv_nextID s + 1))"
    and "cid = ''client-'' @ itoa (unat (srv_nextID s + 1))"
  let ?c = "nextClient s" and ?t = "allocated cid name s"
  have eq: "handleConn u now s = (case addClient u ?c ?t of
      Inl _ \<Rightarrow> modClient ?c (\<lambda>cl. cl\<lparr>cl_connClosed := True\<rparr>) ?t | Inr s \<Rightarrow> startClient u now ?c s)"
    unfolding handleConn_def Let_def name_def cid_def allocated_def ..
  have inv_t: "chat_inv u ?t" by (rule allocated_inv [OF inv room])
  have reg_t: "registered ?t d = registered s d" if "d \<noteq> ?c" for d
    using that unfolding registered_def by simp
  show ?thesis
  proof (cases "addClient u ?c ?t")
    case (Inl e)
    have "chat_inv u (modClient ?c (\<lambda>cl. cl\<lparr>cl_connClosed := True\<rparr>) ?t)
      \<and> (\<forall>d. registered (modClient ?c (\<lambda>cl. cl\<lparr>cl_connClosed := True\<rparr>) ?t) d = registered ?t d)"
      by (rule background_inv [OF inv_t]) simp_all
    with Inl reg_t show ?thesis unfolding eq by simp
  next
    case (Inr s1)
    note add = addClient_inv [OF inv room cid_def Inr]
    define s2 where "s2 = modClient ?c (\<lambda>cl. cl\<lparr>cl_writing := True\<rparr>) s1"
    define s3 where "s3 = modClient ?c (startIdle now (IdleTimeout (cfg s2))) s2"
    define s4 where "s4 = sendSystem ?c (''Welcome to '' @ SystemName (cfg s3) @ ''! Type /help for commands.'') s3"
    have 2: "chat_inv u s2 \<and> (\<forall>d. registered s2 d = registered s1 d)"
      unfolding s2_def using add by (intro background_inv) simp_all
    then have 3: "chat_inv u s3 \<and> (\<forall>d. registered s3 d = registered s2 d)"
      unfolding s3_def by (intro background_inv) (simp_all add: startIdle_def)
    then have 4: "chat_inv u s4" "registered s4 d = registered s3 d" for d
      unfolding s4_def by (simp_all add: inv_intros)
    have "registered s4 ?c" using 2 3 4 add by simp
    from joinRoom_inv [OF 4(1) this] have
      "chat_inv u (startClient u now ?c s1) \<and> (\<forall>d. registered (startClient u now ?c s1) d = registered s4 d)"
      by (simp add: startClient_def Let_def s2_def s3_def s4_def)
    with Inr 2 3 4 add show ?thesis unfolding eq by simp
  qed
qed

text \<open>
  What drives the server: a connection is accepted, a client's reader delivers a line or ends, its
  writer or its idle watcher takes a turn. Each event runs its handler without interruption (what
  happens between the critical sections of handlers that interleave is in Chat\_Races). A client has
  these goroutines from its registration on, and they may go on after it was shut down: in particular
  its reader hands on the lines left in the scanner's buffer. The counter of connections is taken not
  to wrap around, which it would do at the 2^64-th connection.
\<close>

datatype chat_event =
    Connect int
  | Line cref string
  | Hangup cref
  | Writer cref write_choice
  | Idle cref int idle_choice

fun enabled :: "chat_event \<Rightarrow> Server \<Rightarrow> bool" where
  "enabled (Connect now) s \<longleftrightarrow> srv_nextID s \<noteq> - 1"
| "enabled (Line c line) s \<longleftrightarrow> registered s c \<or> cl_once (clientAt s c)"
| "enabled (Hangup c) s \<longleftrightarrow> registered s c \<or> cl_once (clientAt s c)"
| "enabled (Writer c w) s \<longleftrightarrow> registered s c \<or> cl_once (clientAt s c)"
| "enabled (Idle c now i) s \<longleftrightarrow> registered s c \<or> cl_once (clientAt s c)"

fun run_event :: "unicode \<Rightarrow> chat_event \<Rightarrow> Server \<Rightarrow> Server" where
  "run_event u (Connect now) s = handleConn u now s"
| "run_event u (Line c line) s = readLine u c line s"
| "run_event u (Hangup c) s = shutdown u c ''connection closed'' s"
| "run_event u (Writer c w) s = writeLoop u c w s"
| "run_event u (Idle c now i) s = idleWatcher u now c i s"

definition chat_step :: "unicode \<Rightarrow> chat_event \<Rightarrow> Server \<Rightarrow> Server" where
  "chat_step u e s = (if enabled e s then run_event u e s else s)"

text \<open>An event is in order if it is not a line of a client that has been shut down; an orderly run has only
  such events. The step that drops the others is the same on orderly runs.\<close>

fun in_order :: "chat_event \<Rightarrow> Server \<Rightarrow> bool" where
  "in_order (Line c line) s \<longleftrightarrow> \<not> cl_once (clientAt s c)"
| "in_order _ s \<longleftrightarrow> True"

fun orderly :: "unicode \<Rightarrow> chat_event list \<Rightarrow> Server \<Rightarrow> bool" where
  "orderly u [] s \<longleftrightarrow> True"
| "orderly u (e # es) s \<longleftrightarrow> in_order e s \<and> orderly u es (chat_step u e s)"

definition ordered_step :: "unicode \<Rightarrow> chat_event \<Rightarrow> Server \<Rightarrow> Server" where
  "ordered_step u e s = (if in_order e s then chat_step u e s else s)"

lemma orderly_run: "orderly u es s \<Longrightarrow> fold (chat_step u) es s = fold (ordered_step u) es s"
  by (induction es arbitrary: s) (simp_all add: ordered_step_def)

lemma shutdown_once_inv:
  assumes "chat_inv u s" "registered s c \<or> cl_once (clientAt s c)"
  shows "chat_inv u (shutdown u c reason s)"
proof (cases "cl_once (clientAt s c)")
  case False
  with assms show ?thesis using shutdown_inv by blast
qed (use assms in \<open>simp add: shutdown_def\<close>)

lemma writeLoop_eq:
  "writeLoop u c w s =
     (case snd (writeLoopStep w (clientAt s c)) of
        None \<Rightarrow> modClient c (fst \<circ> writeLoopStep w) s
      | Some r \<Rightarrow> shutdown u c r (modClient c (fst \<circ> writeLoopStep w) s))"
  by (simp add: writeLoop_def modClient_def case_prod_beta Let_def split: option.split)

lemma idleWatcher_eq:
  "idleWatcher u now c i s =
     (let t = modClient c (fst \<circ> idleWatcherStep now (IdleTimeout (cfg s)) i) s
      in if snd (idleWatcherStep now (IdleTimeout (cfg s)) i (clientAt s c))
         then shutdown u c ''idle timeout'' (sendSystem c ''Disconnected due to inactivity.'' t) else t)"
  by (simp add: idleWatcher_def modClient_def case_prod_beta Let_def)

lemma writeLoopStep_projs [simp]:
  "cl_id (fst (writeLoopStep w x)) = cl_id x" "cl_name (fst (writeLoopStep w x)) = cl_name x"
  "cl_roomKey (fst (writeLoopStep w x)) = cl_roomKey x" "cl_done (fst (writeLoopStep w x)) = cl_done x"
  "cl_sendClosed (fst (writeLoopStep w x)) = cl_sendClosed x"
  "cl_once (fst (writeLoopStep w x)) = cl_once x"
  "length (cl_send (fst (writeLoopStep w x))) \<le> length (cl_send x)"
  by (simp_all add: writeLoopStep_def Let_def split: write_choice.split list.split)

lemma idleWatcherStep_projs [simp]:
  "cl_id (fst (idleWatcherStep n t i x)) = cl_id x" "cl_name (fst (idleWatcherStep n t i x)) = cl_name x"
  "cl_roomKey (fst (idleWatcherStep n t i x)) = cl_roomKey x"
  "cl_done (fst (idleWatcherStep n t i x)) = cl_done x"
  "cl_sendClosed (fst (idleWatcherStep n t i x)) = cl_sendClosed x"
  "cl_once (fst (idleWatcherStep n t i x)) = cl_once x"
  "cl_send (fst (idleWatcherStep n t i x)) = cl_send x"
  by (simp_all add: idleWatcherStep_def split: option.split idle_choice.split)

lemma ordered_step_inv: "chat_inv u s \<Longrightarrow> chat_inv u (ordered_step u e s)"
proof (cases "enabled e s \<and> in_order e s")
  case True
  assume inv: "chat_inv u s"
  have "chat_inv u (run_event u e s)"
  proof (cases e)
    case (Connect now)
    with True handleConn_inv [OF inv] show ?thesis by simp
  next
    case (Line c line)
    have "chat_inv u (modClient c touch s) \<and> (\<forall>d. registered (modClient c touch s) d = registered s d)"
      by (rule background_inv [OF inv]) (simp_all add: touch_def)
    moreover have "registered s c" using Line True by auto
    ultimately show ?thesis using Line handleInput_inv by (simp add: readLine_def)
  next
    case (Hangup c)
    with True shutdown_once_inv [OF inv] show ?thesis by simp
  next
    case (Writer c w)
    let ?t = "modClient c (fst \<circ> writeLoopStep w) s"
    have "chat_inv u ?t \<and> (\<forall>d. registered ?t d = registered s d)"
      by (rule background_inv [OF inv]) simp_all
    moreover have "cl_once (clientAt ?t c) = cl_once (clientAt s c)" by simp
    moreover have "registered s c \<or> cl_once (clientAt s c)" using True Writer by simp
    ultimately have "chat_inv u (shutdown u c r ?t)" "chat_inv u ?t" for r
      by (simp_all add: shutdown_once_inv)
    then show ?thesis unfolding Writer by (simp add: writeLoop_eq split: option.split)
  next
    case (Idle c now i)
    let ?t = "modClient c (fst \<circ> idleWatcherStep now (IdleTimeout (cfg s)) i) s"
    have "chat_inv u ?t \<and> (\<forall>d. registered ?t d = registered s d)"
      by (rule background_inv [OF inv]) simp_all
    moreover have "cl_once (clientAt ?t c) = cl_once (clientAt s c)" by simp
    moreover have "registered s c \<or> cl_once (clientAt s c)" using True Idle by simp
    ultimately have "chat_inv u (shutdown u c r (sendSystem c m ?t))" "chat_inv u ?t" for r m
      by (simp_all add: shutdown_once_inv inv_intros)
    then show ?thesis unfolding Idle by (simp add: idleWatcher_eq Let_def)
  qed
  with True show ?thesis by (simp add: ordered_step_def chat_step_def)
qed (auto simp: ordered_step_def chat_step_def)

lemma NewServer_inv: "chat_inv u (NewServer c)"
  by (simp add: chat_inv_def NewServer_def reg_inv_def rooms_inv_def occupied_def live_inv_def
      channels_inv_def sendSafe_def newClient_def)

interpretation chat: event_machine "\<lambda>s. \<exists>c. s = NewServer c" "ordered_step u" "chat_inv u" for u
  by unfold_locales (auto simp: NewServer_inv ordered_step_inv)

section \<open>All events, in order or not\<close>

lemma inv_is_safe: "chat_inv u s \<Longrightarrow> \<forall>c. nextClient s \<le> c \<longrightarrow> \<not> cl_once (clientAt s c) \<Longrightarrow> chat_safe u s"
proof -
  assume inv: "chat_inv u s" and fresh: "\<forall>c. nextClient s \<le> c \<longrightarrow> \<not> cl_once (clientAt s c)"
  note reg = chat_invD(2) [OF inv] and rooms = chat_invD(3) [OF inv]
  have "c < nextClient s" if "map_of (srv_names s) k = Some c" for k c
    using reg_invD(5) [OF reg that] reg_invD(2) [OF reg] unfolding registered_def by blast
  with reg fresh chat_invD(5) [OF inv] have "regs_safe s" by (auto simp: reg_inv_def regs_safe_def)
  moreover have "rooms_safe u s"
    using rooms reg unfolding rooms_inv_def rooms_safe_def reg_inv_def by blast
  ultimately show ?thesis using chat_invD [OF inv] by (simp add: chat_safe_def)
qed

lemma known_client:
  assumes "chat_safe u s" "registered s c \<or> cl_once (clientAt s c)"
  shows "c < nextClient s"
  using assms(2)
proof
  assume "cl_once (clientAt s c)"
  then show ?thesis using chat_safeD(2) [OF assms(1)] unfolding regs_safe_def by (meson not_le)
qed (use chat_safeD(2) [OF assms(1)] in \<open>auto simp: regs_safe_def registered_def\<close>)

lemma allocated_safe:
  assumes safe: "chat_safe u s"
  shows "chat_safe u (allocated i n s)"
proof -
  note regs = chat_safeD(2) [OF safe] and rooms = chat_safeD(3) [OF safe]
  have "rooms_safe u (allocated i n s)"
    unfolding rooms_safe_def
  proof (intro conjI allI impI)
    fix k r j c
    assume "map_of (srv_rooms (allocated i n s)) k = Some r"
    then have k: "map_of (srv_rooms s) k = Some r" by simp
    from rooms_safeD(1) [OF rooms k] show "room_ok u (allocated i n s) k r" by (simp add: room_ok_def)
    assume "map_of (room_members (roomAt (allocated i n s) r)) j = Some c"
    with rooms_safeD(2) [OF rooms k, of j c] show "cl_id (clientAt (allocated i n s) c) = j" "c < nextClient (allocated i n s)"
      by auto
  qed (use rooms in \<open>simp add: rooms_safe_def\<close>)
  moreover have "regs_safe (allocated i n s)"
    using regs by (fastforce simp: regs_safe_def live_inv_def newClient_def intro: less_SucI)
  ultimately show ?thesis using chat_safeD [OF safe]
    by (simp add: chat_safe_def channels_inv_def sendSafe_def sendCap_def newClient_def)
qed

lemma enlisted_safe:
  assumes safe: "chat_safe u s"
  shows "chat_safe u (enlisted u i n s)"
proof -
  let ?t = "allocated i n s"
  note t = chat_safeD [OF allocated_safe [OF safe, of i n]]
  have "rooms_safe u (enlisted u i n s) = rooms_safe u ?t" by (rule rooms_safe_cong) simp_all
  moreover have "channels_inv (enlisted u i n s) = channels_inv ?t"
    by (simp add: channels_inv_def sendCap_def)
  moreover have "regs_safe (enlisted u i n s)"
    using t(2) by (auto simp: regs_safe_def live_inv_def openClient_def newClient_def split: if_splits)
  ultimately show ?thesis using t by (simp add: chat_safe_def)
qed

lemma safe_handleConn:
  assumes "chat_safe u s"
  shows "chat_safe u (handleConn u now s)"
proof -
  define name cid where "name = ''guest-'' @ pad4 (unat (srv_nextID s + 1))"
    and "cid = ''client-'' @ itoa (unat (srv_nextID s + 1))"
  let ?c = "nextClient s" and ?t = "allocated cid name s"
  have eq: "handleConn u now s = (case addClient u ?c ?t of
      Inl _ \<Rightarrow> modClient ?c (\<lambda>cl. cl\<lparr>cl_connClosed := True\<rparr>) ?t | Inr s \<Rightarrow> startClient u now ?c s)"
    unfolding handleConn_def Let_def name_def cid_def allocated_def ..
  show ?thesis
  proof (cases "addClient u ?c ?t")
    case (Inl e)
    have "chat_safe u (modClient ?c (\<lambda>cl. cl\<lparr>cl_connClosed := True\<rparr>) ?t)"
      by (intro safe_modClient allocated_safe assms) simp_all
    with Inl show ?thesis unfolding eq by simp
  next
    case (Inr s1)
    note s1 = addClient_enlists(2) [OF Inr]
    have "chat_safe u (startClient u now ?c s1)"
      unfolding startClient_def Let_def s1
      by (intro safe_joinRoom safe_sendSystem safe_modClient enlisted_safe assms) (simp_all add: startIdle_def)
    with Inr show ?thesis unfolding eq by simp
  qed
qed

lemma chat_step_safe:
  assumes safe: "chat_safe u s"
  shows "chat_safe u (chat_step u e s)"
proof (cases "enabled e s")
  case True
  have "chat_safe u (run_event u e s)"
  proof (cases e)
    case (Connect now)
    with safe_handleConn [OF safe] show ?thesis by simp
  next
    case (Line c line)
    with True safe_readLine [OF safe] known_client [OF safe] show ?thesis by simp
  next
    case (Hangup c)
    with True safe_shutdown [OF safe] known_client [OF safe] show ?thesis by simp
  next
    case (Writer c w)
    have "chat_safe u (modClient c (fst \<circ> writeLoopStep w) s)" by (intro safe_modClient safe) simp_all
    then show ?thesis using safe_shutdown known_client [OF safe, of c] True
      unfolding Writer by (simp add: writeLoop_eq Writer split: option.split)
  next
    case (Idle c now i)
    have "chat_safe u (modClient c (fst \<circ> idleWatcherStep now (IdleTimeout (cfg s)) i) s)"
      by (intro safe_modClient safe) simp_all
    then show ?thesis using safe_shutdown safe_sendSystem known_client [OF safe, of c] True
      unfolding Idle by (simp add: idleWatcher_eq Let_def Idle)
  qed
  with True show ?thesis by (simp add: chat_step_def)
qed (use safe in \<open>simp add: chat_step_def\<close>)

interpretation chat_any: event_machine "\<lambda>s. \<exists>c. s = NewServer c" "chat_step u" "chat_safe u" for u
proof
  show "chat_safe u s" if start: "\<exists>c. s = NewServer c" for s
  proof -
    from start obtain c where s: "s = NewServer c" by blast
    show ?thesis unfolding s by (rule inv_is_safe [OF NewServer_inv]) (simp add: NewServer_def newClient_def)
  qed
qed (rule chat_step_safe)

text \<open>C5. Handlers running one at a time, whatever the configuration and whatever events clients, writers and
  timers produce: no goroutine panics, no buffer and no history exceeds its bound, rooms are stored
  under their keys, their members and the entries of the tables are clients the server has accepted,
  and the clients in the table of clients are open. If moreover no line is handled after its client has
  been shut down, the tables agree as well: clients are registered under their ids and lower-cased nicks
  and under nothing else, each room's members are exactly the registered clients that cache its key,
  and no room but the lobby is empty. (late\_rename\_leaks\_nick shows why the second part needs this,
  send\_races\_shutdown what happens when handlers interleave.)\<close>

theorem chat_reachable_inv:
  "chat_safe u (fold (chat_step u) es (NewServer c))
   \<and> (orderly u es (NewServer c) \<longrightarrow> chat_inv u (fold (chat_step u) es (NewServer c)))"
proof
  show "chat_safe u (fold (chat_step u) es (NewServer c))" by (rule chat_any.inv_reach) blast
  show "orderly u es (NewServer c) \<longrightarrow> chat_inv u (fold (chat_step u) es (NewServer c))"
    using chat.inv_reach [of "NewServer c" u es] orderly_run [of u es] by auto
qed

text \<open>A client that joins a room, writes and quits.\<close>

definition shortVisit :: "chat_event list" where
  "shortVisit = [Connect 0, Line 0 ''/join go'', Line 0 ''hello'', Writer 0 (TakeSend True), Line 0 ''/quit'', Hangup 0]"

theorem chat_reachable_inv_witness:
  "chat_inv ascii_unicode (fold (chat_step ascii_unicode) shortVisit (NewServer DefaultConfig))"
proof -
  have "orderly ascii_unicode shortVisit (NewServer DefaultConfig)" by code_simp
  with chat_reachable_inv show ?thesis by blast
qed

end
