(* ===== verification/Chat_Presence.thy ===== *)
theory Chat_Presence
  imports Chat_Invariant
begin

text \<open>
  What the chat server promises its users, without rooms, registers, queues or locks: a presence says
  who is online, under what nick and in what room. The handlers implement the operations on
  presences below (a functional refinement of every line a client can type), every event of an orderly
  run is one of the five kinds of presence step (a simulation), and what the steps keep -- no two
  clients with nicks that differ only in case -- then holds in every state such a run reaches.
\<close>

type_synonym presence = "cref \<Rightarrow> (string \<times> string) option"

definition presence :: "Server \<Rightarrow> presence" where
  "presence s c = (if registered s c then Some (cl_name (clientAt s c), cl_roomKey (clientAt s c)) else None)"

definition taken :: "unicode \<Rightarrow> presence \<Rightarrow> string \<Rightarrow> bool" where
  "taken u a n \<longleftrightarrow> (\<exists>c m k. a c = Some (m, k) \<and> toLower u m = toLower u n)"

section \<open>The abstract operations\<close>

definition pr_join :: "unicode \<Rightarrow> Config \<Rightarrow> cref \<Rightarrow> string \<Rightarrow> presence \<Rightarrow> presence" where
  "pr_join u g c desired a =
     (case (a c, sanitizeRoomName u (if trimSpace desired = [] then LobbyName g else desired)) of
        (Some (n, _), Inr room) \<Rightarrow> a(c \<mapsto> (n, normalizeRoomKey u room))
      | _ \<Rightarrow> a)"

definition pr_nick :: "unicode \<Rightarrow> cref \<Rightarrow> string \<Rightarrow> presence \<Rightarrow> presence" where
  "pr_nick u c args a =
     (case (a c, sanitizeUserName u args) of
        (Some (_, k), Inr n) \<Rightarrow> (if taken u a n then a else a(c \<mapsto> (n, k)))
      | _ \<Rightarrow> a)"

definition pr_line :: "unicode \<Rightarrow> Config \<Rightarrow> cref \<Rightarrow> string \<Rightarrow> presence \<Rightarrow> presence" where
  "pr_line u g c line a =
     (if \<not> prefix ''/'' (trimSpace line) then a
      else case parseCommand u (trimSpace line) of
        (cmd, args) \<Rightarrow>
          if cmd = ''nick'' then pr_nick u c args a
          else if cmd = ''join'' then pr_join u g c args a
          else if cmd = ''leave'' then pr_join u g c (LobbyName g) a
          else if cmd \<in> {''quit'', ''exit''} then a(c := None)
          else a)"

inductive presence_step :: "unicode \<Rightarrow> presence \<Rightarrow> presence \<Rightarrow> bool" for u where
  Stay: "presence_step u a a"
| Enter: "a c = None \<Longrightarrow> \<not> taken u a n \<Longrightarrow> presence_step u a (a(c \<mapsto> (n, k)))"
| Move: "a c = Some (n, k) \<Longrightarrow> k' \<noteq> [] \<Longrightarrow> presence_step u a (a(c \<mapsto> (n, k')))"
| Rename: "a c = Some (n, k) \<Longrightarrow> \<not> taken u a n' \<Longrightarrow> presence_step u a (a(c \<mapsto> (n', k)))"
| Leave: "presence_step u a (a(c := None))"

definition nicks_unique :: "unicode \<Rightarrow> presence \<Rightarrow> bool" where
  "nicks_unique u a \<longleftrightarrow>
     (\<forall>c d n m k l. a c = Some (n, k) \<longrightarrow> a d = Some (m, l) \<longrightarrow> toLower u n = toLower u m \<longrightarrow> c = d)"

lemma nicks_uniqueD:
  "nicks_unique u a \<Longrightarrow> a c = Some (n, k) \<Longrightarrow> a d = Some (m, l) \<Longrightarrow> toLower u n = toLower u m \<Longrightarrow> c = d"
  unfolding nicks_unique_def by blast

lemma nicks_uniqueI:
  "(\<And>c d n m k l. c \<noteq> d \<Longrightarrow> a c = Some (n, k) \<Longrightarrow> a d = Some (m, l) \<Longrightarrow> toLower u n \<noteq> toLower u m)
   \<Longrightarrow> nicks_unique u a"
  unfolding nicks_unique_def by blast

lemma nicks_unique_upd:
  assumes a: "nicks_unique u a"
    and n: "\<And>d m l. a d = Some (m, l) \<Longrightarrow> d \<noteq> c \<Longrightarrow> toLower u m \<noteq> toLower u n"
  shows "nicks_unique u (a(c \<mapsto> (n, k)))"
proof (rule nicks_uniqueI)
  fix d e n1 n2 k1 k2
  assume "d \<noteq> e" and d: "(a(c \<mapsto> (n, k))) d = Some (n1, k1)" and e: "(a(c \<mapsto> (n, k))) e = Some (n2, k2)"
  consider "d = c" "n1 = n" "a e = Some (n2, k2)" "e \<noteq> c" | "e = c" "n2 = n" "a d = Some (n1, k1)" "d \<noteq> c"
    | "a d = Some (n1, k1)" "a e = Some (n2, k2)"
    using \<open>d \<noteq> e\<close> d e by (simp split: if_splits)
  then show "toLower u n1 \<noteq> toLower u n2"
    by cases (use n \<open>d \<noteq> e\<close> nicks_uniqueD [OF a] in metis)+
qed

lemma presence_step_unique: "presence_step u a b \<Longrightarrow> nicks_unique u a \<Longrightarrow> nicks_unique u b"
proof (induction rule: presence_step.induct)
  case (Enter a c n k)
  from Enter(2) have "toLower u m \<noteq> toLower u n" if "a d = Some (m, l)" for d m l
    using that unfolding taken_def by blast
  then show ?case by (rule nicks_unique_upd [OF Enter(3)])
next
  case (Move a c n k k')
  have "toLower u m \<noteq> toLower u n" if "a d = Some (m, l)" "d \<noteq> c" for d m l
    using nicks_uniqueD [OF Move(3) that(1) Move(1)] that(2) by blast
  then show ?case by (rule nicks_unique_upd [OF Move(3)])
next
  case (Rename a c n k n')
  from Rename(2) have "toLower u m \<noteq> toLower u n'" if "a d = Some (m, l)" for d m l
    using that unfolding taken_def by blast
  then show ?case by (rule nicks_unique_upd [OF Rename(3)])
next
  case (Leave a c)
  show ?case
  proof (rule nicks_uniqueI)
    fix d e n m k l
    assume "d \<noteq> e" "(a(c := None)) d = Some (n, k)" "(a(c := None)) e = Some (m, l)"
    then have "d \<noteq> e" "a d = Some (n, k)" "a e = Some (m, l)" by (simp_all split: if_splits)
    with nicks_uniqueD [OF Leave this(2,3)] show "toLower u n \<noteq> toLower u m" by blast
  qed
qed

section \<open>The handlers implement them\<close>

lemma presence_core:
  assumes "core t = core s"
  shows "presence t = presence s"
  by (rule ext) (simp add: presence_def inv_core(1) [OF assms] core_projs [OF assms])

lemmas presence_Send [simp] = presence_core [OF core_Send] presence_core [OF core_sendSystem]
  presence_core [OF core_broadcast] presence_core [OF core_sendHistory]

lemma presence_modRoom [simp]: "presence (modRoom r f s) = presence s"
  by (rule ext) (simp add: presence_def)

lemma presence_post [simp]: "presence (broadcastRoom r m st ex s) = presence s"
proof (cases "st \<and> r \<noteq> None")
  case True
  then obtain r' where "r = Some r'" st by auto
  then have "broadcastRoom r m st ex s = broadcastRoom r m False ex (modRoom r' (AppendHistory m) s)"
    by (simp add: broadcastRoom_def)
  then show ?thesis by simp
next
  case False
  then show ?thesis by (cases r) (simp_all add: broadcastRoom_def [of None])
qed

lemma presence_modClient:
  assumes "\<And>x. cl_id (f x) = cl_id x" "\<And>x. cl_name (f x) = cl_name x" "\<And>x. cl_roomKey (f x) = cl_roomKey x"
  shows "presence (modClient c f s) = presence s"
  by (rule ext) (simp add: presence_def inv_modClient(1) assms)

lemma names_taken:
  assumes "chat_inv u s"
  shows "map_of (srv_names s) (toLower u n) = None \<longleftrightarrow> \<not> taken u (presence s) n"
proof -
  note reg = chat_invD(2) [OF assms]
  have "map_of (srv_names s) (toLower u n) \<noteq> None" if "taken u (presence s) n"
  proof -
    from that obtain c where "registered s c" "toLower u (cl_name (clientAt s c)) = toLower u n"
      by (auto simp: taken_def presence_def split: if_splits)
    with reg_invD(4) [OF reg] show ?thesis unfolding registered_def by fastforce
  qed
  moreover have "taken u (presence s) n" if "map_of (srv_names s) (toLower u n) = Some c" for c
    using reg_invD(5,6) [OF reg that] unfolding taken_def presence_def by force
  ultimately show ?thesis by (cases "map_of (srv_names s) (toLower u n)") auto
qed

lemma presence_shutdown:
  assumes inv: "chat_inv u s" and c: "registered s c"
  shows "presence (shutdown u c reason s) = (presence s)(c := None)"
proof -
  let ?t = "modClient c closeClient s"
  obtain s' room where un: "unregister u c ?t = (s', room)" by (metis surj_pair)
  have "\<not> cl_once (clientAt s c)"
    using chat_invD(5) [OF inv] c unfolding live_inv_def registered_def by blast
  then have eq: "shutdown u c reason s = broadcastRoom room (nick s' c @ '' left ('' @ reason @ '')'') False (Some c) s'"
    using un by (simp add: shutdown_def removeClient_def)
  have occ: "occupied u {} ?t" using chat_invD(4) [OF inv] by simp
  have "rooms_inv u ?t" "reg_inv u ?t" "registered ?t c" using chat_invD [OF inv] c by simp_all
  note un' = unregister_inv [OF this(1,2) occ this(3) un]
  show ?thesis
    by (rule ext) (use un' in \<open>simp add: presence_def eq\<close>)
qed

lemma presence_joinRoom:
  assumes inv: "chat_inv u s" and c: "registered s c"
  shows "presence (joinRoom u c desired a s) = pr_join u (cfg s) c desired (presence s)"
proof -
  define name where "name = (if trimSpace desired = [] then LobbyName (cfg s) else desired)"
  note reg = joinRoom_inv [OF inv c, of desired a, THEN conjunct2]
  show ?thesis
  proof (cases "sanitizeRoomName u name")
    case (Inl e)
    then show ?thesis
      by (simp add: joinRoom_def pr_join_def name_def Let_def split: option.split)
  next
    case (Inr v)
    note v = sanitizeRoomName_trimmed [OF Inr] sanitizeRoomName_nonempty [OF Inr]
    have goal: "?thesis \<longleftrightarrow> presence (joinRoom u c desired a s) =
        (presence s)(c \<mapsto> (cl_name (clientAt s c), normalizeRoomKey u v))"
      using Inr c by (simp add: pr_join_def name_def presence_def)
    from inv c v show ?thesis
    proof (cases rule: moveClientRoom_inv)
      case (already r)
      with Inr c show ?thesis unfolding goal
        by (intro ext) (simp add: joinRoom_def name_def Let_def presence_def)
    next
      case (moved s1 s' r prev)
      note ok = findRoom_ok [OF inv v moved(2)] and un = switchRoom_unfold [OF moved(3)]
      have eq: "joinRoom u c desired a s = leavePrevious u c r prev (joinNotices c r a s')"
        using Inr moved(1) by (simp add: joinRoom_def name_def Let_def)
      have "room_key (roomAt s1 r) = normalizeRoomKey u v"
        using ok rooms_invD(1) [of u s1 _ r] by (auto simp: room_ok_def)
      moreover have s1: "clientAt s1 = clientAt s" using ok by simp
      ultimately show ?thesis unfolding goal
        by (intro ext) (use reg c in \<open>simp add: presence_def eq un(11) s1\<close>)
    qed
  qed
qed

lemma presence_cmdNick:
  assumes inv: "chat_inv u s" and c: "registered s c"
  shows "presence (cmdNick u c args s) = pr_nick u c args (presence s)"
proof (cases "sanitizeUserName u args")
  case (Inl e)
  then show ?thesis by (simp add: cmdNick_def pr_nick_def split: option.split)
next
  case (Inr n)
  then have ne: "trimSpace args \<noteq> []" by (auto simp: sanitizeUserName_Inr)
  show ?thesis
  proof (cases "claimName u c (nick s c) n s")
    case None
    then have "taken u (presence s) n"
      using names_taken [OF inv, of n] by (simp add: claimName_def split: option.splits)
    with None Inr ne c show ?thesis by (simp add: cmdNick_def pr_nick_def presence_def)
  next
    case (Some s1)
    then have "\<not> taken u (presence s) n" and s1: "clientAt s1 = clientAt s"
      using names_taken [OF inv, of n] by (auto simp: claimName_def split: option.splits)
    moreover have "presence (modClient c (setName n) s1) d =
        ((presence s)(c \<mapsto> (n, cl_roomKey (clientAt s c)))) d" for d
      using renamed_inv [OF inv c Some] c s1 by (simp add: presence_def)
    then have "presence (modClient c (setName n) s1) = (presence s)(c \<mapsto> (n, cl_roomKey (clientAt s c)))"
      by (rule ext)
    ultimately show ?thesis
      using Some Inr ne c by (simp add: cmdNick_def pr_nick_def Let_def presence_def [of s])
  qed
qed

lemma presence_quiet [simp]:
  "presence (postMessage c t s) = presence s" "presence (cmdAction c t s) = presence s"
  "presence (cmdWho u c t s) = presence s" "presence (cmdRooms c s) = presence s"
  "presence (cmdMsg u c t s) = presence s" "presence (cmdTopic c t s) = presence s"
  "presence (cmdHistory c t s) = presence s"
  by (simp_all add: postMessage_def cmdAction_def cmdWho_def cmdRooms_def cmdMsg_def directMessage_def
      cmdTopic_def cmdHistory_def Let_def case_prod_beta split: option.split list.split)

lemma presence_executeCommand:
  assumes "chat_inv u s" "registered s c"
  shows "presence (executeCommand u c cmd args s) =
    (if cmd = ''nick'' then pr_nick u c args (presence s)
     else if cmd = ''join'' then pr_join u (cfg s) c args (presence s)
     else if cmd = ''leave'' then pr_join u (cfg s) c (LobbyName (cfg s)) (presence s)
     else if cmd \<in> {''quit'', ''exit''} then (presence s)(c := None)
     else presence s)"
proof -
  have "presence (shutdown u c ''quit'' (sendSystem c ''Bye!'' s)) = (presence s)(c := None)"
    using presence_shutdown [of u "sendSystem c ''Bye!'' s" c "''quit''"] assms by (simp add: inv_intros)
  then show ?thesis
    unfolding executeCommand_def
    by (simp add: presence_cmdNick [OF assms] presence_joinRoom [OF assms])
qed

lemma presence_handleInput:
  assumes "chat_inv u s" "registered s c"
  shows "presence (handleInput u c line s) = pr_line u (cfg s) c line (presence s)"
proof (cases "prefix ''/'' (trimSpace line)")
  case True
  then have ne: "trimSpace line \<noteq> []" by (cases "trimSpace line") simp_all
  obtain cmd args where pc: "parseCommand u (trimSpace line) = (cmd, args)" by (metis surj_pair)
  have "presence (handleInput u c line s) = presence (if cmd = [] then s else executeCommand u c cmd args s)"
    using True ne pc by (simp add: handleInput_def Let_def)
  also have "\<dots> = pr_line u (cfg s) c line (presence s)"
    using True pc by (simp add: pr_line_def presence_executeCommand [OF assms])
  finally show ?thesis .
qed (simp add: handleInput_def pr_line_def Let_def)

lemma presence_touch [simp]: "presence (modClient c touch s) = presence s"
  by (rule presence_modClient) (simp_all add: touch_def)

lemma presence_writer [simp]: "presence (modClient c (fst \<circ> writeLoopStep w) s) = presence s"
  by (rule presence_modClient) simp_all

lemma presence_idler [simp]: "presence (modClient c (fst \<circ> idleWatcherStep n t i) s) = presence s"
  by (rule presence_modClient) simp_all

lemma registered_presence: "registered s c \<longleftrightarrow> presence s c \<noteq> None"
  by (simp add: presence_def)

section \<open>Connections\<close>

definition guestName :: "Server \<Rightarrow> string" where
  "guestName s = ''guest-'' @ pad4 (unat (srv_nextID s + 1))"

lemma presence_startClient:
  assumes inv: "chat_inv u s" and c: "registered s c"
  shows "presence (startClient u now c s) = pr_join u (cfg s) c (LobbyName (cfg s)) (presence s)"
proof -
  define s2 where "s2 = modClient c (\<lambda>cl. cl\<lparr>cl_writing := True\<rparr>) s"
  define s3 where "s3 = modClient c (startIdle now (IdleTimeout (cfg s2))) s2"
  define s4 where "s4 = sendSystem c (''Welcome to '' @ SystemName (cfg s3) @ ''! Type /help for commands.'') s3"
  have 2: "chat_inv u s2 \<and> (\<forall>d. registered s2 d = registered s d)"
    unfolding s2_def by (rule background_inv [OF inv]) simp_all
  then have 3: "chat_inv u s3 \<and> (\<forall>d. registered s3 d = registered s2 d)"
    unfolding s3_def by (intro background_inv) (simp_all add: startIdle_def)
  have p: "presence s2 = presence s" "presence s3 = presence s2"
    unfolding s2_def s3_def by (rule presence_modClient; simp add: startIdle_def)+
  have 4: "chat_inv u s4" "registered s4 c" "presence s4 = presence s" "cfg s4 = cfg s"
    using 2 3 c p unfolding s4_def by (simp_all add: inv_intros) (simp add: s3_def s2_def)
  have "startClient u now c s = joinRoom u c (LobbyName (cfg s4)) True s4"
    by (simp add: startClient_def Let_def s2_def s3_def s4_def)
  with presence_joinRoom [OF 4(1,2)] show ?thesis by (simp add: 4(3,4))
qed

lemma presence_handleConn:
  assumes inv: "chat_inv u s" and room: "srv_nextID s \<noteq> - 1"
  shows "presence (handleConn u now s) =
    (if taken u (presence s) (guestName s) then presence s
     else pr_join u (cfg s) (nextClient s) (LobbyName (cfg s)) ((presence s)(nextClient s \<mapsto> (guestName s, []))))"
proof -
  define name cid where "name = guestName s" and "cid = ''client-'' @ itoa (unat (srv_nextID s + 1))"
  let ?c = "nextClient s" and ?t = "allocated cid name s"
  have eq: "handleConn u now s = (case addClient u ?c ?t of
      Inl _ \<Rightarrow> modClient ?c (\<lambda>cl. cl\<lparr>cl_connClosed := True\<rparr>) ?t | Inr s \<Rightarrow> startClient u now ?c s)"
    unfolding handleConn_def Let_def name_def guestName_def cid_def allocated_def ..
  have inv_t: "chat_inv u ?t" by (rule allocated_inv [OF inv room])
  have "\<not> registered s ?c"
    using not_registered_fresh [OF chat_invD(2) [OF inv]] unfolding registered_def by blast
  moreover have "\<not> registered ?t ?c"
  proof
    assume "registered ?t ?c"
    then have "map_of (srv_clients s) cid = Some ?c" by (simp add: registered_def newClient_def)
    then show False using not_registered_fresh [OF chat_invD(2) [OF inv]] by blast
  qed
  ultimately have pt: "presence ?t = presence s"
    by (intro ext) (simp add: presence_def registered_def)
  have nm: "cl_name (clientAt ?t ?c) = name" by (simp add: newClient_def)
  show ?thesis
  proof (cases "taken u (presence s) name")
    case True
    then have "map_of (srv_names ?t) (toLower u name) \<noteq> None"
      using names_taken [OF inv_t, of name] unfolding pt by blast
    then have "addClient u ?c ?t = Inl (UserNameInUse name)"
      unfolding addClient_def Let_def nm by (auto split: option.split)
    moreover have "presence (modClient ?c (\<lambda>cl. cl\<lparr>cl_connClosed := True\<rparr>) ?t) = presence ?t"
      by (rule presence_modClient) simp_all
    ultimately show ?thesis using True pt by (simp add: eq name_def)
  next
    case False
    then have "map_of (srv_names ?t) (toLower u name) = None"
      using names_taken [OF inv_t, of name] unfolding pt by blast
    then obtain s1 where add: "addClient u ?c ?t = Inr s1" and s1: "clientAt s1 = clientAt ?t" "cfg s1 = cfg s"
      unfolding addClient_def Let_def nm by simp
    note reg = addClient_inv [OF inv room cid_def add]
    have p1: "presence s1 = (presence s)(?c \<mapsto> (name, []))"
      by (rule ext) (use reg s1 in \<open>simp add: presence_def newClient_def\<close>)
    have "cfg s1 = cfg s" using s1 by simp
    with presence_startClient [of u s1 ?c now] reg False add show ?thesis
      by (simp add: eq name_def [symmetric] p1)
  qed
qed

section \<open>The simulation\<close>

lemma pr_join_step:
  assumes "a c = Some (n, k)"
  shows "presence_step u a (pr_join u g c desired a)"
proof (cases "sanitizeRoomName u (if trimSpace desired = [] then LobbyName g else desired)")
  case (Inr room)
  from presence_step.Move [of a c n k "normalizeRoomKey u room" u] sanitizeRoomName_key [OF Inr] Inr assms
  show ?thesis by (simp add: pr_join_def)
qed (simp add: pr_join_def presence_step.Stay split: option.split)

lemma pr_nick_step:
  assumes "a c = Some (n, k)"
  shows "presence_step u a (pr_nick u c args a)"
  using assms
  by (auto simp: pr_nick_def presence_step.Stay intro: presence_step.Rename split: sum.split)

lemma pr_line_step: "a c = Some (n, k) \<Longrightarrow> presence_step u a (pr_line u g c line a)"
  by (simp add: pr_line_def pr_join_step pr_nick_step presence_step.Stay presence_step.Leave split: prod.split)

lemma presence_shutdown_step:
  assumes "chat_inv u s" "registered s c \<or> cl_once (clientAt s c)"
  shows "presence_step u (presence s) (presence (shutdown u c r s))"
proof (cases "cl_once (clientAt s c)")
  case False
  with assms presence_shutdown show ?thesis by (simp add: presence_step.Leave)
qed (simp add: shutdown_def presence_step.Stay)

lemma presence_enter:
  assumes "a c = None" "\<not> taken u a n"
  shows "presence_step u a (pr_join u g c desired (a(c \<mapsto> (n, []))))"
  using presence_step.Enter [of a c u n] assms
  by (simp add: pr_join_def split: sum.split)

lemma presence_connect_step:
  assumes inv: "chat_inv u s" and room: "srv_nextID s \<noteq> - 1"
  shows "presence_step u (presence s) (presence (handleConn u now s))"
proof -
  have "\<not> registered s (nextClient s)"
    using not_registered_fresh [OF chat_invD(2) [OF inv]] unfolding registered_def by blast
  then have "presence s (nextClient s) = None" by (simp add: presence_def)
  with presence_enter [of "presence s" "nextClient s" u] show ?thesis
    by (simp add: presence_handleConn [OF assms] presence_step.Stay)
qed

lemma presence_run_event:
  assumes inv: "chat_inv u s" and en: "enabled e s" "in_order e s"
  shows "presence_step u (presence s) (presence (run_event u e s))"
proof (cases e)
  case (Connect now)
  with en presence_connect_step [OF inv] show ?thesis by simp
next
  case (Line c line)
  have "chat_inv u (modClient c touch s) \<and> (\<forall>d. registered (modClient c touch s) d = registered s d)"
    by (rule background_inv [OF inv]) (simp_all add: touch_def)
  moreover have c: "registered s c" using Line en by auto
  ultimately have "presence (run_event u e s) = pr_line u (cfg s) c line (presence s)"
    using Line by (simp add: readLine_def presence_handleInput)
  with c show ?thesis by (simp add: presence_def [of s c] pr_line_step [of _ c])
next
  case (Hangup c)
  with en presence_shutdown_step [OF inv] show ?thesis by simp
next
  case (Writer c w)
  let ?t = "modClient c (fst \<circ> writeLoopStep w) s"
  have "chat_inv u ?t \<and> (\<forall>d. registered ?t d = registered s d)"
    by (rule background_inv [OF inv]) simp_all
  with en Writer presence_shutdown_step [of u ?t c] show ?thesis
    by (simp add: writeLoop_eq presence_step.Stay split: option.split)
next
  case (Idle c now i)
  let ?t = "modClient c (fst \<circ> idleWatcherStep now (IdleTimeout (cfg s)) i) s"
  have "chat_inv u ?t \<and> (\<forall>d. registered ?t d = registered s d)"
    by (rule background_inv [OF inv]) simp_all
  with en Idle presence_shutdown_step [of u "sendSystem c m ?t" c for m] show ?thesis
    by (simp add: idleWatcher_eq Let_def presence_step.Stay inv_intros)
qed

interpretation chat_presence:
  refined_machine "\<lambda>s. \<exists>c. s = NewServer c" "ordered_step u" "chat_inv u" presence "presence_step u" for u
  by unfold_locales (simp add: ordered_step_def chat_step_def presence_run_event presence_step.Stay)

lemma presence_NewServer: "presence (NewServer c) = (\<lambda>_. None)"
  by (rule ext) (simp add: presence_def registered_def NewServer_def)

text \<open>C2. Handlers running one at a time and no line being handled after its client has been shut down (the
  run is orderly): every state the server reaches is, seen as who is online under what nick in what
  room, reached from the empty presence by entering, moving, renaming and leaving; and no two clients
  that are online have nicks that differ only in case. Without the condition two clients can have one
  nick (late\_rename\_shares\_nick).\<close>

theorem chat_refines_presence:
  assumes "orderly u es (NewServer g)"
  shows "(presence_step u)\<^sup>*\<^sup>* (\<lambda>_. None) (presence (fold (chat_step u) es (NewServer g)))
   \<and> nicks_unique u (presence (fold (chat_step u) es (NewServer g)))"
  unfolding orderly_run [OF assms]
proof
  show "(presence_step u)\<^sup>*\<^sup>* (\<lambda>_. None) (presence (fold (ordered_step u) es (NewServer g)))"
    using chat_presence.abs_run [OF NewServer_inv] presence_NewServer by metis
  show "nicks_unique u (presence (fold (ordered_step u) es (NewServer g)))"
  proof (rule chat_presence.abs_reach)
    show "nicks_unique u (presence (NewServer g))" by (simp add: presence_NewServer nicks_unique_def)
  qed (blast intro: presence_step_unique)+
qed

text \<open>C11. A line from a client that is online changes who is online, under what nick and in what room,
  exactly as the abstract operation on presences says: \<open>/nick\<close>, \<open>/join\<close>, \<open>/leave\<close>, \<open>/quit\<close> and
  \<open>/exit\<close> do, refused names and everything else do not.\<close>

theorem line_refines_presence:
  assumes "chat_inv u s" "registered s c"
  shows "presence (readLine u c line s) = pr_line u (cfg s) c line (presence s)"
proof -
  have "chat_inv u (modClient c touch s) \<and> (\<forall>d. registered (modClient c touch s) d = registered s d)"
    by (rule background_inv [OF assms(1)]) (simp_all add: touch_def)
  with assms show ?thesis by (simp add: readLine_def presence_handleInput)
qed

text \<open>Two guests have come; the first has taken a nick and opened a room.\<close>

definition twoArrive :: "chat_event list" where
  "twoArrive = [Connect 0, Connect 0, Line 0 ''/nick alice'', Line 0 ''/join Go'']"

definition twoGuests :: Server where
  "twoGuests = fold (chat_step ascii_unicode) twoArrive (NewServer DefaultConfig)"

lemma twoArrive_orderly: "orderly ascii_unicode twoArrive (NewServer DefaultConfig)"
  by code_simp

lemma twoGuests_inv: "chat_inv ascii_unicode twoGuests"
  unfolding twoGuests_def orderly_run [OF twoArrive_orderly] by (rule chat.inv_reach) blast

theorem chat_refines_presence_witness:
  "(presence_step ascii_unicode)\<^sup>*\<^sup>* (\<lambda>_. None) (presence twoGuests) \<and> nicks_unique ascii_unicode (presence twoGuests)"
  using chat_refines_presence [OF twoArrive_orderly] by (simp add: twoGuests_def)

text \<open>What the witnesses read in a state, evaluated together.\<close>

definition lookClient :: "Server \<Rightarrow> cref \<Rightarrow> bool \<times> string \<times> string \<times> nat \<times> bool" where
  "lookClient s c = (registered s c, cl_name (clientAt s c), cl_roomKey (clientAt s c),
     length (cl_send (clientAt s c)), cl_done (clientAt s c))"

definition lookServer :: "Server \<Rightarrow> rref option list \<times> string list \<times> nat \<times> string \<times> 64 word \<times> nat" where
  "lookServer s = (map (map_of (srv_rooms s)) [''lobby'', ''go''], map (\<lambda>r. room_name (roomAt s r)) [0, 1],
     sendCap s, LobbyName (cfg s), srv_nextID s, nextClient s)"

definition look :: "Server \<Rightarrow> (bool \<times> string \<times> string \<times> nat \<times> bool) list \<times>
    rref option list \<times> string list \<times> nat \<times> string \<times> 64 word \<times> nat" where
  "look s = ([lookClient s 0, lookClient s 1], lookServer s)"

lemma look_twoGuests:
  "look twoGuests = ([(True, ''alice'', ''go'', 5, False), (True, ''guest-0002'', ''lobby'', 4, False)],
     [Some 0, Some 1], [''lobby'', ''Go''], 64, ''lobby'', 2, 2)"
  by code_simp

lemmas twoGuests_facts = look_twoGuests [unfolded look_def lookClient_def lookServer_def, simplified]

lemma twoGuests_online: "registered twoGuests 0" "registered twoGuests 1"
  using twoGuests_facts by simp_all

theorem line_refines_presence_witness:
  "presence (readLine ascii_unicode 0 '' /JOIN  Rust '' twoGuests) 0 = Some (''alice'', ''rust'')
   \<and> presence (readLine ascii_unicode 0 '' /JOIN  Rust '' twoGuests) 1 = Some (''guest-0002'', ''lobby'')"
proof -
  have "parseCommand ascii_unicode (trimSpace '' /JOIN  Rust '') = (''join'', ''Rust'')"
    "prefix ''/'' (trimSpace '' /JOIN  Rust '')" "trimSpace ''Rust'' \<noteq> []"
    "sanitizeRoomName ascii_unicode ''Rust'' = Inr ''Rust''" "normalizeRoomKey ascii_unicode ''Rust'' = ''rust''"
    by code_simp+
  then show ?thesis
    using line_refines_presence [OF twoGuests_inv twoGuests_online(1)] 
    by (simp add: pr_line_def pr_join_def presence_def [of twoGuests] twoGuests_facts)
qed

end
