(* ===== verification/Chat_Properties.thy ===== *)
theory Chat_Properties
  imports Chat_Presence
begin

text \<open>
  What the chat server's handlers do, in the states its invariant describes: nicks are unique, a
  client is in the one room it caches, a message reaches exactly the room, a rename, a move between
  rooms and a disconnection do all of their effect or none of it.
\<close>

section \<open>Delivery\<close>

abbreviation clip :: "string \<Rightarrow> string" where
  "clip m \<equiv> trimRightSet m [CHR 0x0D, CHR 0x0A]"

definition accepts :: "Server \<Rightarrow> cref \<Rightarrow> bool" where
  "accepts s c \<longleftrightarrow> \<not> cl_done (clientAt s c) \<and> length (cl_send (clientAt s c)) < sendCap s"

lemma Send_queue:
  assumes "channels_inv s"
  shows "cl_send (clientAt (Send c m s) d) =
    cl_send (clientAt s d) @ (if d = c \<and> accepts s c then [clip m] else [])"
proof -
  have "sendSafe (clientAt s c)" using assms by (simp add: channels_inv_def)
  then show ?thesis
    by (auto simp: Send_def trySend_def accepts_def sendSafe_def Let_def)
qed

lemma accepts_Send: "channels_inv s \<Longrightarrow> d \<noteq> c \<Longrightarrow> accepts (Send c m s) d = accepts s d"
  by (simp add: accepts_def Send_queue sendCap_def)

lemma fold_Send_queue:
  assumes "channels_inv s" "distinct cs"
  shows "cl_send (clientAt (fold (\<lambda>c. Send c m) cs s) d) =
    cl_send (clientAt s d) @ (if d \<in> set cs \<and> accepts s d then [clip m] else [])"
  using assms
proof (induction cs arbitrary: s)
  case (Cons c cs)
  have inv: "channels_inv (Send c m s)" and d: "distinct cs" "c \<notin> set cs"
    using Cons.prems by (simp_all add: channels_Send)
  show ?case
  proof (cases "d = c")
    case True
    with Cons.IH [OF inv d(1)] d Cons.prems(1) show ?thesis by (simp add: Send_queue)
  next
    case False
    with Cons.IH [OF inv d(1)] Cons.prems(1) show ?thesis by (simp add: Send_queue accepts_Send)
  qed
qed simp

text \<open>The members of a stored room, without duplicates.\<close>

lemma room_recipients:
  assumes inv: "chat_inv u s" and r: "map_of (srv_rooms s) k = Some r"
  shows "distinct (map snd (room_members (roomAt s r)))"
    and "d \<in> snd ` set (room_members (roomAt s r)) \<longleftrightarrow> registered s d \<and> cl_roomKey (clientAt s d) = k"
proof -
  note rooms = chat_invD(3) [OF inv] and reg = chat_invD(2) [OF inv]
  have kd: "keys_distinct (room_members (roomAt s r))"
    using rooms_invD(1) [OF rooms r] by (simp add: room_ok_def)
  note mem = keys_distinct_mem [OF kd] rooms_invD(2) [OF rooms r]
  have id_of: "cl_id (clientAt s c) = i" if "(i, c) \<in> set (room_members (roomAt s r))" for i c
    using that mem reg_invD(1) [OF reg] by blast
  have "inj_on snd (set (room_members (roomAt s r)))"
    by (rule inj_onI) (metis id_of prod.collapse)
  with kd show "distinct (map snd (room_members (roomAt s r)))"
    by (simp add: distinct_map keys_distinct_def)
  show "d \<in> snd ` set (room_members (roomAt s r)) \<longleftrightarrow> registered s d \<and> cl_roomKey (clientAt s d) = k"
  proof
    assume "d \<in> snd ` set (room_members (roomAt s r))"
    then obtain i where "(i, d) \<in> set (room_members (roomAt s r))" by auto
    with mem id_of show "registered s d \<and> cl_roomKey (clientAt s d) = k"
      unfolding registered_def by blast
  next
    assume "registered s d \<and> cl_roomKey (clientAt s d) = k"
    with mem have "(cl_id (clientAt s d), d) \<in> set (room_members (roomAt s r))"
      unfolding registered_def by blast
    then show "d \<in> snd ` set (room_members (roomAt s r))" by force
  qed
qed

lemma registered_live: "chat_inv u s \<Longrightarrow> registered s d \<Longrightarrow> \<not> cl_done (clientAt s d)"
  using chat_invD(5) unfolding live_inv_def registered_def openClient_def by blast

lemma broadcast_queue:
  assumes inv: "chat_inv u s" and r: "map_of (srv_rooms s) k = Some r"
  shows "cl_send (clientAt (broadcastRoom (Some r) m st ex s) d) =
    cl_send (clientAt s d) @
      (if registered s d \<and> cl_roomKey (clientAt s d) = k \<and> ex \<noteq> Some d
          \<and> length (cl_send (clientAt s d)) < sendCap s
       then [clip (''['' @ room_name (roomAt s r) @ ''] '' @ m)] else [])"
proof -
  define t where "t = (if st then modRoom r (AppendHistory m) s else s)"
  have t: "clientAt t = clientAt s" "cfg t = cfg s" "room_members (roomAt t r) = room_members (roomAt s r)"
    "room_name (roomAt t r) = room_name (roomAt s r)" "channels_inv t"
    using chat_invD(6) [OF inv] by (simp_all add: t_def)
  let ?cs = "filter (\<lambda>m. ex \<noteq> Some m) (map snd (room_members (roomAt s r)))"
  have eq: "broadcastRoom (Some r) m st ex s =
      fold (\<lambda>c. Send c (''['' @ room_name (roomAt s r) @ ''] '' @ m)) ?cs t"
    by (simp add: broadcastRoom_def Let_def t MembersSnapshot_def Room_Name_def flip: t_def)
  have "distinct ?cs" using room_recipients(1) [OF inv r] by (rule distinct_filter)
  from fold_Send_queue [OF t(5) this] show ?thesis
    unfolding eq using room_recipients(2) [OF inv r, of d] registered_live [OF inv, of d]
    by (auto simp: t accepts_def sendCap_def)
qed

text \<open>C10. A line of text from a client in a room is appended to that room's history and put, with the
  room's name in front, at the end of the outgoing queue of every registered client in the room
  (the sender included) whose queue is not full; no other queue changes.\<close>

theorem post_reaches_room:
  assumes inv: "chat_inv u s" and c: "registered s c" and k: "cl_roomKey (clientAt s c) \<noteq> []"
  shows "\<exists>r. map_of (srv_rooms s) (cl_roomKey (clientAt s c)) = Some r
    \<and> (\<forall>d. cl_send (clientAt (postMessage c txt s) d) = cl_send (clientAt s d) @
        (if registered s d \<and> cl_roomKey (clientAt s d) = cl_roomKey (clientAt s c)
            \<and> length (cl_send (clientAt s d)) < sendCap s
         then [clip (''['' @ room_name (roomAt s r) @ ''] '' @ cl_name (clientAt s c) @ '': '' @ txt)]
         else []))
    \<and> room_history (roomAt (postMessage c txt s) r) =
        lastN (nat (HistoryLimit (cfg s))) (room_history (roomAt s r) @ [cl_name (clientAt s c) @ '': '' @ txt])"
proof -
  let ?k = "cl_roomKey (clientAt s c)"
  obtain r where r: "map_of (srv_rooms s) ?k = Some r"
    using rooms_inv_client [OF chat_invD(3) [OF inv]] c k unfolding registered_def by blast
  let ?m = "cl_name (clientAt s c) @ '': '' @ txt"
  have eq: "postMessage c txt s = broadcastRoom (Some r) ?m True None s"
    using k r by (simp add: postMessage_def roomForClient_def RoomKey_def Let_def nick_def DisplayName_def Client_Name_def)
  have hist: "roomAt (broadcastRoom (Some r) ?m True None s) = roomAt (modRoom r (AppendHistory ?m) s)"
    using core_projs(6) [OF core_broadcast, of "Some r" ?m None "modRoom r (AppendHistory ?m) s"]
    by (simp add: broadcastRoom_def Let_def)
  have lim: "room_historyLimit (roomAt s r) = HistoryLimit (cfg s)" "0 < HistoryLimit (cfg s)"
    using rooms_invD(1) [OF chat_invD(3) [OF inv] r] chat_invD(1) [OF inv]
    by (simp_all add: room_ok_def config_ok_def)
  show ?thesis
    using r broadcast_queue [OF inv r, of ?m True None] hist AppendHistory_lastN [of "roomAt s r" ?m] lim
    unfolding eq by (intro exI [of _ r]) simp
qed

theorem post_reaches_room_witness:
  "cl_send (clientAt (postMessage 1 ''hi'' twoGuests) 1) =
     cl_send (clientAt twoGuests 1) @ [''[lobby] guest-0002: hi'']
   \<and> cl_send (clientAt (postMessage 1 ''hi'' twoGuests) 0) = cl_send (clientAt twoGuests 0)"
proof -
  have "clip ''[lobby] guest-0002: hi'' = ''[lobby] guest-0002: hi''" by code_simp
  then show ?thesis
    using post_reaches_room [OF twoGuests_inv twoGuests_online(2), of "''hi''"] by (auto simp: twoGuests_facts)
qed

section \<open>Private messages\<close>

text \<open>C25. A private message to a client found by its nick, in any case, goes to that client and is echoed
  to the sender, each if its queue has room; no other queue, no room history and nothing else in the
  server changes.\<close>

theorem direct_message_private:
  assumes inv: "chat_inv u s" and t: "registered s t" "toLower u name = toLower u (cl_name (clientAt s t))"
    and body: "trimSpace txt \<noteq> []" and other: "t \<noteq> c"
  shows "(\<forall>d. cl_send (clientAt (directMessage u c name txt s) d) = cl_send (clientAt s d) @
      (if d = t \<and> accepts s t
       then [clip (''[dm] '' @ cl_name (clientAt s c) @ '' '' @ arrow @ '' you: '' @ trimSpace txt)]
       else if d = c \<and> accepts s c
       then [clip (''[dm] you '' @ arrow @ '' '' @ cl_name (clientAt s t) @ '': '' @ trimSpace txt)]
       else []))
    \<and> core (directMessage u c name txt s) = core s"
proof -
  have "map_of (srv_names s) (toLower u name) = Some t"
    using reg_invD(4) [OF chat_invD(2) [OF inv]] t unfolding registered_def by simp
  then have eq: "directMessage u c name txt s =
      Send c (''[dm] you '' @ arrow @ '' '' @ cl_name (clientAt s t) @ '': '' @ trimSpace txt)
        (Send t (''[dm] '' @ cl_name (clientAt s c) @ '' '' @ arrow @ '' you: '' @ trimSpace txt) s)"
    using body by (simp add: directMessage_def Let_def nick_def DisplayName_def Client_Name_def)
  note ch = chat_invD(6) [OF inv]
  have "cl_send (clientAt (directMessage u c name txt s) d) = cl_send (clientAt s d) @
      (if d = t \<and> accepts s t
       then [clip (''[dm] '' @ cl_name (clientAt s c) @ '' '' @ arrow @ '' you: '' @ trimSpace txt)]
       else if d = c \<and> accepts s c
       then [clip (''[dm] you '' @ arrow @ '' '' @ cl_name (clientAt s t) @ '': '' @ trimSpace txt)]
       else [])" for d
    using other accepts_Send [OF ch, of c t] unfolding eq
    by (simp add: Send_queue [OF channels_Send [OF ch]] Send_queue [OF ch])
  then show ?thesis by (simp add: eq)
qed

theorem direct_message_private_witness:
  "cl_send (clientAt (directMessage ascii_unicode 1 ''ALICE'' '' psst'' twoGuests) 0) =
     cl_send (clientAt twoGuests 0) @ [''[dm] guest-0002 '' @ arrow @ '' you: psst'']"
proof -
  have "toLower ascii_unicode ''ALICE'' = toLower ascii_unicode ''alice''" "trimSpace '' psst'' = ''psst''"
    "clip (''[dm] guest-0002 '' @ arrow @ '' you: psst'') = ''[dm] guest-0002 '' @ arrow @ '' you: psst''"
    by code_simp+
  with direct_message_private [OF twoGuests_inv twoGuests_online(1), of "''ALICE''" "'' psst''" 1]
  show ?thesis by (simp add: accepts_def twoGuests_facts)
qed

section \<open>Commands that only ask\<close>

lemma fold_Send_one: "Send c m s = fold (Send c) [m] s"
  by simp

lemma sendHistory_fold:
  "sendHistory c r h s = fold (Send c) (map (\<lambda>line. ''['' @ room_name (roomAt s r) @ ''] '' @ line) h) s"
proof (induction h arbitrary: s)
  case (Cons line h)
  from Cons.IH [of "Send c (''['' @ room_name (roomAt s r) @ ''] '' @ line) s"]
  show ?case by (simp add: sendHistory_def Room_Name_def)
qed (simp add: sendHistory_def)

text \<open>Every command but \<open>/nick\<close>, \<open>/join\<close>, \<open>/leave\<close>, \<open>/msg\<close>, \<open>/topic\<close>, \<open>/me\<close>, \<open>/quit\<close> and \<open>/exit\<close> --
  an unknown one too -- does nothing but send lines to the client that asked.\<close>

theorem queries_only_answer:
  assumes "cmd \<notin> {''nick'', ''join'', ''leave'', ''msg'', ''topic'', ''me'', ''quit'', ''exit''}"
  shows "\<exists>answer. executeCommand u c cmd args s = fold (Send c) answer s \<and> answer \<noteq> []"
proof -
  have one: "\<exists>answer. Send c m s = fold (Send c) answer s \<and> answer \<noteq> []" for m s
    by (rule exI [of _ "[m]"]) simp
  have hist: "\<exists>answer. sendHistory c r h (Send c m s) = fold (Send c) answer s \<and> answer \<noteq> []" for r h m s
    by (rule exI [of _ "m # map (\<lambda>line. ''['' @ room_name (roomAt (Send c m s) r) @ ''] '' @ line) h"])
      (simp add: sendHistory_fold)
  have "\<exists>answer. cmdWho u c args s = fold (Send c) answer s \<and> answer \<noteq> []"
    unfolding cmdWho_def sendSystem_def Let_def by (simp add: one split: option.split)
  moreover have "\<exists>answer. cmdRooms c s = fold (Send c) answer s \<and> answer \<noteq> []"
    unfolding cmdRooms_def sendSystem_def Let_def by (simp add: one)
  moreover have "\<exists>answer. cmdHistory c args s = fold (Send c) answer s \<and> answer \<noteq> []"
    unfolding cmdHistory_def sendSystem_def Let_def by (simp add: one hist split: option.split)
  ultimately show ?thesis
    using assms one unfolding executeCommand_def sendSystem_def by simp
qed

theorem queries_only_answer_witness:
  "\<exists>answer. executeCommand ascii_unicode 0 ''who'' ''all'' twoGuests = fold (Send 0) answer twoGuests \<and> answer \<noteq> []"
  by (rule queries_only_answer) simp

section \<open>The list of rooms\<close>

text \<open>\<open>/rooms\<close> lists every room once, the fuller rooms first and rooms with as many members by name,
  and the list is the same in whatever order Go iterates over the map of rooms.\<close>

theorem rooms_listing:
  assumes inv: "chat_inv u s"
    and perm: "mset (srv_rooms t) = mset (srv_rooms s)" "roomAt t = roomAt s"
  shows "summaries t = summaries s
    \<and> sorted (map (\<lambda>m. (- int (sum_count m), sum_name m)) (summaries s))
    \<and> mset (map sum_name (summaries s)) = image_mset (\<lambda>(k, r). room_name (roomAt s r)) (mset (srv_rooms s))
    \<and> distinct (map sum_name (summaries s))"
proof -
  define f where "f = (\<lambda>(k :: string, r). \<lparr>sum_name = Room_Name (roomAt s r), sum_count = MemberCount (roomAt s r),
                       sum_topic = Topic (roomAt s r)\<rparr>)"
  let ?key = "\<lambda>m. (- int (sum_count m), sum_name m)"
  note rooms = chat_invD(3) [OF inv]
  have kd: "keys_distinct (srv_rooms s)" using rooms by (simp add: rooms_inv_def)
  have key: "normalizeRoomKey u (sum_name (f p)) = fst p" if "p \<in> set (srv_rooms s)" for p
    using rooms_invD(1) [OF rooms, of "fst p" "snd p"] that kd
    by (cases p) (simp add: keys_distinct_def f_def room_ok_def Room_Name_def)
  have inj_name: "inj_on (sum_name \<circ> f) (set (srv_rooms s))"
  proof (rule inj_onI)
    fix p q
    assume p: "p \<in> set (srv_rooms s)" and q: "q \<in> set (srv_rooms s)" and eq: "(sum_name \<circ> f) p = (sum_name \<circ> f) q"
    then have "fst p = fst q" using key by (metis comp_apply)
    moreover have "map_of (srv_rooms s) (fst p) = Some (snd p)" "map_of (srv_rooms s) (fst q) = Some (snd q)"
      using p q kd by (simp_all add: keys_distinct_def)
    ultimately show "p = q" by (simp add: prod_eq_iff)
  qed
  have sums: "summaries s = sort_key ?key (map f (srv_rooms s))" "summaries t = sort_key ?key (map f (srv_rooms t))"
    by (simp_all add: summaries_def f_def perm(2))
  have "mset (map f (srv_rooms t)) = mset (map f (srv_rooms s))" using perm(1) by simp
  moreover have "inj_on ?key (set (map f (srv_rooms t)))"
    using inj_name mset_eq_setD [OF perm(1)] by (auto simp: inj_on_def)
  ultimately have "summaries t = summaries s"
    unfolding sums by (intro sort_key_inj_key_eq) simp_all
  moreover have names: "mset (map sum_name (summaries s)) = mset (map (sum_name \<circ> f) (srv_rooms s))"
    unfolding sums mset_map mset_sort by (simp add: multiset.map_comp)
  moreover have "distinct (map (sum_name \<circ> f) (srv_rooms s))"
    using inj_name kd by (simp add: distinct_map keys_distinct_def)
  then have "distinct (map sum_name (summaries s))" using names mset_eq_imp_distinct_iff by blast
  moreover have "sum_name \<circ> f = (\<lambda>(k, r). room_name (roomAt s r))"
    by (auto simp: f_def Room_Name_def)
  ultimately show ?thesis unfolding sums by simp
qed

theorem rooms_listing_witness:
  "\<exists>t. srv_rooms t = rev (srv_rooms twoGuests) \<and> summaries t = summaries twoGuests
     \<and> distinct (map sum_name (summaries twoGuests))"
proof -
  define t where "t = twoGuests\<lparr>srv_rooms := rev (srv_rooms twoGuests)\<rparr>"
  have "mset (srv_rooms t) = mset (srv_rooms twoGuests)" "roomAt t = roomAt twoGuests" by (simp_all add: t_def)
  from rooms_listing [OF twoGuests_inv this] show ?thesis by (intro exI [of _ t]) (simp add: t_def)
qed

section \<open>Disconnections\<close>

lemma shutdown_once: "cl_once (clientAt s c) \<Longrightarrow> shutdown u c reason s = s"
  by (simp add: shutdown_def)

lemma unregister_projs [simp]:
  "cfg (fst (unregister u c s)) = cfg s" "clientAt (fst (unregister u c s)) = clientAt s"
  "srv_names (fst (unregister u c s)) = AList.delete (toLower u (cl_name (clientAt s c))) (srv_names s)"
  by (simp_all add: unregister_def Let_def split: option.split)

lemma shutdown_client:
  assumes "\<not> cl_once (clientAt s c)"
  shows "cl_once (clientAt (shutdown u c reason s) c)" "cl_connClosed (clientAt (shutdown u c reason s) c)"
    "cl_done (clientAt (shutdown u c reason s) c)"
    "srv_names (shutdown u c reason s) = AList.delete (toLower u (cl_name (clientAt s c))) (srv_names s)"
proof -
  let ?t = "modClient c closeClient s"
  have eq: "shutdown u c reason s = (case unregister u c ?t of
      (s, room) \<Rightarrow> broadcastRoom room (nick s c @ '' left ('' @ reason @ '')'') False (Some c) s)"
    using assms by (simp add: shutdown_def removeClient_def)
  then obtain room t where t: "shutdown u c reason s = broadcastRoom room t False (Some c) (fst (unregister u c ?t))"
    by (simp add: case_prod_beta)
  show "cl_once (clientAt (shutdown u c reason s) c)" "cl_connClosed (clientAt (shutdown u c reason s) c)"
    "cl_done (clientAt (shutdown u c reason s) c)"
    "srv_names (shutdown u c reason s) = AList.delete (toLower u (cl_name (clientAt s c))) (srv_names s)"
    by (simp_all add: t)
qed

text \<open>C24. Shutting down a client that is online takes it, and nobody else, offline: its connection is
  closed, its nick is free again, it is in no room, and the other clients keep their nicks and rooms.
  Shutting it down again, for whatever reason, changes nothing.\<close>

theorem disconnect_removes_client:
  assumes inv: "chat_inv u s" and c: "registered s c"
  shows "presence (shutdown u c reason s) = (presence s)(c := None)
    \<and> cl_connClosed (clientAt (shutdown u c reason s) c)
    \<and> map_of (srv_names (shutdown u c reason s)) (toLower u (cl_name (clientAt s c))) = None
    \<and> (\<forall>k r. map_of (srv_rooms (shutdown u c reason s)) k = Some r \<longrightarrow>
         c \<notin> snd ` set (room_members (roomAt (shutdown u c reason s) r)))
    \<and> shutdown u c again (shutdown u c reason s) = shutdown u c reason s"
proof -
  have once: "\<not> cl_once (clientAt s c)"
    using chat_invD(5) [OF inv] c unfolding live_inv_def registered_def by blast
  note closed = shutdown_client [OF once] and inv' = shutdown_inv [OF inv c]
  have "c \<notin> snd ` set (room_members (roomAt (shutdown u c reason s) r))"
    if "map_of (srv_rooms (shutdown u c reason s)) k = Some r" for k r
    using room_recipients(2) [OF inv' [THEN conjunct1] that, of c] inv' by simp
  moreover have "shutdown u c again (shutdown u c reason s) = shutdown u c reason s"
    by (rule shutdown_once) (rule closed(1))
  ultimately show ?thesis using presence_shutdown [OF inv c] closed by simp
qed

theorem disconnect_removes_client_witness:
  "presence (shutdown ascii_unicode 0 ''quit'' twoGuests) = (presence twoGuests)(0 := None)
   \<and> shutdown ascii_unicode 0 ''connection closed'' (shutdown ascii_unicode 0 ''quit'' twoGuests) =
      shutdown ascii_unicode 0 ''quit'' twoGuests"
  using disconnect_removes_client [OF twoGuests_inv twoGuests_online(1)] by blast

section \<open>Nicks\<close>

text \<open>A rename to a nick that some client holds up to case is refused, with the client's own present
  nick no exception: the only effect is the answer, so nobody can change the case of a nick.\<close>

theorem rename_refused:
  assumes inv: "chat_inv u s" and name: "sanitizeUserName u args = Inr n"
    and d: "registered s d" "toLower u n = toLower u (cl_name (clientAt s d))"
  shows "cmdNick u c args s = sendSystem c ''That name is already taken.'' s"
proof -
  have "map_of (srv_names s) (toLower u n) = Some d"
    using reg_invD(4) [OF chat_invD(2) [OF inv]] d unfolding registered_def by simp
  moreover have "trimSpace args \<noteq> []" using name by (auto simp: sanitizeUserName_Inr)
  ultimately show ?thesis using name by (simp add: cmdNick_def claimName_def)
qed

theorem rename_refused_witness:
  "cmdNick ascii_unicode 0 ''Alice'' twoGuests = sendSystem 0 ''That name is already taken.'' twoGuests"
proof (rule rename_refused [OF twoGuests_inv _ twoGuests_online(1)])
  show "sanitizeUserName ascii_unicode ''Alice'' = Inr ''Alice''" by code_simp
  have "toLower ascii_unicode ''Alice'' = toLower ascii_unicode ''alice''" by code_simp
  then show "toLower ascii_unicode ''Alice'' = toLower ascii_unicode (cl_name (clientAt twoGuests 0))"
    by (simp add: twoGuests_facts)
qed

text \<open>When a client has taken the nick \<open>guest-N\<close> of the next connection number, that connection is
  refused: it is closed without a word, and nobody's presence changes; the number is used up, so the
  connection after it gets another nick.\<close>

theorem guest_nick_blocks_connection:
  assumes inv: "chat_inv u s" and room: "srv_nextID s \<noteq> - 1" and sq: "taken u (presence s) (guestName s)"
  shows "presence (handleConn u now s) = presence s
    \<and> cl_connClosed (clientAt (handleConn u now s) (nextClient s))
    \<and> cl_send (clientAt (handleConn u now s) (nextClient s)) = []
    \<and> srv_nextID (handleConn u now s) = srv_nextID s + 1"
proof -
  have "presence (handleConn u now s) = presence s" by (simp add: presence_handleConn [OF inv room] sq)
  let ?t = "allocated (''client-'' @ itoa (unat (srv_nextID s + 1))) (guestName s) s"
  have "map_of (srv_names s) (toLower u (guestName s)) \<noteq> None" using names_taken [OF inv] sq by blast
  then obtain d where "map_of (srv_names ?t) (toLower u (guestName s)) = Some d" by auto
  then have "handleConn u now s = modClient (nextClient s) (\<lambda>cl. cl\<lparr>cl_connClosed := True\<rparr>) ?t"
    by (simp add: handleConn_def Let_def guestName_def addClient_def allocated_def newClient_def)
  with \<open>presence (handleConn u now s) = presence s\<close> show ?thesis by (simp add: newClient_def)
qed

theorem guest_nick_blocks_connection_witness:
  "\<exists>s. presence s 0 = Some (''guest-0003'', ''go'') \<and> presence (handleConn ascii_unicode 0 s) = presence s
     \<and> cl_connClosed (clientAt (handleConn ascii_unicode 0 s) 2)"
proof -
  define s where "s = ordered_step ascii_unicode (Line 0 ''/nick guest-0003'') twoGuests"
  have "look s = ([(True, ''guest-0003'', ''go'', 6, False), (True, ''guest-0002'', ''lobby'', 4, False)],
     [Some 0, Some 1], [''lobby'', ''Go''], 64, ''lobby'', 2, 2)"
    unfolding s_def by code_simp
  then have facts: "presence s 0 = Some (''guest-0003'', ''go'')" "srv_nextID s = 2" "nextClient s = 2"
    by (simp_all add: look_def lookClient_def lookServer_def presence_def)
  have inv: "chat_inv ascii_unicode s" unfolding s_def by (rule ordered_step_inv) (rule twoGuests_inv)
  have "guestName s = ''guest-0003''" unfolding guestName_def facts(2) by code_simp
  then have "taken ascii_unicode (presence s) (guestName s)" using facts(1) unfolding taken_def by auto
  from guest_nick_blocks_connection [OF inv _ this] facts show ?thesis
    by (intro exI [of _ s]) simp
qed

end
