(* ===== verification/Chat_Names.thy ===== *)
theory Chat_Names
  imports Chat_Presence
begin

text \<open>
  Nicks when lines may be handled after their client was shut down: what each handler does to the tables
  of clients and names in any state, and a nick that such a line has taken and nobody can free again.
\<close>

section \<open>Who is known under what name\<close>

text \<open>What the handlers other than \<open>/nick\<close> and the shutdown leave alone: the tables of clients and names, and
  each client's id, nick and whether it is shut down.\<close>

definition who :: "Server \<Rightarrow> (string, cref) gomap \<times> (string, cref) gomap \<times> (cref \<Rightarrow> string \<times> string \<times> bool)" where
  "who s = (srv_names s, srv_clients s,
     \<lambda>d. (cl_id (clientAt s d), cl_name (clientAt s d), cl_once (clientAt s d)))"

lemma whoD:
  assumes "who t = who s"
  shows "srv_names t = srv_names s" "srv_clients t = srv_clients s" "cl_id (clientAt t d) = cl_id (clientAt s d)"
    "cl_name (clientAt t d) = cl_name (clientAt s d)" "cl_once (clientAt t d) = cl_once (clientAt s d)"
    "registered t d = registered s d"
proof -
  show c: "srv_names t = srv_names s" "srv_clients t = srv_clients s"
    using assms by (simp_all add: who_def)
  from assms have "(\<lambda>d. (cl_id (clientAt t d), cl_name (clientAt t d), cl_once (clientAt t d)))
      = (\<lambda>d. (cl_id (clientAt s d), cl_name (clientAt s d), cl_once (clientAt s d)))" by (simp add: who_def)
  from fun_cong [OF this, of d] show i: "cl_id (clientAt t d) = cl_id (clientAt s d)"
    "cl_name (clientAt t d) = cl_name (clientAt s d)" "cl_once (clientAt t d) = cl_once (clientAt s d)" by simp_all
  show "registered t d = registered s d" by (simp add: registered_def c i)
qed

lemma who_core: "core t = core s \<Longrightarrow> who t = who s"
  by (simp add: who_def core_projs [of t s])

lemmas who_sending [simp] = who_core [OF core_Send] who_core [OF core_sendSystem]
  who_core [OF core_broadcast] who_core [OF core_sendHistory] who_core [OF core_joinNotices]

lemma who_modRoom [simp]: "who (modRoom r f s) = who s"
  by (simp add: who_def)

lemma who_modClient:
  "(\<And>x. cl_id (f x) = cl_id x) \<Longrightarrow> (\<And>x. cl_name (f x) = cl_name x) \<Longrightarrow> (\<And>x. cl_once (f x) = cl_once x) \<Longrightarrow>
   who (modClient c f s) = who s"
  by (simp add: who_def fun_eq_iff)

lemma who_post [simp]: "who (broadcastRoom r m st ex s) = who s"
proof (cases "st \<and> r \<noteq> None")
  case True
  then obtain r' where "r = Some r'" st by auto
  then have "broadcastRoom r m st ex s = broadcastRoom r m False ex (modRoom r' (AppendHistory m) s)"
    by (simp add: broadcastRoom_def)
  then show ?thesis by simp
next
  case False
  then show ?thesis by (cases r) (simp_all add: broadcastRoom_def [of None])
qed

lemma who_cleanupRoom [simp]: "who (cleanupRoom u r s) = who s"
  by (simp add: who_def)

lemma who_leavePrevious [simp]: "who (leavePrevious u c r p s) = who s"
  by (simp add: leavePrevious_def)

lemma who_findRoom: "findRoom u name s = Some (s', r) \<Longrightarrow> who s' = who s"
  by (auto simp: findRoom_def Let_def who_def split: option.splits)

lemma who_switchRoom:
  assumes "switchRoom c r s = (s', p)"
  shows "who s' = who s"
  by (simp add: who_def fun_eq_iff switchRoom_unfold [OF assms])

lemma who_joinRoom [simp]: "who (joinRoom u c desired a s) = who s"
  by (auto simp: joinRoom_def Let_def moveClientRoom_def who_def [of "s\<lparr>crashed := True\<rparr>"] who_def [of s]
      dest!: who_findRoom who_switchRoom split: sum.split option.split prod.split if_splits)

lemma who_cmdTopic [simp]: "who (cmdTopic c t s) = who s"
  by (simp add: cmdTopic_def SetTopic_def Let_def split: option.split)

lemma who_queries [simp]:
  "who (cmdWho u c t s) = who s" "who (cmdRooms c s) = who s" "who (cmdHistory c t s) = who s"
  "who (cmdAction c t s) = who s" "who (postMessage c t s) = who s" "who (directMessage u c n t s) = who s"
  by (simp_all add: cmdWho_def cmdRooms_def cmdHistory_def cmdAction_def postMessage_def directMessage_def Let_def
      split: option.split)

lemma who_cmdMsg [simp]: "who (cmdMsg u c t s) = who s"
  by (simp add: cmdMsg_def Let_def split: list.split)

lemma who_executeCommand:
  "cmd \<notin> {''nick'', ''quit'', ''exit''} \<Longrightarrow> who (executeCommand u c cmd args s) = who s"
  by (simp add: executeCommand_def)

text \<open>A rename that goes through, in any state.\<close>

lemma cmdNick_claims:
  assumes n: "sanitizeUserName u args = Inr n" and free: "map_of (srv_names s) (toLower u n) = None"
  shows "who (cmdNick u c args s) = who (renamed u c n s)"
proof -
  have "trimSpace args \<noteq> []" using n by (auto simp: sanitizeUserName_Inr)
  moreover obtain s1 where "claimName u c (nick s c) n s = Some s1" using free by (simp add: claimName_def)
  moreover note claimName_renames(2) [OF this]
  ultimately show ?thesis using n by (simp add: cmdNick_def Let_def)
qed

lemma cmdNick_refused:
  assumes "sanitizeUserName u args = Inr n" "map_of (srv_names s) (toLower u n) \<noteq> None"
  shows "cmdNick u c args s = sendSystem c ''That name is already taken.'' s"
proof -
  have "trimSpace args \<noteq> []" using assms(1) by (auto simp: sanitizeUserName_Inr)
  moreover have "claimName u c (nick s c) n s = None" using assms(2) by (auto simp: claimName_def)
  ultimately show ?thesis using assms(1) by (simp add: cmdNick_def Let_def)
qed

text \<open>A shutdown that is not the first does nothing; the first one forgets the client.\<close>

lemma who_shutdown:
  "who (shutdown u c r s) = (if cl_once (clientAt s c) then who s else who (forget u c (modClient c closeClient s)))"
proof (cases "cl_once (clientAt s c)")
  case False
  obtain s' room where un: "unregister u c (modClient c closeClient s) = (s', room)" by (metis surj_pair)
  have "who (t\<lparr>srv_rooms := rs\<rparr>) = who t" for t rs by (simp add: who_def)
  then have "who s' = who (forget u c (modClient c closeClient s))"
    using un by (auto simp: unregister_def Let_def split: option.splits if_splits)
  with False un show ?thesis by (simp add: shutdown_def removeClient_def)
qed (simp add: shutdown_def)

section \<open>A nick that is gone for good\<close>

definition leaked :: "unicode \<Rightarrow> string \<Rightarrow> cref \<Rightarrow> Server \<Rightarrow> bool" where
  "leaked u k c s \<longleftrightarrow> map_of (srv_names s) k = Some c \<and> \<not> registered s c \<and> cl_once (clientAt s c)
     \<and> (\<forall>d. registered s d \<longrightarrow> toLower u (cl_name (clientAt s d)) \<noteq> k)"

lemma leaked_cong:
  assumes "who t = who s"
  shows "leaked u k c t = leaked u k c s"
  unfolding leaked_def whoD [OF assms] ..

lemmas leaked_sending [simp] = leaked_cong [OF who_sending(2)]

lemma leakedI:
  assumes "map_of (srv_names s) k = Some c" "\<not> registered s c" "cl_once (clientAt s c)"
    "\<And>d. registered s d \<Longrightarrow> toLower u (cl_name (clientAt s d)) \<noteq> k"
  shows "leaked u k c s"
  using assms unfolding leaked_def by blast

lemma leakedD:
  assumes "leaked u k c s"
  shows "map_of (srv_names s) k = Some c" "\<not> registered s c" "cl_once (clientAt s c)"
    "registered s d \<Longrightarrow> toLower u (cl_name (clientAt s d)) \<noteq> k" "registered s d \<Longrightarrow> d \<noteq> c"
  using assms unfolding leaked_def by blast+

lemma leaked_forget:
  assumes l: "leaked u k c s" and d: "registered s d"
  shows "leaked u k c (forget u d (modClient d closeClient s))"
proof (rule leakedI)
  let ?t = "forget u d (modClient d closeClient s)"
  note l' = leakedD [OF l]
  have reg: "registered s e" if "registered ?t e" for e
    using that by (auto simp: registered_def split: if_splits)
  show "map_of (srv_names ?t) k = Some c" using l'(1) l'(4) [OF d] by simp
  show "\<not> registered ?t c" using reg l'(2) by blast
  show "cl_once (clientAt ?t c)" using l'(3) by simp
  show "toLower u (cl_name (clientAt ?t e)) \<noteq> k" if "registered ?t e" for e
    using l'(4) [OF reg [OF that]] l'(4) [OF d] by simp
qed

lemma leaked_shutdown:
  assumes "leaked u k c s" "registered s d \<or> cl_once (clientAt s d)"
  shows "leaked u k c (shutdown u d r s)"
proof (cases "cl_once (clientAt s d)")
  case False
  with assms leaked_forget [OF assms(1)] show ?thesis
    using leaked_cong [of "shutdown u d r s" "forget u d (modClient d closeClient s)"] by (simp add: who_shutdown)
qed (use assms in \<open>simp add: shutdown_def\<close>)

lemma leaked_cmdNick:
  assumes l: "leaked u k c s" and d: "registered s d"
  shows "leaked u k c (cmdNick u d args s)"
proof (cases "sanitizeUserName u args")
  case (Inl e)
  with l show ?thesis by (simp add: cmdNick_def)
next
  case (Inr n)
  show ?thesis
  proof (cases "map_of (srv_names s) (toLower u n)")
    case None
    note l' = leakedD [OF l]
    have n: "toLower u n \<noteq> k" using l'(1) None by auto
    have "leaked u k c (renamed u d n s)"
      by (rule leakedI) (use n l'(1-3) l'(4,5) [OF d] l'(4) in simp_all)
    then show ?thesis using leaked_cong [OF cmdNick_claims [OF Inr None]] by simp
  qed (use l in \<open>simp add: cmdNick_refused [OF Inr]\<close>)
qed

lemma leaked_handleInput:
  assumes l: "leaked u k c s" and d: "registered s d"
  shows "leaked u k c (handleInput u d line s)"
proof (cases "trimSpace line \<noteq> [] \<and> prefix ''/'' (trimSpace line)")
  case True
  obtain cmd args where p: "parseCommand u (trimSpace line) = (cmd, args)" by (metis surj_pair)
  have "registered (sendSystem d m s) d" for m using d by simp
  then have "leaked u k c (shutdown u d ''quit'' (sendSystem d ''Bye!'' s))"
    using l by (intro leaked_shutdown) simp_all
  moreover have "leaked u k c (executeCommand u d cmd args s)" if "cmd \<notin> {''nick'', ''quit'', ''exit''}"
    using l leaked_cong [OF who_executeCommand [OF that]] by simp
  ultimately have "leaked u k c (executeCommand u d cmd args s)"
    using leaked_cmdNick [OF l d, of args]
    by (cases "cmd = ''nick''"; cases "cmd = ''quit''"; cases "cmd = ''exit''") (simp_all add: executeCommand_def)
  with True p l show ?thesis by (simp add: handleInput_def Let_def)
next
  case False
  have "leaked u k c (postMessage d (trimSpace line) s)" using l leaked_cong [OF who_queries(5)] by simp
  with False l show ?thesis by (auto simp: handleInput_def Let_def)
qed

lemma who_startClient: "who (startClient u now c s) = who s"
proof -
  have "who (modClient c (\<lambda>cl. cl\<lparr>cl_writing := True\<rparr>) t) = who t" "who (modClient c (startIdle now i) t) = who t" for t i
    by (rule who_modClient; simp add: startIdle_def)+
  then show ?thesis by (simp add: startClient_def Let_def)
qed

lemma leaked_handleConn:
  assumes safe: "chat_safe u s" and l: "leaked u k c s"
  shows "leaked u k c (handleConn u now s)"
proof -
  define name cid where "name = ''guest-'' @ pad4 (unat (srv_nextID s + 1))"
    and "cid = ''client-'' @ itoa (unat (srv_nextID s + 1))"
  let ?c = "nextClient s" and ?t = "allocated cid name s"
  have eq: "handleConn u now s = (case addClient u ?c ?t of
      Inl _ \<Rightarrow> modClient ?c (\<lambda>cl. cl\<lparr>cl_connClosed := True\<rparr>) ?t | Inr s \<Rightarrow> startClient u now ?c s)"
    unfolding handleConn_def Let_def name_def cid_def allocated_def ..
  note l' = leakedD [OF l]
  have c: "c \<noteq> ?c" using known_client [OF safe, of c] l'(3) by auto
  have known: "d \<noteq> ?c" if "map_of (srv_clients s) i = Some d" for i d
    using chat_safeD(2) [OF safe] that unfolding regs_safe_def by blast
  have reg_t: "registered s d" "d \<noteq> ?c" if "registered ?t d" for d
  proof -
    have "map_of (srv_clients s) (cl_id (clientAt ?t d)) = Some d" using that by (simp add: registered_def)
    with known [OF this] show "registered s d" "d \<noteq> ?c" by (simp_all add: registered_def)
  qed
  show ?thesis
  proof (cases "addClient u ?c ?t")
    case (Inl e)
    have "leaked u k c ?t"
    proof (rule leakedI)
      show "\<not> registered ?t c" using reg_t(1) l'(2) by blast
      show "toLower u (cl_name (clientAt ?t d)) \<noteq> k" if "registered ?t d" for d
        using reg_t [OF that] l'(4) by simp
    qed (use l'(1,3) c in simp_all)
    moreover have "who (modClient ?c (\<lambda>cl. cl\<lparr>cl_connClosed := True\<rparr>) ?t) = who ?t" by (rule who_modClient) simp_all
    from leaked_cong [OF this] have "leaked u k c (modClient ?c (\<lambda>cl. cl\<lparr>cl_connClosed := True\<rparr>) ?t) = leaked u k c ?t" .
    ultimately show ?thesis unfolding eq Inl by simp
  next
    case (Inr s1)
    note s1 = addClient_enlists [OF Inr]
    have name: "toLower u name \<noteq> k" using s1(1) l'(1) by auto
    have reg1: "d = ?c \<or> registered s d" if "registered s1 d" for d
    proof (rule disjCI)
      assume "\<not> registered s d"
      show "d = ?c"
      proof (rule ccontr)
        assume d: "d \<noteq> ?c"
        then have "clientAt s1 d = clientAt s d" unfolding s1(2) by simp
        with that d \<open>\<not> registered s d\<close> show False unfolding registered_def s1(2) by (simp split: if_splits)
      qed
    qed
    have "leaked u k c s1"
    proof (rule leakedI)
      show "map_of (srv_names s1) k = Some c" using l'(1) name unfolding s1(2) by simp
      show "\<not> registered s1 c" using reg1 c l'(2) by blast
      show "cl_once (clientAt s1 c)" using l'(3) c unfolding s1(2) by simp
      show "toLower u (cl_name (clientAt s1 d)) \<noteq> k" if "registered s1 d" for d
        using reg1 [OF that] l'(4) name unfolding s1(2) by auto
    qed
    then show ?thesis unfolding eq Inr using leaked_cong [OF who_startClient] by simp
  qed
qed

lemma leaked_step:
  assumes safe: "chat_safe u s" and l: "leaked u k c s" and e: "in_order e s"
  shows "leaked u k c (chat_step u e s)"
proof (cases "enabled e s")
  case True
  have background: "leaked u k c (modClient d f s)" "registered (modClient d f s) d = registered s d"
      "cl_once (clientAt (modClient d f s) d) = cl_once (clientAt s d)"
    if "\<And>x. cl_id (f x) = cl_id x" "\<And>x. cl_name (f x) = cl_name x" "\<And>x. cl_once (f x) = cl_once x" for d f
    using l leaked_cong [OF who_modClient [of f d s, OF that]] whoD(6) [OF who_modClient [of f d s, OF that]] that by simp_all
  have "leaked u k c (run_event u e s)"
  proof (cases e)
    case (Connect now)
    then show ?thesis by (simp add: leaked_handleConn [OF safe l])
  next
    case (Line d line)
    then have "registered s d" using True e by auto
    then show ?thesis using leaked_handleInput background [of touch d] unfolding Line by (simp add: readLine_def touch_def)
  next
    case (Hangup d)
    then show ?thesis using leaked_shutdown [OF l] True by simp
  next
    case (Writer d w)
    note t = background [of "fst \<circ> writeLoopStep w" d]
    show ?thesis using t leaked_shutdown [OF t(1), of d] True unfolding Writer
      by (simp add: writeLoop_eq Writer split: option.split)
  next
    case (Idle d now i)
    note t = background [of "fst \<circ> idleWatcherStep now (IdleTimeout (cfg s)) i" d]
    define t' where "t' = sendSystem d ''Disconnected due to inactivity.''
      (modClient d (fst \<circ> idleWatcherStep now (IdleTimeout (cfg s)) i) s)"
    have "leaked u k c t'" "registered t' d \<or> cl_once (clientAt t' d)"
      unfolding t'_def using t True Idle by simp_all
    then have "leaked u k c (shutdown u d ''idle timeout'' t')" by (rule leaked_shutdown)
    then show ?thesis using t unfolding Idle t'_def by (simp add: idleWatcher_eq Let_def)
  qed
  with True show ?thesis by (simp add: chat_step_def)
qed (use l in \<open>simp add: chat_step_def\<close>)

lemma leaked_run:
  "chat_safe u s \<Longrightarrow> leaked u k c s \<Longrightarrow> orderly u es s \<Longrightarrow> leaked u k c (fold (chat_step u) es s)"
  by (induction es arbitrary: s) (simp_all add: leaked_step chat_step_safe)

end
