(* ===== verification/Chat_Races.thy ===== *)
theory Chat_Races
  imports Chat_Names
begin

text \<open>
  What the chat server's full invariant leaves out: a reader that goes on after its client was shut down,
  and goroutines that interleave between the handlers' critical sections. The steps are the parts the
  handlers are made of (the two halves of \<open>/nick\<close>, the check and the send of \<open>Send\<close>, the two \<open>close\<close> of
  \<open>shutdown\<close>, \<open>moveClientRoom\<close> and the \<open>cleanupRoom\<close> that follows it); each theorem shows an order of them
  that the code allows and what it leads to.
\<close>

section \<open>Lines after the end\<close>

text \<open>\<open>readLoop\<close> hands on the lines that are left in the scanner's buffer when one of them has shut the
  client down.\<close>

definition asks :: "unicode \<Rightarrow> string \<Rightarrow> string \<Rightarrow> string \<Rightarrow> bool" where
  "asks u line cmd args \<longleftrightarrow> prefix ''/'' (trimSpace line) \<and> parseCommand u (trimSpace line) = (cmd, args)"

definition plainLine :: "string \<Rightarrow> bool" where
  "plainLine l \<longleftrightarrow> CHR 0x0A \<notin> set l \<and> dropCR l = l \<and> length l < 1024"

lemma readLine_asks:
  assumes "asks u line cmd args" "cmd \<noteq> []"
  shows "readLine u c line s = executeCommand u c cmd args (modClient c touch s)"
proof -
  have "trimSpace line \<noteq> []" using assms(1) by (auto simp: asks_def)
  with assms show ?thesis by (simp add: readLine_def handleInput_def asks_def)
qed

lemma who_touch: "who (modClient c touch s) = who s"
  by (rule who_modClient) (simp_all add: touch_def)

lemma shutdown_is_once:
  assumes "chat_inv u s" "registered s c"
  shows "cl_once (clientAt (shutdown u c r s) c)"
proof -
  have "\<not> cl_once (clientAt s c)"
    using chat_invD(5) [OF assms(1)] assms(2) unfolding live_inv_def registered_def by blast
  then have "who (shutdown u c r s) = who (forget u c (modClient c closeClient s))" by (simp add: who_shutdown)
  from whoD(5) [OF this, of c] show ?thesis by simp
qed

lemma quit_line:
  assumes inv: "chat_inv u s" and c: "registered s c" and q: "asks u q ''quit'' x"
  shows "chat_inv u (readLine u c q s) \<and> presence (readLine u c q s) = (presence s)(c := None)
    \<and> cl_once (clientAt (readLine u c q s) c) \<and> who (readLine u c q s) = who (forget u c (modClient c closeClient s))"
proof -
  define t where "t = sendSystem c ''Bye!'' (modClient c touch s)"
  have "chat_inv u (modClient c touch s) \<and> (\<forall>d. registered (modClient c touch s) d = registered s d)"
    by (rule background_inv [OF inv]) (simp_all add: touch_def)
  then have t: "chat_inv u t" "registered t c" using c by (simp_all add: t_def inv_intros)
  have "presence (modClient c touch s) = presence s" by (rule presence_modClient) (simp_all add: touch_def)
  then have pt: "presence t = presence s" by (simp add: t_def)
  have eq: "readLine u c q s = shutdown u c ''quit'' t"
    by (simp add: readLine_asks [OF q] executeCommand_def t_def)
  have wt: "who t = who s" by (simp add: t_def who_touch)
  have "\<not> cl_once (clientAt t c)"
    using chat_invD(5) [OF t(1)] t(2) unfolding live_inv_def registered_def by blast
  then have "who (readLine u c q s) = who (forget u c (modClient c closeClient t))" by (simp add: eq who_shutdown)
  also have "\<dots> = who (forget u c (modClient c closeClient s))"
    by (simp add: who_def fun_eq_iff whoD [OF wt])
  finally show ?thesis
    unfolding eq using shutdown_inv [OF t] shutdown_is_once [OF t] presence_shutdown [OF t] pt by simp
qed

lemma nick_line:
  assumes l: "asks u l ''nick'' args" and n: "sanitizeUserName u args = Inr n"
    and free: "map_of (srv_names s) (toLower u n) = None"
  shows "who (readLine u c l s) = who (renamed u c n s)"
proof -
  let ?t = "modClient c touch s"
  have "readLine u c l s = cmdNick u c args ?t" by (simp add: readLine_asks [OF l] executeCommand_def)
  also have "who \<dots> = who (renamed u c n ?t)" using n free by (intro cmdNick_claims) simp_all
  also have "\<dots> = who (renamed u c n s)" by (simp add: who_def fun_eq_iff touch_def)
  finally show ?thesis .
qed

text \<open>C39. A client that quits and whose packet goes on with a \<open>/nick\<close> takes that nick for good: when the read
  loop is over the client is offline, and the nick, which was free, is registered to it; and whatever
  comes afterwards, in order, it stays so, and every rename to that nick is refused as taken.\<close>

theorem late_rename_leaks_nick:
  assumes s: "s = fold (chat_step u) earlier (NewServer g)" "orderly u earlier (NewServer g)" and c: "registered s c"
    and q: "asks u q ''quit'' x" "plainLine q" and l: "asks u l ''nick'' args" "plainLine l"
    and n: "sanitizeUserName u args = Inr n" "\<not> taken u ((presence s)(c := None)) n"
    and later: "orderly u es (readLoop u c (q @ nl @ l @ nl) s)"
  shows "let t = fold (chat_step u) es (readLoop u c (q @ nl @ l @ nl) s) in
    presence t c = None \<and> map_of (srv_names t) (toLower u n) = Some c
    \<and> (\<forall>d args' m. sanitizeUserName u args' = Inr m \<longrightarrow> toLower u m = toLower u n \<longrightarrow>
         cmdNick u d args' t = sendSystem d ''That name is already taken.'' t)"
proof -
  have inv: "chat_inv u s" and safe: "chat_safe u s"
    using chat.inv_reach [of "NewServer g" u earlier] chat_any.inv_reach [of "NewServer g" u earlier]
    unfolding s(1) orderly_run [OF s(2)] by auto
  define s1 s2 t where "s1 = readLine u c q s" and "s2 = readLine u c l s1" and "t = readLoop u c (q @ nl @ l @ nl) s"
  note q1 = quit_line [OF inv c q(1), folded s1_def]
  have free: "map_of (srv_names s1) (toLower u n) = None" using names_taken [of u s1 n] q1 n(2) by simp
  note w2 = nick_line [OF l(1) n(1) free, of c, folded s2_def]
  have others: "toLower u (cl_name (clientAt s1 d)) \<noteq> toLower u n" if "registered s1 d" for d
    using reg_invD(4) [OF chat_invD(2), of u s1 _ d] q1 that free unfolding registered_def by force
  have "presence s1 c = None" using q1 by simp
  then have "\<not> registered s1 c" by (simp add: presence_def split: if_splits)
  then have "leaked u (toLower u n) c (renamed u c n s1)"
    using q1 others by (intro leakedI) auto
  with leaked_cong [OF w2] have leak: "leaked u (toLower u n) c s2" by simp
  have "t = shutdown u c ''connection closed'' s2"
    using readLoop_lines [of "[q, l]" u c s] q(2) l(2) by (simp add: t_def s2_def s1_def plainLine_def)
  then have "t = s2" using leakedD(3) [OF leak] by (simp add: shutdown_def)
  moreover have "chat_safe u s2"
    using safe_readLine [OF safe known_client [OF safe]] c safe_readLine [of u s1 c] known_client [of u s1 c] q1
    by (simp add: s2_def s1_def)
  ultimately have end_leak: "leaked u (toLower u n) c (fold (chat_step u) es t)"
    using leaked_run leak later by (simp add: t_def)
  show ?thesis
    unfolding t_def [symmetric] Let_def using leakedD(1,2) [OF end_leak] cmdNick_refused by (simp add: presence_def)
qed

text \<open>C19. Two clients with one nick: after \<open>c\<close> has quit, \<open>d\<close> takes the nick \<open>c\<close> had; a \<open>/nick\<close> that is left in
  \<open>c\<close>'s buffer then deletes the entry of that nick, which is \<open>d\<close>'s by now, and \<open>e\<close> takes the nick too.\<close>

theorem late_rename_shares_nick:
  assumes inv: "chat_inv u s" and online: "registered s c" "registered s d" "registered s e"
    and ne: "c \<noteq> d" "c \<noteq> e" "d \<noteq> e"
    and q: "asks u q ''quit'' x" and lo: "asks u lo ''nick'' ao" and l: "asks u l ''nick'' an"
    and nicks: "sanitizeUserName u ao = Inr old" "toLower u old = toLower u (cl_name (clientAt s c))"
      "sanitizeUserName u an = Inr new" "\<not> taken u (presence s) new"
  shows "\<exists>k k'. presence (fold (chat_step u) [Line c q, Line d lo, Line c l, Line e lo] s) d = Some (old, k)
    \<and> presence (fold (chat_step u) [Line c q, Line d lo, Line c l, Line e lo] s) e = Some (old, k')"
proof -
  define s1 s2 s3 s4 where "s1 = readLine u c q s" and "s2 = readLine u d lo s1"
    and "s3 = readLine u c l s2" and "s4 = readLine u e lo s3"
  note reg = chat_invD(2) [OF inv]
  note q1 = quit_line [OF inv online(1) q, folded s1_def]
  note w1 = whoD [of s1 "forget u c (modClient c closeClient s)"]
  have on1: "registered s1 f" if "registered s f" "f \<noteq> c" for f
  proof -
    have "presence s1 f = presence s f" using q1 that(2) by simp
    with that(1) show ?thesis by (simp add: presence_def split: if_splits)
  qed
  have new_free: "map_of (srv_names s) (toLower u new) = None" using names_taken [OF inv] nicks(4) by simp
  have cn: "map_of (srv_names s) (toLower u old) = Some c"
    using reg_invD(4) [OF reg] online(1) nicks(2) unfolding registered_def by simp
  then have keys: "toLower u new \<noteq> toLower u old" using new_free by auto
  have n1: "map_of (srv_names s1) (toLower u old) = None" "map_of (srv_names s1) (toLower u new) = None"
    using w1(1) q1 nicks(2) new_free by simp_all
  note w2 = whoD [OF nick_line [OF lo nicks(1) n1(1), of d, folded s2_def]]
  have n2: "map_of (srv_names s2) (toLower u new) = None" using n1(2) keys by (simp add: w2(1))
  note w3 = whoD [OF nick_line [OF l nicks(3) n2, of c, folded s3_def]]
  have "toLower u (cl_name (clientAt s2 c)) = toLower u old"
    using ne(1) nicks(2) w1(4) q1 by (simp add: w2(4))
  then have n3: "map_of (srv_names s3) (toLower u old) = None" using keys by (simp add: w3(1))
  note w4 = whoD [OF nick_line [OF lo nicks(1) n3, of e, folded s4_def]]
  have once: "cl_once (clientAt s2 c)" using q1 ne(1) by (simp add: w2(5))
  have reg3: "registered s3 f" "registered s4 f" if "registered s1 f" for f
    using that by (simp_all add: w2(6) w3(6) w4(6))
  have "fold (chat_step u) [Line c q, Line d lo, Line c l, Line e lo] s = s4"
    using online on1 reg3 ne once by (simp add: chat_step_def s1_def s2_def s3_def s4_def)
  moreover have "cl_name (clientAt s4 d) = old" "cl_name (clientAt s4 e) = old"
    using ne by (simp_all add: w4(4) w3(4) w2(4))
  moreover have "registered s4 d" "registered s4 e" using reg3 on1 online ne by auto
  ultimately show ?thesis by (simp add: presence_def)
qed

text \<open>Three guests, of whom the first has taken a nick.\<close>

definition threeArrive :: "chat_event list" where
  "threeArrive = [Connect 0, Connect 0, Connect 0, Line 0 ''/nick alice'']"

definition threeGuests :: Server where
  "threeGuests = fold (chat_step ascii_unicode) threeArrive (NewServer DefaultConfig)"

lemma threeArrive_orderly: "orderly ascii_unicode threeArrive (NewServer DefaultConfig)"
  by code_simp

lemma threeGuests_inv: "chat_inv ascii_unicode threeGuests"
  unfolding threeGuests_def orderly_run [OF threeArrive_orderly] by (rule chat.inv_reach) blast

definition lookNames :: "Server \<Rightarrow> bool list \<times> string \<times> (string, cref) gomap" where
  "lookNames s = (map (registered s) [0, 1, 2], cl_name (clientAt s 0), srv_names s)"

lemma look_threeGuests:
  "lookNames threeGuests = ([True, True, True], ''alice'', [(''guest-0002'', 1), (''guest-0003'', 2), (''alice'', 0)])"
  by code_simp

lemmas threeGuests_facts = look_threeGuests [unfolded lookNames_def, simplified]

lemma sample_lines:
  "asks ascii_unicode ''/quit'' ''quit'' []" "asks ascii_unicode ''/nick ghost'' ''nick'' ''ghost''"
  "asks ascii_unicode ''/nick alice'' ''nick'' ''alice''" "plainLine ''/quit''" "plainLine ''/nick ghost''"
  "sanitizeUserName ascii_unicode ''ghost'' = Inr ''ghost''" "sanitizeUserName ascii_unicode ''alice'' = Inr ''alice''"
  "toLower ascii_unicode ''ghost'' = ''ghost''"
  by code_simp+

lemma ghost_free: "\<not> taken ascii_unicode (presence threeGuests) ''ghost''"
  using names_taken [OF threeGuests_inv, of "''ghost''"] sample_lines(8) threeGuests_facts by simp

definition afterwards :: "chat_event list" where
  "afterwards = [Line 1 ''/nick ghost'', Connect 5, Hangup 2]"

definition quitAndNick :: Server where
  "quitAndNick = readLoop ascii_unicode 0 (''/quit'' @ nl @ ''/nick ghost'' @ nl) threeGuests"

theorem late_rename_leaks_nick_witness:
  "presence (fold (chat_step ascii_unicode) afterwards quitAndNick) 0 = None
   \<and> map_of (srv_names (fold (chat_step ascii_unicode) afterwards quitAndNick)) ''ghost'' = Some 0"
proof -
  have later: "orderly ascii_unicode afterwards quitAndNick" by code_simp
  have online: "registered threeGuests 0" using threeGuests_facts by simp
  have free: "\<not> taken ascii_unicode ((presence threeGuests)(0 := None)) ''ghost''"
    using ghost_free unfolding taken_def by (auto split: if_splits)
  from late_rename_leaks_nick [OF threeGuests_def threeArrive_orderly online sample_lines(1,4,2,5,6) free
      later [unfolded quitAndNick_def]]
  show ?thesis by (simp add: Let_def quitAndNick_def sample_lines(8))
qed

theorem late_rename_shares_nick_witness:
  "\<exists>s k k'. presence s 1 = Some (''alice'', k) \<and> presence s 2 = Some (''alice'', k')"
proof -
  have online: "registered threeGuests 0" "registered threeGuests 1" "registered threeGuests 2"
    and name: "cl_name (clientAt threeGuests 0) = ''alice''"
    using threeGuests_facts by simp_all
  have "(0 :: cref) \<noteq> 1" "(0 :: cref) \<noteq> 2" "(1 :: cref) \<noteq> 2" by simp_all
  from late_rename_shares_nick [OF threeGuests_inv online this sample_lines(1,3,2,7) _ sample_lines(6) ghost_free]
  show ?thesis unfolding name by blast
qed

section \<open>A rename against a disconnection\<close>

text \<open>\<open>cmdNick\<close> exchanges the entries of the names under the server's lock and sets the client's name after it has
  released the lock. \<open>claimName\<close> is the first part; this is the second.\<close>

definition finishNick :: "unicode \<Rightarrow> cref \<Rightarrow> string \<Rightarrow> string \<Rightarrow> Server \<Rightarrow> Server" where
  "finishNick u c oldName name s =
     (let s = modClient c (setName name) s;
          s = sendSystem c (''You're now known as '' @ name) s
      in broadcastRoom (roomForClient c s) (oldName @ '' is now known as '' @ name) False (Some c) s)"

lemma cmdNick_parts:
  assumes "sanitizeUserName u args = Inr name" "claimName u c (nick s c) name s = Some s1"
  shows "cmdNick u c args s = finishNick u c (nick s c) name s1"
proof -
  have "trimSpace args \<noteq> []" using assms(1) by (auto simp: sanitizeUserName_Inr)
  with assms show ?thesis by (simp add: cmdNick_def finishNick_def Let_def)
qed

lemma who_finishNick: "who (finishNick u c old name s) = who (modClient c (setName name) s)"
  by (simp add: finishNick_def Let_def)

lemma finishNick_safe: "chat_safe u s \<Longrightarrow> chat_safe u (finishNick u c old name s)"
  unfolding finishNick_def Let_def by (intro safe_post safe_sendSystem safe_modClient) simp_all

text \<open>C22. A client whose idle timeout or failed write shuts it down between the two parts of its \<open>/nick\<close>: the shutdown
  frees the nick the client still carries, which is the old one, and the new one stays registered to
  the client that is gone; whatever comes afterwards, in order, nobody can take it.\<close>

theorem rename_races_shutdown:
  assumes s: "s = fold (chat_step u) earlier (NewServer g)" "orderly u earlier (NewServer g)" and c: "registered s c"
    and n: "sanitizeUserName u args = Inr n" and claim: "claimName u c (nick s c) n s = Some s1"
    and later: "orderly u es (finishNick u c (nick s c) n (shutdown u c r s1))"
  shows "let t = fold (chat_step u) es (finishNick u c (nick s c) n (shutdown u c r s1)) in
    \<not> registered t c \<and> map_of (srv_names t) (toLower u n) = Some c
    \<and> (\<forall>d args' m. sanitizeUserName u args' = Inr m \<longrightarrow> toLower u m = toLower u n \<longrightarrow>
         cmdNick u d args' t = sendSystem d ''That name is already taken.'' t)"
proof -
  have inv: "chat_inv u s" and safe: "chat_safe u s"
    using chat.inv_reach [of "NewServer g" u earlier] chat_any.inv_reach [of "NewServer g" u earlier]
    unfolding s(1) orderly_run [OF s(2)] by auto
  note reg = chat_invD(2) [OF inv]
  have free: "map_of (srv_names s) (toLower u n) = None"
    and s1: "s1 = s\<lparr>srv_names := AList.update (toLower u n) c (AList.delete (toLower u (cl_name (clientAt s c))) (srv_names s))\<rparr>"
    using claim by (auto simp: claimName_def nick_def DisplayName_def Client_Name_def split: option.splits)
  have own: "map_of (srv_names s) (toLower u (cl_name (clientAt s d))) = Some d" if "registered s d" for d
    using reg_invD(4) [OF reg] that unfolding registered_def by blast
  define s2 where "s2 = shutdown u c r s1"
  have "\<not> cl_once (clientAt s1 c)"
    using chat_invD(5) [OF inv] c unfolding live_inv_def registered_def s1 by auto
  then have "who s2 = who (forget u c (modClient c closeClient s1))" by (simp add: s2_def who_shutdown)
  note w2 = whoD [OF this]
  have c1: "c < nextClient s" using known_client [OF safe] c by blast
  then have "chat_safe u s1"
    using safe unfolding s1 by (auto simp: chat_safe_def regs_safe_def rooms_safe_def room_ok_def live_inv_def
        channels_inv_def sendCap_def split: if_splits)
  then have "chat_safe u s2" unfolding s2_def by (rule safe_shutdown) (use c1 in \<open>simp add: s1\<close>)
  note end_safe = finishNick_safe [OF this, of c "nick s c" n]
  have gone: "registered s d" "d \<noteq> c" if "registered s2 d" for d
  proof -
    have ci: "map_of (srv_clients s) (cl_id (clientAt s c)) = Some c" using c by (simp add: registered_def)
    from that show "registered s d" "d \<noteq> c"
      unfolding w2(6) using ci by (auto simp: registered_def s1 split: if_splits)
  qed
  have "leaked u (toLower u n) c (modClient c (setName n) s2)"
  proof (rule leakedI)
    have same: "registered (modClient c (setName n) s2) d = registered s2 d" for d by (simp add: registered_def)
    show "\<not> registered (modClient c (setName n) s2) c" using same gone(2) by blast
    show "toLower u (cl_name (clientAt (modClient c (setName n) s2) d)) \<noteq> toLower u n"
      if "registered (modClient c (setName n) s2) d" for d
    proof -
      note d = gone [OF that [unfolded same]]
      from d(2) have "cl_name (clientAt (modClient c (setName n) s2) d) = cl_name (clientAt s d)"
        by (simp add: w2(4) s1)
      with own [OF d(1)] free show ?thesis by auto
    qed
    show "map_of (srv_names (modClient c (setName n) s2)) (toLower u n) = Some c"
      using own [OF c] free by (auto simp: w2(1) s1)
    show "cl_once (clientAt (modClient c (setName n) s2) c)" by (simp add: w2(5))
  qed
  then have "leaked u (toLower u n) c (finishNick u c (nick s c) n s2)"
    using leaked_cong [OF who_finishNick] by simp
  from leaked_run [OF end_safe this] later
  have end_leak: "leaked u (toLower u n) c (fold (chat_step u) es (finishNick u c (nick s c) n s2))"
    unfolding s2_def by simp
  show ?thesis
    unfolding s2_def [symmetric] Let_def using leakedD(1,2) [OF end_leak] cmdNick_refused by simp
qed

theorem rename_races_shutdown_witness:
  "\<exists>t. \<not> registered t 0 \<and> map_of (srv_names t) ''ghost'' = Some 0
    \<and> cmdNick ascii_unicode 1 ''ghost'' t = sendSystem 1 ''That name is already taken.'' t"
proof -
  have online: "registered threeGuests 0" using threeGuests_facts by simp
  obtain s1 where claim: "claimName ascii_unicode 0 (nick threeGuests 0) ''ghost'' threeGuests = Some s1"
    using threeGuests_facts sample_lines(8) by (simp add: claimName_def)
  define t where "t = finishNick ascii_unicode 0 (nick threeGuests 0) ''ghost'' (shutdown ascii_unicode 0 ''idle timeout'' s1)"
  from rename_races_shutdown [OF threeGuests_def threeArrive_orderly online sample_lines(6) claim, of "[]" "''idle timeout''"]
  have "\<not> registered t 0" "map_of (srv_names t) ''ghost'' = Some 0"
    "cmdNick ascii_unicode 1 ''ghost'' t = sendSystem 1 ''That name is already taken.'' t"
    using sample_lines(6) by (simp_all add: Let_def sample_lines(8) t_def)
  then show ?thesis by blast
qed

section \<open>A message against a disconnection\<close>

text \<open>
  \<open>Send\<close> looks at \<open>done\<close> first and sends afterwards; \<open>shutdown\<close> closes \<open>done\<close> first and \<open>send\<close> afterwards.
  Nothing orders the four: the sender is at \<open>Look\<close>, at \<open>Put\<close> or through; the closer has still to close
  both channels, only \<open>send\<close>, or none. \<open>Panic\<close> ends the process.
\<close>

datatype sender = Look string | Put string | Through | Panic
datatype closer = CloseBoth | CloseSend | Closed

inductive race_step :: "nat \<Rightarrow> sender \<times> closer \<times> Client \<Rightarrow> sender \<times> closer \<times> Client \<Rightarrow> bool" for cap where
  look_open: "\<not> cl_done c \<Longrightarrow> race_step cap (Look m, k, c) (Put m, k, c)"
| look_done: "cl_done c \<Longrightarrow> race_step cap (Look m, k, c) (Through, k, c)"
| put_closed: "cl_sendClosed c \<Longrightarrow> race_step cap (Put m, k, c) (Panic, k, c)"
| put_room: "\<not> cl_sendClosed c \<Longrightarrow> length (cl_send c) < cap \<Longrightarrow>
    race_step cap (Put m, k, c) (Through, k, c\<lparr>cl_send := cl_send c @ [trimRightSet m [CHR 0x0D, CHR 0x0A]]\<rparr>)"
| put_full: "\<not> cl_sendClosed c \<Longrightarrow> cap \<le> length (cl_send c) \<Longrightarrow> race_step cap (Put m, k, c) (Through, k, c)"
| close_done: "a \<noteq> Panic \<Longrightarrow> race_step cap (a, CloseBoth, c) (a, CloseSend, c\<lparr>cl_done := True\<rparr>)"
| close_send: "a \<noteq> Panic \<Longrightarrow> race_step cap (a, CloseSend, c) (a, Closed, c\<lparr>cl_sendClosed := True\<rparr>)"

text \<open>The sender's two steps without interruption are \<open>Send\<close>.\<close>

lemma send_alone:
  "(race_step cap)\<^sup>*\<^sup>* (Look m, k, c)
     (case trySend cap m c of Some c' \<Rightarrow> (Through, k, c') | None \<Rightarrow> (Panic, k, c))"
proof (cases "cl_done c")
  case True
  then show ?thesis by (auto simp: trySend_def Let_def intro: look_done)
next
  case False
  then have "race_step cap (Look m, k, c) (Put m, k, c)" by (rule look_open)
  moreover have "race_step cap (Put m, k, c)
      (case trySend cap m c of Some c' \<Rightarrow> (Through, k, c') | None \<Rightarrow> (Panic, k, c))"
    using False by (auto simp: trySend_def Let_def not_less intro: put_closed put_room put_full)
  ultimately show ?thesis by (meson converse_rtranclp_into_rtranclp r_into_rtranclp)
qed

text \<open>A panic needs the closer to be through with both channels after the sender has looked.\<close>

definition race_inv :: "sender \<times> closer \<times> Client \<Rightarrow> bool" where
  "race_inv st = (case st of (a, k, c) \<Rightarrow>
     (cl_done c \<longleftrightarrow> k \<noteq> CloseBoth) \<and> (cl_sendClosed c \<longleftrightarrow> k = Closed) \<and> (a = Panic \<longrightarrow> k = Closed))"

lemma race_inv_step: "race_step cap st st' \<Longrightarrow> race_inv st \<Longrightarrow> race_inv st'"
  by (induction rule: race_step.induct) (auto simp: race_inv_def)

lemma race_inv_reach: "(race_step cap)\<^sup>*\<^sup>* st st' \<Longrightarrow> race_inv st \<Longrightarrow> race_inv st'"
  by (induction rule: rtranclp_induct) (auto intro: race_inv_step)

text \<open>C40. A message that is on its way to a client when the client is shut down can bring the server down:
  when both channels are closed between the look and the send, the send panics. Every panic is of
  this kind: both channels are closed by then.\<close>

theorem send_races_shutdown:
  assumes "openClient c"
  shows "(\<exists>c'. (race_step cap)\<^sup>*\<^sup>* (Look m, CloseBoth, c) (Panic, Closed, c'))
    \<and> (\<forall>k c'. (race_step cap)\<^sup>*\<^sup>* (Look m, CloseBoth, c) (Panic, k, c') \<longrightarrow>
        k = Closed \<and> cl_done c' \<and> cl_sendClosed c')"
proof
  let ?d = "c\<lparr>cl_done := True\<rparr>" and ?e = "c\<lparr>cl_done := True, cl_sendClosed := True\<rparr>"
  have "race_step cap (Put m, Closed, ?e) (Panic, Closed, ?e)" by (rule put_closed) simp
  then have run: "(race_step cap)\<^sup>*\<^sup>* (Put m, Closed, ?e) (Panic, Closed, ?e)" by (rule r_into_rtranclp)
  have "race_step cap (Put m, CloseSend, ?d) (Put m, Closed, ?e)"
    using close_send [of "Put m" cap ?d] by simp
  then have run: "(race_step cap)\<^sup>*\<^sup>* (Put m, CloseSend, ?d) (Panic, Closed, ?e)"
    using run by (rule converse_rtranclp_into_rtranclp)
  have "race_step cap (Put m, CloseBoth, c) (Put m, CloseSend, ?d)" by (rule close_done) simp
  then have run: "(race_step cap)\<^sup>*\<^sup>* (Put m, CloseBoth, c) (Panic, Closed, ?e)"
    using run by (rule converse_rtranclp_into_rtranclp)
  have "race_step cap (Look m, CloseBoth, c) (Put m, CloseBoth, c)"
    using assms by (intro look_open) (simp add: openClient_def)
  then have "(race_step cap)\<^sup>*\<^sup>* (Look m, CloseBoth, c) (Panic, Closed, ?e)"
    using run by (rule converse_rtranclp_into_rtranclp)
  then show "\<exists>c'. (race_step cap)\<^sup>*\<^sup>* (Look m, CloseBoth, c) (Panic, Closed, c')" ..
next
  have start: "race_inv (Look m, CloseBoth, c)" using assms by (simp add: race_inv_def openClient_def)
  show "\<forall>k c'. (race_step cap)\<^sup>*\<^sup>* (Look m, CloseBoth, c) (Panic, k, c') \<longrightarrow>
        k = Closed \<and> cl_done c' \<and> cl_sendClosed c'"
    using race_inv_reach [OF _ start] by (fastforce simp: race_inv_def)
qed

theorem send_races_shutdown_witness:
  "\<exists>c'. (race_step 1)\<^sup>*\<^sup>* (Look ''hi'', CloseBoth, newClient ''client-1'' ''ann'') (Panic, Closed, c')"
proof -
  have "openClient (newClient ''client-1'' ''ann'')" by (simp add: openClient_def newClient_def)
  from send_races_shutdown [OF this] show ?thesis by blast
qed

section \<open>A clean-up against a new room\<close>

text \<open>\<open>cleanupRoom\<close> deletes whatever room the map holds under the key of the empty room it was given: if
  that room has been replaced in the meantime, the new one goes, members or not.\<close>

theorem cleanup_deletes_by_key:
  assumes "room_members (roomAt s r) = []" "\<not> isLobby u s (roomAt s r)"
    and "map_of (srv_rooms s) (room_key (roomAt s r)) = Some new"
  shows "map_of (srv_rooms (cleanupRoom u (Some r) s)) (room_key (roomAt s r)) = None
    \<and> room_members (roomAt (cleanupRoom u (Some r) s) new) = room_members (roomAt s new)"
  using assms by (simp add: cleanupRoom_def Room_Key_def)

text \<open>
  How it comes about: client 0 moves from room go to the lobby, but before it cleans up, client 1, the
  last member, disconnects, so that the room goes, and client 2 makes the room anew. The clean-up
  that follows leaves client 2 in a room that is not there.
\<close>

definition staleCleanup :: "Server \<times> rref option" where
  "staleCleanup =
     (let s = fold (chat_step ascii_unicode)
            [Connect 0, Connect 0, Connect 0, Line 0 ''/join go'', Line 1 ''/join go''] (NewServer DefaultConfig)
      in case moveClientRoom ascii_unicode 0 ''lobby'' s of
           None \<Rightarrow> (s, None)
         | Some (s, room, previous, _) \<Rightarrow>
             (handleInput ascii_unicode 2 ''/join go'' (shutdown ascii_unicode 1 ''quit'' s), previous))"

definition lookRoom :: "Server \<times> rref option \<Rightarrow>
    (string \<times> nat \<times> bool) option \<times> rref option \<times> (string, cref) gomap list \<times> string" where
  "lookRoom p = (case p of (s, r) \<Rightarrow>
     (map_option (\<lambda>r. (room_key (roomAt s r), length (room_members (roomAt s r)), isLobby ascii_unicode s (roomAt s r))) r,
      map_of (srv_rooms s) ''go'', map (\<lambda>r. room_members (roomAt s r)) [1, 2], cl_roomKey (clientAt s 2)))"

theorem cleanup_deletes_by_key_witness:
  "\<exists>s r. staleCleanup = (s, Some r) \<and> map_of (srv_rooms (cleanupRoom ascii_unicode (Some r) s)) ''go'' = None
     \<and> room_members (roomAt (cleanupRoom ascii_unicode (Some r) s) 2) = [(''client-3'', 2)]
     \<and> cl_roomKey (clientAt s 2) = ''go''"
proof -
  obtain s p where sp: "staleCleanup = (s, p)" by (cases staleCleanup)
  have "lookRoom staleCleanup = (Some (''go'', 0, False), Some 2, [[], [(''client-3'', 2)]], ''go'')" by code_simp
  then obtain r where p: "p = Some r" and facts: "room_key (roomAt s r) = ''go''" "room_members (roomAt s r) = []"
      "\<not> isLobby ascii_unicode s (roomAt s r)" "map_of (srv_rooms s) ''go'' = Some 2"
      "room_members (roomAt s 2) = [(''client-3'', 2)]" "cl_roomKey (clientAt s 2) = ''go''"
    unfolding sp lookRoom_def by auto
  from cleanup_deletes_by_key [OF facts(2,3), of 2] facts show ?thesis unfolding sp p by auto
qed

end
