(* ===== verification/Chat_Listen.thy ===== *)
theory Chat_Listen
  imports Chat_Invariant
begin

text \<open>
  \<open>ListenAndServe\<close> of \<open>internal/chat/server.go\<close>: the accept loop, on the sequence of what happens while it
  runs -- the outcomes of \<open>Accept\<close>, the cancelling of the context, and the turns of the goroutines
  that serve the connections accepted before. The socket itself is what these events come from.
\<close>

datatype listen_event = Accepted int | AcceptTimeout | AcceptFailed | Cancelled | Meanwhile chat_event

datatype listen_state = Listening | Returned bool

text \<open>The server, the events the loop has not seen, and its state: \<open>Returned False\<close> is \<open>nil\<close>, \<open>Returned True\<close>
  an error. Closing the listener makes the pending \<open>Accept\<close> fail; one that has already succeeded is
  still served.\<close>

fun acceptLoop :: "unicode \<Rightarrow> bool \<Rightarrow> listen_event list \<Rightarrow> Server \<Rightarrow> Server \<times> listen_event list \<times> listen_state" where
  "acceptLoop u cancelled [] s = (s, [], Listening)"
| "acceptLoop u cancelled (Accepted now # es) s = acceptLoop u cancelled es (chat_step u (Connect now) s)"
| "acceptLoop u cancelled (AcceptTimeout # es) s =
     (if cancelled then (s, es, Returned False) else acceptLoop u cancelled es s)"
| "acceptLoop u cancelled (AcceptFailed # es) s =
     (if cancelled then (s, es, Returned False) else (s, es, Returned True))"
| "acceptLoop u cancelled (Cancelled # es) s = acceptLoop u True es s"
| "acceptLoop u cancelled (Meanwhile e # es) s = acceptLoop u cancelled es (chat_step u e s)"

definition ListenAndServe ::
  "unicode \<Rightarrow> bool \<Rightarrow> listen_event list \<Rightarrow> Server \<Rightarrow> Server \<times> listen_event list \<times> listen_state" where
  "ListenAndServe u listens es s = (if \<not> listens then (s, es, Returned True) else acceptLoop u False es s)"

lemma acceptLoop_run: "\<exists>evs. fst (acceptLoop u cancelled es s) = fold (chat_step u) evs s"
proof (induction u cancelled es s rule: acceptLoop.induct)
  case (2 u cancelled now es s)
  then obtain evs where "fst (acceptLoop u cancelled es (chat_step u (Connect now) s)) = fold (chat_step u) evs (chat_step u (Connect now) s)"
    by blast
  then show ?case by (intro exI [of _ "Connect now # evs"]) simp
next
  case (6 u cancelled e es s)
  then obtain evs where "fst (acceptLoop u cancelled es (chat_step u e s)) = fold (chat_step u) evs (chat_step u e s)"
    by blast
  then show ?case by (intro exI [of _ "e # evs"]) simp
qed (auto intro: exI [of _ "[]"])

text \<open>Whatever the listener does, the server it leaves is well formed and has not panicked.\<close>

lemma ListenAndServe_safe: "chat_safe u (fst (ListenAndServe u listens es (NewServer c)))"
proof -
  have "\<exists>evs. fst (ListenAndServe u listens es (NewServer c)) = fold (chat_step u) evs (NewServer c)"
    using acceptLoop_run [of u False es "NewServer c"] by (cases listens) (auto simp: ListenAndServe_def intro: exI [of _ "[]"])
  then obtain evs where "fst (ListenAndServe u listens es (NewServer c)) = fold (chat_step u) evs (NewServer c)" ..
  then show ?thesis using chat_any.inv_reach [of "NewServer c" u evs] by auto
qed

text \<open>The loop returns without an error only after the context was cancelled, and with one only when an
  accept failed for good before.\<close>

lemma acceptLoop_returns:
  assumes "acceptLoop u cancelled es s = (s', rest, Returned err)"
  shows "\<exists>pre x. es = pre @ x # rest \<and> (if err then x = AcceptFailed \<and> \<not> cancelled \<and> Cancelled \<notin> set pre
      else x \<in> {AcceptTimeout, AcceptFailed} \<and> (cancelled \<or> Cancelled \<in> set pre))"
  using assms
proof (induction u cancelled es s rule: acceptLoop.induct)
  case (2 u cancelled now es s)
  then obtain pre x where "es = pre @ x # rest \<and> (if err then x = AcceptFailed \<and> \<not> cancelled \<and> Cancelled \<notin> set pre
      else x \<in> {AcceptTimeout, AcceptFailed} \<and> (cancelled \<or> Cancelled \<in> set pre))" by auto
  then show ?case by (intro exI [of _ "Accepted now # pre"] exI [of _ x]) auto
next
  case (3 u cancelled es s)
  show ?case
  proof (cases cancelled)
    case False
    with 3 obtain pre x where "es = pre @ x # rest \<and> (if err then x = AcceptFailed \<and> \<not> cancelled \<and> Cancelled \<notin> set pre
      else x \<in> {AcceptTimeout, AcceptFailed} \<and> (cancelled \<or> Cancelled \<in> set pre))" by auto
    then show ?thesis by (intro exI [of _ "AcceptTimeout # pre"] exI [of _ x]) auto
  qed (use 3 in \<open>auto intro: exI [of _ "[]"]\<close>)
next
  case (5 u cancelled es s)
  then obtain pre x where "es = pre @ x # rest \<and> (if err then x = AcceptFailed \<and> \<not> True \<and> Cancelled \<notin> set pre
      else x \<in> {AcceptTimeout, AcceptFailed} \<and> (True \<or> Cancelled \<in> set pre))" by auto
  then show ?case by (intro exI [of _ "Cancelled # pre"] exI [of _ x]) (auto split: if_splits)
next
  case (6 u cancelled e es s)
  then obtain pre x where "es = pre @ x # rest \<and> (if err then x = AcceptFailed \<and> \<not> cancelled \<and> Cancelled \<notin> set pre
      else x \<in> {AcceptTimeout, AcceptFailed} \<and> (cancelled \<or> Cancelled \<in> set pre))" by auto
  then show ?case by (intro exI [of _ "Meanwhile e # pre"] exI [of _ x]) auto
qed (auto split: if_splits intro: exI [of _ "[]"])

end
