(* ===== verification/Store.thy ===== *)
theory Store
  imports Prelude Go_Strings "HOL-Library.Word"
begin

text \<open>
  The database behind the HTTP and WebSocket parts: \<open>internal/store/store.go\<close> and \<open>models.go\<close>, over the
  tables of \<open>db/migrations/001_init.sql\<close>.

  A table is the list of its rows, in the unspecified order PostgreSQL keeps them in; each function
  is its SQL statement on these lists, with the primary keys, unique columns and foreign keys that the
  migration declares checked where PostgreSQL checks them. What a statement takes from outside is an
  argument: the fresh \<open>uuid.New()\<close>, the transaction's \<open>now()\<close>, and (the record \<open>sql\<close>) how the
  database lower-cases text, orders it and which byte strings it accepts as text. A database that
  cannot be reached is \<open>st_up = False\<close>.
\<close>

type_synonym uuid = "128 word"

record sql =
  sql_lower :: "string \<Rightarrow> string"
  sql_le :: "string \<Rightarrow> string \<Rightarrow> bool"
  sql_text :: "string \<Rightarrow> bool"

datatype store_error = ErrNotFound | DbError

record User =
  user_ID :: uuid
  Email :: string
  Username :: string
  AvatarURL :: string
  user_CreatedAt :: int

record RoomRow =
  row_ID :: uuid
  row_Name :: string
  IsPrivate :: bool
  CreatedBy :: uuid
  row_CreatedAt :: int

record RoomMember =
  mem_RoomID :: uuid
  mem_UserID :: uuid
  Role :: string
  JoinedAt :: int
  LastReadAt :: int

record Message =
  msg_ID :: uuid
  msg_RoomID :: "uuid option"
  SenderID :: uuid
  RecipientID :: "uuid option"
  Body :: string
  AttachmentURL :: string
  MessageType :: string
  msg_CreatedAt :: int
  SenderName :: string
  SenderAvatar :: string

record Store =
  st_up :: bool
  st_users :: "(User \<times> string) list"
  st_rooms :: "RoomRow list"
  st_members :: "RoomMember list"
  st_messages :: "Message list"

section \<open>Rows by key\<close>

definition isUser :: "Store \<Rightarrow> uuid \<Rightarrow> bool" where
  "isUser st uid \<longleftrightarrow> uid \<in> (user_ID \<circ> fst) ` set (st_users st)"

definition isRoom :: "Store \<Rightarrow> uuid \<Rightarrow> bool" where
  "isRoom st rid \<longleftrightarrow> rid \<in> row_ID ` set (st_rooms st)"

definition isMember :: "Store \<Rightarrow> uuid \<Rightarrow> uuid \<Rightarrow> bool" where
  "isMember st rid uid \<longleftrightarrow> (rid, uid) \<in> (\<lambda>m. (mem_RoomID m, mem_UserID m)) ` set (st_members st)"

text \<open>\<open>QueryRow(...).Scan(...)\<close>: the first row, or \<open>pgx.ErrNoRows\<close>, which the functions turn into
  \<open>ErrNotFound\<close>.\<close>

definition firstRow :: "'a list \<Rightarrow> store_error + 'a" where
  "firstRow rows = (case rows of [] \<Rightarrow> Inl ErrNotFound | r # _ \<Rightarrow> Inr r)"

text \<open>\<open>limit n\<close>: PostgreSQL refuses a negative one.\<close>

definition limitRows :: "int \<Rightarrow> 'a list \<Rightarrow> store_error + 'a list" where
  "limitRows n rows = (if n < 0 then Inl DbError else Inr (take (nat n) rows))"

section \<open>Users\<close>

definition CreateUser ::
  "sql \<Rightarrow> uuid \<Rightarrow> int \<Rightarrow> string \<Rightarrow> string \<Rightarrow> string \<Rightarrow> string \<Rightarrow> Store \<Rightarrow> (store_error + User) \<times> Store" where
  "CreateUser q new now email username passwordHash avatarURL st =
     (let user = \<lparr>user_ID = new, Email = email, Username = username, AvatarURL = avatarURL, user_CreatedAt = now\<rparr>
      in if st_up st \<and> list_all (sql_text q) [email, username, passwordHash, avatarURL]
           \<and> \<not> isUser st new \<and> email \<notin> (Email \<circ> fst) ` set (st_users st)
           \<and> username \<notin> (Username \<circ> fst) ` set (st_users st)
         then (Inr user, st\<lparr>st_users := st_users st @ [(user, passwordHash)]\<rparr>)
         else (Inl DbError, st))"

definition GetUserByEmail :: "sql \<Rightarrow> string \<Rightarrow> Store \<Rightarrow> store_error + (User \<times> string)" where
  "GetUserByEmail q email st =
     (if \<not> st_up st \<or> \<not> sql_text q email then Inl DbError
      else firstRow (filter (\<lambda>(u, _). sql_lower q (Email u) = sql_lower q email) (st_users st)))"

definition GetUserByID :: "uuid \<Rightarrow> Store \<Rightarrow> store_error + User" where
  "GetUserByID uid st =
     (if \<not> st_up st then Inl DbError
      else firstRow (filter (\<lambda>u. user_ID u = uid) (map fst (st_users st))))"

definition GetUserByUsername :: "sql \<Rightarrow> string \<Rightarrow> Store \<Rightarrow> store_error + User" where
  "GetUserByUsername q username st =
     (if \<not> st_up st \<or> \<not> sql_text q username then Inl DbError
      else firstRow (filter (\<lambda>u. sql_lower q (Username u) = sql_lower q username) (map fst (st_users st))))"

text \<open>\<open>LIKE\<close>: \<open>%\<close> stands for any runes, \<open>_\<close> for one, a backslash quotes the next; \<open>ILIKE\<close> lower-cases
  both sides first.\<close>

fun likeMatch :: "rune list \<Rightarrow> rune list \<Rightarrow> bool" where
  "likeMatch [] s \<longleftrightarrow> s = []"
| "likeMatch (p # ps) s \<longleftrightarrow>
     (if p = 37 then likeMatch ps s \<or> (case s of [] \<Rightarrow> False | _ # s' \<Rightarrow> likeMatch (p # ps) s')
      else case s of
        [] \<Rightarrow> False
      | c # s' \<Rightarrow>
          if p = 95 then likeMatch ps s'
          else if p = 92 then (case ps of [] \<Rightarrow> False | p' # ps' \<Rightarrow> c = p' \<and> likeMatch ps' s')
          else c = p \<and> likeMatch ps s')"

definition ilike :: "sql \<Rightarrow> string \<Rightarrow> string \<Rightarrow> bool" where
  "ilike q s pat \<longleftrightarrow> likeMatch (runes (sql_lower q pat)) (runes (sql_lower q s))"

text \<open>\<open>order by\<close>: an insertion sort on a relation that the database gives; rows that compare equal stay in
  the table's order.\<close>

fun insertBy :: "('a \<Rightarrow> 'a \<Rightarrow> bool) \<Rightarrow> 'a \<Rightarrow> 'a list \<Rightarrow> 'a list" where
  "insertBy le x [] = [x]"
| "insertBy le x (y # ys) = (if le x y then x # y # ys else y # insertBy le x ys)"

definition orderBy :: "('a \<Rightarrow> 'a \<Rightarrow> bool) \<Rightarrow> 'a list \<Rightarrow> 'a list" where
  "orderBy le xs = foldr (insertBy le) xs []"

definition SearchUsers :: "sql \<Rightarrow> string \<Rightarrow> int \<Rightarrow> Store \<Rightarrow> store_error + User list" where
  "SearchUsers q query limit st =
     (let pat = ''%'' @ query @ ''%'' in
      if \<not> st_up st \<or> \<not> sql_text q pat then Inl DbError
      else limitRows limit (orderBy (\<lambda>a b. sql_le q (Username a) (Username b))
             (filter (\<lambda>u. ilike q (Username u) pat \<or> ilike q (Email u) pat) (map fst (st_users st)))))"

section \<open>Rooms\<close>

definition CreateRoom ::
  "sql \<Rightarrow> uuid \<Rightarrow> int \<Rightarrow> string \<Rightarrow> bool \<Rightarrow> uuid \<Rightarrow> Store \<Rightarrow> (store_error + RoomRow) \<times> Store" where
  "CreateRoom q new now name isPrivate createdBy st =
     (let room = \<lparr>row_ID = new, row_Name = name, IsPrivate = isPrivate, CreatedBy = createdBy, row_CreatedAt = now\<rparr>
      in if st_up st \<and> sql_text q name \<and> \<not> isRoom st new \<and> name \<notin> row_Name ` set (st_rooms st)
         then (Inr room, st\<lparr>st_rooms := st_rooms st @ [room]\<rparr>)
         else (Inl DbError, st))"

definition ListRooms :: "uuid \<Rightarrow> Store \<Rightarrow> store_error + RoomRow list" where
  "ListRooms userID st =
     (if \<not> st_up st then Inl DbError
      else Inr (orderBy (\<lambda>a b. row_CreatedAt b \<le> row_CreatedAt a)
             (filter (\<lambda>r. \<not> IsPrivate r \<or> isMember st (row_ID r) userID) (st_rooms st))))"

definition GetRoom :: "uuid \<Rightarrow> Store \<Rightarrow> store_error + RoomRow" where
  "GetRoom roomID st =
     (if \<not> st_up st then Inl DbError else firstRow (filter (\<lambda>r. row_ID r = roomID) (st_rooms st)))"

definition AddRoomMember ::
  "sql \<Rightarrow> int \<Rightarrow> uuid \<Rightarrow> uuid \<Rightarrow> string \<Rightarrow> Store \<Rightarrow> store_error option \<times> Store" where
  "AddRoomMember q now roomID userID role st =
     (if \<not> st_up st \<or> \<not> sql_text q role then (Some DbError, st)
      else if isMember st roomID userID then (None, st)
      else if isRoom st roomID \<and> isUser st userID
      then (None, st\<lparr>st_members := st_members st @
              [\<lparr>mem_RoomID = roomID, mem_UserID = userID, Role = role, JoinedAt = now, LastReadAt = now\<rparr>]\<rparr>)
      else (Some DbError, st))"

definition RemoveRoomMember :: "uuid \<Rightarrow> uuid \<Rightarrow> Store \<Rightarrow> store_error option \<times> Store" where
  "RemoveRoomMember roomID userID st =
     (if \<not> st_up st then (Some DbError, st)
      else (None, st\<lparr>st_members :=
              filter (\<lambda>m. \<not> (mem_RoomID m = roomID \<and> mem_UserID m = userID)) (st_members st)\<rparr>))"

definition IsRoomMember :: "uuid \<Rightarrow> uuid \<Rightarrow> Store \<Rightarrow> store_error + bool" where
  "IsRoomMember roomID userID st =
     (if \<not> st_up st then Inl DbError else Inr (isMember st roomID userID))"

definition UpdateRoomReadAt :: "uuid \<Rightarrow> uuid \<Rightarrow> int \<Rightarrow> Store \<Rightarrow> store_error option \<times> Store" where
  "UpdateRoomReadAt roomID userID readAt st =
     (if \<not> st_up st then (Some DbError, st)
      else (None, st\<lparr>st_members :=
              map (\<lambda>m. if mem_RoomID m = roomID \<and> mem_UserID m = userID then m\<lparr>LastReadAt := readAt\<rparr> else m)
                (st_members st)\<rparr>))"

text \<open>Other than its name says, the default room gets a creator that is no user.\<close>

definition EnsureDefaultRoom :: "sql \<Rightarrow> uuid \<Rightarrow> uuid \<Rightarrow> int \<Rightarrow> Store \<Rightarrow> (store_error + RoomRow) \<times> Store" where
  "EnsureDefaultRoom q new creator now st =
     (if \<not> st_up st then (Inl DbError, st)
      else case firstRow (filter (\<lambda>r. sql_lower q (row_Name r) = sql_lower q ''general'') (st_rooms st)) of
        Inr room \<Rightarrow> (Inr room, st)
      | Inl _ \<Rightarrow>
          (case CreateRoom q new now ''general'' False creator st of
             (Inl e, st) \<Rightarrow> (Inl e, st)
           | (Inr _, st) \<Rightarrow> (GetRoom new st, st)))"

section \<open>Messages\<close>

definition MessageTypeText :: string where
  "MessageTypeText = ''text''"

definition CreateMessage ::
  "sql \<Rightarrow> uuid \<Rightarrow> int \<Rightarrow> uuid option \<Rightarrow> uuid \<Rightarrow> uuid option \<Rightarrow> string \<Rightarrow> string \<Rightarrow> string \<Rightarrow> Store
   \<Rightarrow> (store_error + Message) \<times> Store" where
  "CreateMessage q new now roomID senderID recipientID body attachmentURL messageType st =
     (let msg = \<lparr>msg_ID = new, msg_RoomID = roomID, SenderID = senderID, RecipientID = recipientID, Body = body,
            AttachmentURL = attachmentURL, MessageType = messageType, msg_CreatedAt = now,
            SenderName = [], SenderAvatar = []\<rparr>
      in if st_up st \<and> list_all (sql_text q) [body, attachmentURL, messageType]
           \<and> new \<notin> msg_ID ` set (st_messages st)
           \<and> (case roomID of None \<Rightarrow> True | Some r \<Rightarrow> isRoom st r) \<and> isUser st senderID
           \<and> (case recipientID of None \<Rightarrow> True | Some r \<Rightarrow> isUser st r)
         then (Inr msg, st\<lparr>st_messages := st_messages st @ [msg]\<rparr>)
         else (Inl DbError, st))"

text \<open>\<open>join users u on u.id = m.sender_id\<close>: the message with its sender's name and avatar, once for each
  such user.\<close>

definition joinSender :: "Store \<Rightarrow> Message list \<Rightarrow> Message list" where
  "joinSender st ms =
     concat (map (\<lambda>m. map (\<lambda>u. m\<lparr>SenderName := Username u, SenderAvatar := User.AvatarURL u\<rparr>)
       (filter (\<lambda>u. user_ID u = SenderID m) (map fst (st_users st)))) ms)"

definition newestFirst :: "Message \<Rightarrow> Message \<Rightarrow> bool" where
  "newestFirst a b \<longleftrightarrow> msg_CreatedAt b \<le> msg_CreatedAt a"

text \<open>The rows of a query: each goes into a struct or fails to; \<open>err\<close> is \<open>rows.Err()\<close> after the last one.
  \<open>out\<close> holds the messages so far.\<close>

fun scanMessages :: "Message list \<Rightarrow> Message option list \<Rightarrow> bool \<Rightarrow> store_error + Message list" where
  "scanMessages out [] err = (if err then Inl DbError else Inr out)"
| "scanMessages out (None # rows) err = Inl DbError"
| "scanMessages out (Some msg # rows) err = scanMessages (out @ [msg]) rows err"

text \<open>A query that was answered delivers all of its rows.\<close>

definition queryRows :: "store_error + Message list \<Rightarrow> store_error + Message list" where
  "queryRows result = (case result of Inl e \<Rightarrow> Inl e | Inr rows \<Rightarrow> scanMessages [] (map Some rows) False)"

lemma scanMessages_all: "scanMessages out (map Some rows) False = Inr (out @ rows)"
  by (induction rows arbitrary: out) auto

lemma queryRows_all [simp]: "queryRows result = result"
  by (simp add: queryRows_def scanMessages_all split: sum.split)

definition ListRoomMessages :: "uuid \<Rightarrow> int \<Rightarrow> int \<Rightarrow> Store \<Rightarrow> store_error + Message list" where
  "ListRoomMessages roomID limit before st =
     (let limit = (if limit \<le> 0 then 50 else limit) in
      if \<not> st_up st then Inl DbError
      else queryRows (limitRows limit (orderBy newestFirst (joinSender st
             (filter (\<lambda>m. msg_RoomID m = Some roomID \<and> msg_CreatedAt m < before) (st_messages st))))))"

definition ListDMs :: "uuid \<Rightarrow> uuid \<Rightarrow> int \<Rightarrow> int \<Rightarrow> Store \<Rightarrow> store_error + Message list" where
  "ListDMs userA userB limit before st =
     (let limit = (if limit \<le> 0 then 50 else limit) in
      if \<not> st_up st then Inl DbError
      else queryRows (limitRows limit (orderBy newestFirst (joinSender st
             (filter (\<lambda>m. msg_RoomID m = None
                 \<and> (SenderID m = userA \<and> RecipientID m = Some userB
                    \<or> SenderID m = userB \<and> RecipientID m = Some userA)
                 \<and> msg_CreatedAt m < before) (st_messages st))))))"

definition Health :: "Store \<Rightarrow> bool" where
  "Health st = st_up st"

end
