(* ===== verification/Ws_Hub.thy ===== *)
theory Ws_Hub
  imports Store
begin

text \<open>
  The WebSocket part, \<open>internal/ws\<close>: the messages of \<open>messages.go\<close>, the connections of \<open>conn.go\<close> and the
  hub of \<open>hub.go\<close>.

  The state is the hub's maps, its \<open>broadcast\<close> channel, the store, and the heap of connections: a
  \<open>*Conn\<close> is a reference \<open>connref\<close>. A map to \<open>bool\<close> whose values are all \<open>true\<close> is the list of its
  keys. Each goroutine's turn is one function: the hub's receive from a channel with what it does,
  one client message with its handler, one turn of a write loop. A handler's send to \<open>broadcast\<close> may
  block, so it leaves what it has to send in \<open>conn_pending\<close>, from which \<open>push\<close> moves it when there is
  room; the connection's reader waits as long as something is pending. The unbuffered \<open>register\<close> and
  \<open>unregister\<close> channels hand over at once. \<open>uuid.Parse\<close> is an argument, and so are the fresh ids and
  the clock. \<open>ServeWS\<close>'s authentication is in Http\_Auth; the JSON of events in Http\_Wire; the upgrade is not modelled.
\<close>

section \<open>Messages\<close>

record MessagePayload =
  pay_ID :: uuid
  pay_RoomID :: "uuid option"
  pay_SenderID :: uuid
  pay_SenderName :: string
  pay_SenderAvatar :: string
  pay_RecipientID :: "uuid option"
  pay_Body :: string
  pay_AttachmentURL :: string
  pay_MessageType :: string
  pay_CreatedAt :: int

record PresencePayload =
  pres_UserID :: uuid
  Online :: bool
  LastSeen :: int

record TypingPayload =
  typ_RoomID :: "uuid option"
  typ_RecipientID :: "uuid option"
  typ_UserID :: uuid
  typ_IsTyping :: bool

record RoomJoinPayload =
  join_RoomID :: uuid
  join_UserID :: uuid

datatype EventData =
    ErrorData string
  | RoomJoinData RoomJoinPayload
  | MessageData MessagePayload
  | PresenceData PresencePayload
  | TypingData TypingPayload

record Event =
  ev_Type :: string
  ev_Data :: EventData

record ClientEvent =
  ce_Type :: string
  ce_RoomID :: string
  ce_RecipientID :: string
  ce_Body :: string
  ce_AttachmentURL :: string
  ce_IsTyping :: bool

type_synonym connref = nat

record outboundMessage =
  out_roomID :: "uuid option"
  out_userID :: "uuid option"
  out_event :: Event
  out_exclude :: "connref option"

section \<open>State\<close>

record Conn =
  conn_user :: User
  conn_send :: "Event list"
  conn_rooms :: "uuid list"
  conn_pending :: "outboundMessage list"
  conn_reading :: bool
  conn_writing :: bool
  conn_open :: bool

record Hub =
  hub_store :: Store
  hub_broadcast :: "outboundMessage list"
  hub_users :: "(uuid, connref list) gomap"
  hub_rooms :: "(uuid, connref list) gomap"
  connAt :: "connref \<Rightarrow> Conn"
  nextConn :: connref

definition NewConn :: "User \<Rightarrow> Conn" where
  "NewConn user = \<lparr>conn_user = user, conn_send = [], conn_rooms = [], conn_pending = [],
     conn_reading = True, conn_writing = True, conn_open = True\<rparr>"

definition nilConn :: Conn where
  "nilConn = (NewConn \<lparr>user_ID = 0, Email = [], Username = [], AvatarURL = [], user_CreatedAt = 0\<rparr>)
     \<lparr>conn_reading := False, conn_writing := False, conn_open := False\<rparr>"

definition NewHub :: "Store \<Rightarrow> Hub" where
  "NewHub store = \<lparr>hub_store = store, hub_broadcast = [], hub_users = [], hub_rooms = [],
     connAt = (\<lambda>_. nilConn), nextConn = 0\<rparr>"

definition sendBuffer :: nat where
  "sendBuffer = 64"

definition broadcastBuffer :: nat where
  "broadcastBuffer = 128"

definition modConn :: "connref \<Rightarrow> (Conn \<Rightarrow> Conn) \<Rightarrow> Hub \<Rightarrow> Hub" where
  "modConn c f h = h\<lparr>connAt := (connAt h)(c := f (connAt h c))\<rparr>"

definition enqueue :: "Event \<Rightarrow> Conn \<Rightarrow> Conn" where
  "enqueue event c =
     (if length (conn_send c) < sendBuffer then c\<lparr>conn_send := conn_send c @ [event]\<rparr> else c)"

definition enqueueTo :: "connref \<Rightarrow> Event \<Rightarrow> Hub \<Rightarrow> Hub" where
  "enqueueTo c event = modConn c (enqueue event)"

definition userOf :: "Hub \<Rightarrow> connref \<Rightarrow> uuid" where
  "userOf h c = user_ID (conn_user (connAt h c))"

definition connsOf :: "(uuid, connref list) gomap \<Rightarrow> uuid \<Rightarrow> connref list" where
  "connsOf m k = (case map_of m k of None \<Rightarrow> [] | Some cs \<Rightarrow> cs)"

section \<open>The hub\<close>

definition allConnectionsLocked :: "Hub \<Rightarrow> connref list" where
  "allConnectionsLocked h = remdups (concat (map snd (hub_users h)))"

definition broadcastPresenceLocked :: "int \<Rightarrow> uuid \<Rightarrow> bool \<Rightarrow> Hub \<Rightarrow> Hub" where
  "broadcastPresenceLocked now userID online h =
     (let data = \<lparr>ev_Type = ''presence'', ev_Data = PresenceData
                   \<lparr>pres_UserID = userID, Online = online, LastSeen = now\<rparr>\<rparr>
      in fold (\<lambda>conn. enqueueTo conn data) (allConnectionsLocked h) h)"

definition addConn :: "int \<Rightarrow> connref \<Rightarrow> Hub \<Rightarrow> Hub" where
  "addConn now c h =
     (let userID = userOf h c;
          conns = connsOf (hub_users h) userID
      in broadcastPresenceLocked now userID True
           (h\<lparr>hub_users := AList.update userID (List.insert c conns) (hub_users h)\<rparr>))"

text \<open>The loop over the rooms deletes from the map it ranges over.\<close>

definition dropFromRooms :: "connref \<Rightarrow> (uuid, connref list) gomap \<Rightarrow> (uuid, connref list) gomap" where
  "dropFromRooms c m =
     concat (map (\<lambda>(roomID, conns).
       if c \<in> set conns
       then (let conns = removeAll c conns in if conns = [] then [] else [(roomID, conns)])
       else [(roomID, conns)]) m)"

definition removeConn :: "int \<Rightarrow> connref \<Rightarrow> Hub \<Rightarrow> Hub" where
  "removeConn now c h =
     (let userID = userOf h c;
          h = (case map_of (hub_users h) userID of
                 None \<Rightarrow> h
               | Some conns \<Rightarrow>
                   let conns = removeAll c conns
                   in if conns = []
                      then broadcastPresenceLocked now userID False
                             (h\<lparr>hub_users := AList.delete userID (hub_users h)\<rparr>)
                      else h\<lparr>hub_users := AList.update userID conns (hub_users h)\<rparr>)
      in h\<lparr>hub_rooms := dropFromRooms c (hub_rooms h)\<rparr>)"

definition hub_send :: "outboundMessage \<Rightarrow> Hub \<Rightarrow> Hub" where
  "hub_send msg h =
     (let to = (\<lambda>conns. fold (\<lambda>conn h. if out_exclude msg = Some conn then h
                  else enqueueTo conn (out_event msg) h) conns h)
      in case out_roomID msg of
           Some r \<Rightarrow> to (connsOf (hub_rooms h) r)
         | None \<Rightarrow> (case out_userID msg of Some uid \<Rightarrow> to (connsOf (hub_users h) uid) | None \<Rightarrow> h))"

definition SubscribeRoom :: "uuid \<Rightarrow> connref \<Rightarrow> Hub \<Rightarrow> Hub" where
  "SubscribeRoom roomID c h =
     h\<lparr>hub_rooms := AList.update roomID (List.insert c (connsOf (hub_rooms h) roomID)) (hub_rooms h)\<rparr>"

definition UnsubscribeRoom :: "uuid \<Rightarrow> connref \<Rightarrow> Hub \<Rightarrow> Hub" where
  "UnsubscribeRoom roomID c h =
     (case map_of (hub_rooms h) roomID of
        None \<Rightarrow> h
      | Some conns \<Rightarrow>
          let conns = removeAll c conns
          in h\<lparr>hub_rooms := (if conns = [] then AList.delete roomID (hub_rooms h)
                             else AList.update roomID conns (hub_rooms h))\<rparr>)"

section \<open>What a client's message does\<close>

record wsenv =
  ws_sql :: sql
  parseUUID :: "string \<Rightarrow> uuid option"

definition errorEvent :: "string \<Rightarrow> Event" where
  "errorEvent m = \<lparr>ev_Type = ''error'', ev_Data = ErrorData m\<rparr>"

definition ws_broadcastRoom :: "connref \<Rightarrow> uuid \<Rightarrow> Event \<Rightarrow> connref option \<Rightarrow> Hub \<Rightarrow> Hub" where
  "ws_broadcastRoom c roomID event exclude =
     modConn c (\<lambda>cn. cn\<lparr>conn_pending := conn_pending cn @
       [\<lparr>out_roomID = Some roomID, out_userID = None, out_event = event, out_exclude = exclude\<rparr>]\<rparr>)"

definition ws_broadcastUser :: "connref \<Rightarrow> uuid \<Rightarrow> Event \<Rightarrow> connref option \<Rightarrow> Hub \<Rightarrow> Hub" where
  "ws_broadcastUser c userID event exclude =
     modConn c (\<lambda>cn. cn\<lparr>conn_pending := conn_pending cn @
       [\<lparr>out_roomID = None, out_userID = Some userID, out_event = event, out_exclude = exclude\<rparr>]\<rparr>)"

definition ws_joinRoom :: "wsenv \<Rightarrow> int \<Rightarrow> connref \<Rightarrow> string \<Rightarrow> Hub \<Rightarrow> Hub" where
  "ws_joinRoom e now c roomID h =
     (case parseUUID e roomID of
        None \<Rightarrow> enqueueTo c (errorEvent ''invalid room'') h
      | Some parsed \<Rightarrow>
          let h = h\<lparr>hub_store := snd (AddRoomMember (ws_sql e) now parsed (userOf h c) ''member'' (hub_store h))\<rparr>;
              h = SubscribeRoom parsed c h;
              h = modConn c (\<lambda>cn. cn\<lparr>conn_rooms := List.insert parsed (conn_rooms cn)\<rparr>) h
          in enqueueTo c \<lparr>ev_Type = ''room_joined'', ev_Data = RoomJoinData
               \<lparr>join_RoomID = parsed, join_UserID = userOf h c\<rparr>\<rparr> h)"

definition ws_leaveRoom :: "wsenv \<Rightarrow> connref \<Rightarrow> string \<Rightarrow> Hub \<Rightarrow> Hub" where
  "ws_leaveRoom e c roomID h =
     (case parseUUID e roomID of
        None \<Rightarrow> h
      | Some parsed \<Rightarrow>
          let h = h\<lparr>hub_store := snd (RemoveRoomMember parsed (userOf h c) (hub_store h))\<rparr>;
              h = modConn c (\<lambda>cn. cn\<lparr>conn_rooms := removeAll parsed (conn_rooms cn)\<rparr>) h
          in UnsubscribeRoom parsed c h)"

definition payloadOf :: "User \<Rightarrow> uuid option \<Rightarrow> uuid option \<Rightarrow> Message \<Rightarrow> MessagePayload" where
  "payloadOf user roomID recipientID message =
     \<lparr>pay_ID = msg_ID message, pay_RoomID = roomID, pay_SenderID = user_ID user, pay_SenderName = Username user,
      pay_SenderAvatar = User.AvatarURL user, pay_RecipientID = recipientID, pay_Body = Body message,
      pay_AttachmentURL = AttachmentURL message, pay_MessageType = MessageType message,
      pay_CreatedAt = msg_CreatedAt message\<rparr>"

definition messageEvent :: "MessagePayload \<Rightarrow> Event" where
  "messageEvent p = \<lparr>ev_Type = ''message'', ev_Data = MessageData p\<rparr>"

definition sendRoomMessage :: "wsenv \<Rightarrow> uuid \<Rightarrow> int \<Rightarrow> connref \<Rightarrow> ClientEvent \<Rightarrow> string \<Rightarrow> Hub \<Rightarrow> Hub" where
  "sendRoomMessage e new now c msg body h =
     (case parseUUID e (ce_RoomID msg) of
        None \<Rightarrow> h
      | Some roomID \<Rightarrow>
          (case IsRoomMember roomID (userOf h c) (hub_store h) of
             Inr True \<Rightarrow>
               (case CreateMessage (ws_sql e) new now (Some roomID) (userOf h c) None body (ce_AttachmentURL msg)
                       MessageTypeText (hub_store h) of
                  (Inl _, st) \<Rightarrow> h\<lparr>hub_store := st\<rparr>
                | (Inr message, st) \<Rightarrow>
                    ws_broadcastRoom c roomID
                      (messageEvent (payloadOf (conn_user (connAt h c)) (Some roomID) None message)) None
                      (h\<lparr>hub_store := st\<rparr>))
           | _ \<Rightarrow> enqueueTo c (errorEvent ''not a member'') h))"

definition sendDMMessage :: "wsenv \<Rightarrow> uuid \<Rightarrow> int \<Rightarrow> connref \<Rightarrow> ClientEvent \<Rightarrow> string \<Rightarrow> Hub \<Rightarrow> Hub" where
  "sendDMMessage e new now c msg body h =
     (case parseUUID e (ce_RecipientID msg) of
        None \<Rightarrow> h
      | Some recipientID \<Rightarrow>
          (case CreateMessage (ws_sql e) new now None (userOf h c) (Some recipientID) body (ce_AttachmentURL msg)
                  MessageTypeText (hub_store h) of
             (Inl _, st) \<Rightarrow> h\<lparr>hub_store := st\<rparr>
           | (Inr message, st) \<Rightarrow>
               let event = messageEvent (payloadOf (conn_user (connAt h c)) None (Some recipientID) message)
               in ws_broadcastUser c (userOf h c) event None
                    (ws_broadcastUser c recipientID event None (h\<lparr>hub_store := st\<rparr>))))"

definition handleMessage :: "wsenv \<Rightarrow> uuid \<Rightarrow> int \<Rightarrow> connref \<Rightarrow> ClientEvent \<Rightarrow> Hub \<Rightarrow> Hub" where
  "handleMessage e new now c msg h =
     (let body = trimSpace (ce_Body msg) in
      if body = [] \<and> ce_AttachmentURL msg = [] then h
      else if ce_RoomID msg \<noteq> [] then sendRoomMessage e new now c msg body h
      else if ce_RecipientID msg \<noteq> [] then sendDMMessage e new now c msg body h
      else h)"

definition handleTyping :: "wsenv \<Rightarrow> connref \<Rightarrow> ClientEvent \<Rightarrow> Hub \<Rightarrow> Hub" where
  "handleTyping e c msg h =
     (let payload = \<lparr>typ_RoomID = None, typ_RecipientID = None, typ_UserID = userOf h c,
                     typ_IsTyping = ce_IsTyping msg\<rparr>;
          event = (\<lambda>p. \<lparr>ev_Type = ''typing'', ev_Data = TypingData p\<rparr>)
      in if ce_RoomID msg \<noteq> []
         then (case parseUUID e (ce_RoomID msg) of
                 None \<Rightarrow> h
               | Some roomID \<Rightarrow>
                   ws_broadcastRoom c roomID (event (payload\<lparr>typ_RoomID := Some roomID\<rparr>)) (Some c) h)
         else if ce_RecipientID msg \<noteq> []
         then (case parseUUID e (ce_RecipientID msg) of
                 None \<Rightarrow> h
               | Some recipientID \<Rightarrow>
                   ws_broadcastUser c recipientID (event (payload\<lparr>typ_RecipientID := Some recipientID\<rparr>)) (Some c) h)
         else h)"

definition handleRead :: "wsenv \<Rightarrow> int \<Rightarrow> connref \<Rightarrow> ClientEvent \<Rightarrow> Hub \<Rightarrow> Hub" where
  "handleRead e now c msg h =
     (if ce_RoomID msg = [] then h
      else case parseUUID e (ce_RoomID msg) of
        None \<Rightarrow> h
      | Some roomID \<Rightarrow> h\<lparr>hub_store := snd (UpdateRoomReadAt roomID (userOf h c) now (hub_store h))\<rparr>)"

definition handleClientEvent :: "wsenv \<Rightarrow> uuid \<Rightarrow> int \<Rightarrow> connref \<Rightarrow> ClientEvent \<Rightarrow> Hub \<Rightarrow> Hub" where
  "handleClientEvent e new now c msg h =
     (if ce_Type msg = ''join_room'' then ws_joinRoom e now c (ce_RoomID msg) h
      else if ce_Type msg = ''leave_room'' then ws_leaveRoom e c (ce_RoomID msg) h
      else if ce_Type msg = ''message'' then handleMessage e new now c msg h
      else if ce_Type msg = ''typing'' then handleTyping e c msg h
      else if ce_Type msg = ''read'' then handleRead e now c msg h
      else h)"

section \<open>Turns of the goroutines\<close>

text \<open>\<open>ServeWS\<close> for an authenticated user, up to the read loop, and \<open>Run\<close>'s first case.\<close>

definition accept :: "int \<Rightarrow> User \<Rightarrow> Hub \<Rightarrow> Hub" where
  "accept now user h =
     addConn now (nextConn h) (h\<lparr>connAt := (connAt h)(nextConn h := NewConn user), nextConn := Suc (nextConn h)\<rparr>)"

text \<open>A message read by \<open>readLoop\<close>, and its end: the deferred function. On a closed socket \<open>ReadJSON\<close> fails;
  frames that the socket library has buffered when \<open>writeLoop\<close> closes the socket are taken to be lost, though
  it would still hand them on.\<close>

definition ws_readLoop :: "wsenv \<Rightarrow> uuid \<Rightarrow> int \<Rightarrow> connref \<Rightarrow> ClientEvent option \<Rightarrow> Hub \<Rightarrow> Hub" where
  "ws_readLoop e new now c msg h =
     (if \<not> conn_reading (connAt h c) \<or> conn_pending (connAt h c) \<noteq> [] then h
      else case (if conn_open (connAt h c) then msg else None) of
        Some m \<Rightarrow> handleClientEvent e new now c m h
      | None \<Rightarrow> modConn c (\<lambda>cn. cn\<lparr>conn_reading := False, conn_open := False\<rparr>) (removeConn now c h))"

text \<open>A blocked send to \<open>broadcast\<close> that goes through.\<close>

definition push :: "connref \<Rightarrow> Hub \<Rightarrow> Hub" where
  "push c h =
     (case conn_pending (connAt h c) of
        [] \<Rightarrow> h
      | m # ms \<Rightarrow>
          if length (hub_broadcast h) < broadcastBuffer
          then modConn c (\<lambda>cn. cn\<lparr>conn_pending := ms\<rparr>) (h\<lparr>hub_broadcast := hub_broadcast h @ [m]\<rparr>)
          else h)"

text \<open>\<open>Run\<close>'s third case.\<close>

definition deliver :: "Hub \<Rightarrow> Hub" where
  "deliver h =
     (case hub_broadcast h of [] \<Rightarrow> h | m # ms \<Rightarrow> hub_send m (h\<lparr>hub_broadcast := ms\<rparr>))"

text \<open>A turn of \<open>writeLoop\<close>; \<open>ok\<close> says whether \<open>WriteJSON\<close> succeeds on an open socket. Nothing closes the
  channel it ranges over.\<close>

definition ws_writeLoop :: "bool \<Rightarrow> Conn \<Rightarrow> Conn" where
  "ws_writeLoop ok c =
     (case conn_send c of
        [] \<Rightarrow> c
      | _ # rest \<Rightarrow>
          if \<not> conn_writing c then c
          else if conn_open c \<and> ok then c\<lparr>conn_send := rest\<rparr>
          else c\<lparr>conn_send := rest, conn_writing := False, conn_open := False\<rparr>)"

datatype hub_event =
    Accept int User
  | Read connref uuid int "ClientEvent option"
  | Push connref
  | Deliver
  | Write connref bool

fun hub_step :: "wsenv \<Rightarrow> hub_event \<Rightarrow> Hub \<Rightarrow> Hub" where
  "hub_step e (Accept now user) h = accept now user h"
| "hub_step e (Read c new now msg) h = ws_readLoop e new now c msg h"
| "hub_step e (Push c) h = push c h"
| "hub_step e Deliver h = deliver h"
| "hub_step e (Write c ok) h = modConn c (ws_writeLoop ok) h"

end
