(* ===== verification/Ws_Invariant.thy ===== *)
theory Ws_Invariant
  imports Ws_Hub
begin

text \<open>
  The invariant of the hub: its two maps of connection sets hold exactly what the connections
  themselves know, and every buffer keeps its bound. First the maps of sets on their own, then the
  effect of every turn on them.
\<close>

section \<open>Maps of connection sets\<close>

text \<open>\<open>m\<close> holds the relation \<open>P\<close>, with no empty set and no duplicates.\<close>

definition holds :: "(uuid, connref list) gomap \<Rightarrow> (uuid \<Rightarrow> connref \<Rightarrow> bool) \<Rightarrow> bool" where
  "holds m P \<longleftrightarrow> keys_distinct m \<and> (\<forall>k cs. map_of m k = Some cs \<longrightarrow> cs \<noteq> [] \<and> distinct cs)
     \<and> (\<forall>k c. c \<in> set (connsOf m k) \<longleftrightarrow> P k c)"

lemma holdsD:
  assumes "holds m P"
  shows "keys_distinct m" "map_of m k = Some cs \<Longrightarrow> cs \<noteq> [] \<and> distinct cs" "c \<in> set (connsOf m k) \<longleftrightarrow> P k c"
    "distinct (connsOf m k)"
  using assms by (auto simp: holds_def connsOf_def split: option.split)

lemma holds_cong: "(\<And>k c. P k c = Q k c) \<Longrightarrow> holds m P = holds m Q"
  by (simp add: holds_def)

lemma holds_Nil: "(\<And>k c. \<not> P k c) \<Longrightarrow> holds [] P"
  by (simp add: holds_def connsOf_def)

lemma holds_mem: "holds m P \<Longrightarrow> (k, cs) \<in> set m \<Longrightarrow> map_of m k = Some cs"
  by (simp add: holds_def keys_distinct_mem)

lemma holds_upd:
  assumes "holds m P" "cs \<noteq> []" "distinct cs"
  shows "holds (AList.update k cs m) (\<lambda>k' c. if k' = k then c \<in> set cs else P k' c)"
  using assms by (auto simp: holds_def connsOf_def)

lemma holds_del: "holds m P \<Longrightarrow> holds (AList.delete k m) (\<lambda>k' c. k' \<noteq> k \<and> P k' c)"
  by (auto simp: holds_def connsOf_def)

lemma holds_insert:
  assumes "holds m P"
  shows "holds (AList.update k (List.insert c (connsOf m k)) m) (\<lambda>k' c'. P k' c' \<or> (k' = k \<and> c' = c))"
proof -
  have ne: "List.insert c (connsOf m k) \<noteq> []" by (metis empty_iff insertI1 list.set(1) set_insert)
  have d: "distinct (List.insert c (connsOf m k))" using holdsD(4) [OF assms] by simp
  have "(\<lambda>k' c'. if k' = k then c' \<in> set (List.insert c (connsOf m k)) else P k' c') =
      (\<lambda>k' c'. P k' c' \<or> (k' = k \<and> c' = c))"
    by (auto simp: fun_eq_iff holdsD(3) [OF assms])
  with holds_upd [OF assms ne d, of k] show ?thesis by simp
qed

text \<open>Removing a connection from one set; an emptied set goes.\<close>

definition takeOut :: "uuid \<Rightarrow> connref \<Rightarrow> (uuid, connref list) gomap \<Rightarrow> (uuid, connref list) gomap" where
  "takeOut k c m =
     (case map_of m k of
        None \<Rightarrow> m
      | Some cs \<Rightarrow> if removeAll c cs = [] then AList.delete k m else AList.update k (removeAll c cs) m)"

lemma holds_takeOut:
  assumes "holds m P"
  shows "holds (takeOut k c m) (\<lambda>k' c'. P k' c' \<and> \<not> (k' = k \<and> c' = c))"
proof (cases "map_of m k")
  case None
  then have "\<not> P k c" using holdsD(3) [OF assms, of c k] by (simp add: connsOf_def)
  with None assms show ?thesis
    unfolding takeOut_def by (auto elim!: back_subst [where P = "holds _"] simp: fun_eq_iff)
next
  case (Some cs)
  have P: "P k c' \<longleftrightarrow> c' \<in> set cs" for c' using Some holdsD(3) [OF assms, of c' k] by (simp add: connsOf_def)
  have d: "distinct (removeAll c cs)" using holdsD(2) [OF assms Some] by (simp add: distinct_removeAll)
  show ?thesis
  proof (cases "removeAll c cs = []")
    case True
    then have "set cs \<subseteq> {c}" by (metis Diff_eq_empty_iff empty_set set_removeAll)
    with True Some P holds_del [OF assms, of k] show ?thesis
      unfolding takeOut_def by (auto elim!: back_subst [where P = "holds _"] simp: fun_eq_iff)
  next
    case False
    with Some P holds_upd [OF assms False d, of k] show ?thesis
      unfolding takeOut_def by (auto elim!: back_subst [where P = "holds _"] simp: fun_eq_iff)
  qed
qed

lemma map_of_dropFromRooms:
  "distinct (map fst m) \<Longrightarrow>
   map_of (dropFromRooms c m) k =
     (case map_of m k of None \<Rightarrow> None
      | Some cs \<Rightarrow> if c \<in> set cs then (if removeAll c cs = [] then None else Some (removeAll c cs)) else Some cs)"
proof (induction m)
  case (Cons p m)
  obtain k' cs where p: "p = (k', cs)" by (cases p)
  have "map_of m k' = None" using Cons.prems p by (simp add: map_of_eq_None_iff)
  with Cons p show ?case
    by (auto simp: dropFromRooms_def Let_def split: option.splits)
qed (simp add: dropFromRooms_def)

lemma dropFromRooms_simps:
  "dropFromRooms c [] = []"
  "dropFromRooms c ((k, cs) # m) =
     (if c \<in> set cs then (if removeAll c cs = [] then [] else [(k, removeAll c cs)]) else [(k, cs)]) @ dropFromRooms c m"
  by (simp_all add: dropFromRooms_def Let_def)

lemma keys_dropFromRooms: "keys_distinct m \<Longrightarrow> keys_distinct (dropFromRooms c m)"
proof -
  have keys: "set (map fst (dropFromRooms c m)) \<subseteq> set (map fst m)" for m
  proof (induction m)
    case (Cons p m)
    then show ?case by (cases p) (simp add: dropFromRooms_simps image_Un subset_insertI2)
  qed (simp add: dropFromRooms_simps)
  then show "keys_distinct m \<Longrightarrow> keys_distinct (dropFromRooms c m)"
    unfolding keys_distinct_def
  proof (induction m)
    case (Cons p m)
    obtain k cs where p: "p = (k, cs)" by (cases p)
    have "k \<notin> set (map fst (dropFromRooms c m))" using Cons.prems keys [of m] p by auto
    with Cons p show ?case by (simp add: dropFromRooms_simps)
  qed (simp add: dropFromRooms_simps)
qed

lemma holds_dropFromRooms:
  assumes "holds m P"
  shows "holds (dropFromRooms c m) (\<lambda>k c'. P k c' \<and> c' \<noteq> c)"
proof -
  have kd: "distinct (map fst m)" using assms by (simp add: holds_def keys_distinct_def)
  have P: "P k c' \<longleftrightarrow> c' \<in> set (connsOf m k)" for k c' using holdsD(3) [OF assms] by simp
  have "cs \<noteq> [] \<and> distinct cs" if "map_of (dropFromRooms c m) k = Some cs" for k cs
    using that holdsD(2) [OF assms, of k]
    by (auto simp: map_of_dropFromRooms [OF kd] distinct_removeAll split: option.splits if_splits)
  moreover have "c' \<in> set (connsOf (dropFromRooms c m) k) \<longleftrightarrow> P k c' \<and> c' \<noteq> c" for c' k
    unfolding P by (auto simp: connsOf_def map_of_dropFromRooms [OF kd] split: option.splits if_splits)
      (metis Diff_iff empty_iff empty_set insertE set_removeAll)
  ultimately show ?thesis
    using assms keys_dropFromRooms unfolding holds_def by blast
qed

section \<open>Sending\<close>

definition enqueueAll :: "connref set \<Rightarrow> Event \<Rightarrow> Hub \<Rightarrow> Hub" where
  "enqueueAll cs ev h = h\<lparr>connAt := (\<lambda>d. if d \<in> cs then enqueue ev (connAt h d) else connAt h d)\<rparr>"

lemma enqueueTo_all: "enqueueTo c ev h = enqueueAll {c} ev h"
  by (simp add: enqueueTo_def enqueueAll_def modConn_def fun_upd_def if_distrib cong: if_cong)

lemma fold_enqueueTo: "distinct cs \<Longrightarrow> fold (\<lambda>c. enqueueTo c ev) cs h = enqueueAll (set cs) ev h"
proof (induction cs arbitrary: h)
  case (Cons c cs)
  then show ?case by (auto simp: enqueueAll_def enqueueTo_def modConn_def fun_eq_iff)
qed (simp add: enqueueAll_def)

lemma fold_enqueueTo_but:
  "distinct cs \<Longrightarrow> fold (\<lambda>c h. if x = Some c then h else enqueueTo c ev h) cs h = enqueueAll {c \<in> set cs. x \<noteq> Some c} ev h"
proof (induction cs arbitrary: h)
  case (Cons c cs)
  then show ?case by (auto simp: enqueueAll_def enqueueTo_def modConn_def fun_eq_iff)
qed (simp add: enqueueAll_def)

lemma enqueueAll_projs [simp]:
  "hub_store (enqueueAll cs ev h) = hub_store h" "hub_broadcast (enqueueAll cs ev h) = hub_broadcast h"
  "hub_users (enqueueAll cs ev h) = hub_users h" "hub_rooms (enqueueAll cs ev h) = hub_rooms h"
  "nextConn (enqueueAll cs ev h) = nextConn h"
  "connAt (enqueueAll cs ev h) d = (if d \<in> cs then enqueue ev (connAt h d) else connAt h d)"
  by (simp_all add: enqueueAll_def)

lemma enqueue_projs [simp]:
  "conn_user (enqueue ev c) = conn_user c" "conn_rooms (enqueue ev c) = conn_rooms c"
  "conn_pending (enqueue ev c) = conn_pending c" "conn_reading (enqueue ev c) = conn_reading c"
  "conn_writing (enqueue ev c) = conn_writing c" "conn_open (enqueue ev c) = conn_open c"
  "length (conn_send c) \<le> sendBuffer \<Longrightarrow> length (conn_send (enqueue ev c)) \<le> sendBuffer"
  by (simp_all add: enqueue_def)

interpretation ws_outbox: bounded_outbox enqueue conn_send "\<lambda>ev. ev" sendBuffer "\<lambda>_. True"
  by unfold_locales (simp_all add: enqueue_def)

lemma presence_all:
  "broadcastPresenceLocked now uid online h =
     enqueueAll (\<Union> (set ` snd ` set (hub_users h)))
       \<lparr>ev_Type = ''presence'', ev_Data = PresenceData \<lparr>pres_UserID = uid, Online = online, LastSeen = now\<rparr>\<rparr> h"
  by (simp add: broadcastPresenceLocked_def Let_def fold_enqueueTo allConnectionsLocked_def)

section \<open>The invariant\<close>

definition conns_inv :: "Hub \<Rightarrow> bool" where
  "conns_inv h \<longleftrightarrow> (\<forall>c. (conn_reading (connAt h c) \<longrightarrow> c < nextConn h)
     \<and> (conn_pending (connAt h c) \<noteq> [] \<longrightarrow> conn_reading (connAt h c))
     \<and> length (conn_send (connAt h c)) \<le> sendBuffer) \<and> length (hub_broadcast h) \<le> broadcastBuffer"

abbreviation byUser :: "Hub \<Rightarrow> uuid \<Rightarrow> connref \<Rightarrow> bool" where
  "byUser h u c \<equiv> conn_reading (connAt h c) \<and> userOf h c = u"

abbreviation byRoom :: "Hub \<Rightarrow> uuid \<Rightarrow> connref \<Rightarrow> bool" where
  "byRoom h r c \<equiv> conn_reading (connAt h c) \<and> r \<in> set (conn_rooms (connAt h c))"

definition hub_inv :: "Hub \<Rightarrow> bool" where
  "hub_inv h \<longleftrightarrow> holds (hub_users h) (byUser h) \<and> holds (hub_rooms h) (byRoom h) \<and> conns_inv h"

lemma hub_invD:
  assumes "hub_inv h"
  shows "holds (hub_users h) (byUser h)" "holds (hub_rooms h) (byRoom h)" "conns_inv h"
  using assms by (simp_all add: hub_inv_def)

lemma hub_inv_enqueueAll [inv_intros]: "hub_inv h \<Longrightarrow> hub_inv (enqueueAll cs ev h)"
proof -
  assume inv: "hub_inv h"
  have "byUser (enqueueAll cs ev h) = byUser h" "byRoom (enqueueAll cs ev h) = byRoom h"
    by (simp_all add: fun_eq_iff userOf_def)
  moreover have "conns_inv (enqueueAll cs ev h)" using inv by (simp add: hub_inv_def conns_inv_def)
  ultimately show ?thesis using inv by (simp add: hub_inv_def)
qed

lemma hub_inv_enqueueTo [inv_intros]: "hub_inv h \<Longrightarrow> hub_inv (enqueueTo c ev h)"
  by (simp add: enqueueTo_all inv_intros)

lemma hub_send_all:
  assumes "hub_inv h"
  shows "hub_send msg h = enqueueAll
    {c. (case out_roomID msg of Some r \<Rightarrow> byRoom h r c
         | None \<Rightarrow> (case out_userID msg of Some u \<Rightarrow> byUser h u c | None \<Rightarrow> False))
        \<and> out_exclude msg \<noteq> Some c} (out_event msg) h"
  using holdsD(3,4) [OF hub_invD(1) [OF assms]] holdsD(3,4) [OF hub_invD(2) [OF assms]]
  by (cases "out_roomID msg"; cases "out_userID msg")
    (simp_all add: hub_send_def Let_def fold_enqueueTo_but enqueueAll_def)

section \<open>Every turn keeps it\<close>

lemma hub_inv_store [simp]: "hub_inv (h\<lparr>hub_store := st\<rparr>) = hub_inv h"
  by (simp add: hub_inv_def conns_inv_def userOf_def)

lemma modConn_projs [simp]:
  "hub_store (modConn c f h) = hub_store h" "hub_broadcast (modConn c f h) = hub_broadcast h"
  "hub_users (modConn c f h) = hub_users h" "hub_rooms (modConn c f h) = hub_rooms h"
  "nextConn (modConn c f h) = nextConn h"
  "connAt (modConn c f h) d = (if d = c then f (connAt h c) else connAt h d)"
  by (simp_all add: modConn_def)

text \<open>Changes to a connection that its registrations do not depend on.\<close>

lemma hub_inv_modConn:
  assumes "hub_inv h" "\<And>x. conn_user (f x) = conn_user x" "\<And>x. conn_rooms (f x) = conn_rooms x"
    "\<And>x. conn_reading (f x) = conn_reading x"
    "conn_pending (f (connAt h c)) \<noteq> [] \<Longrightarrow> conn_reading (connAt h c)"
    "\<And>x. length (conn_send x) \<le> sendBuffer \<Longrightarrow> length (conn_send (f x)) \<le> sendBuffer"
  shows "hub_inv (modConn c f h)"
proof -
  have "byUser (modConn c f h) = byUser h" "byRoom (modConn c f h) = byRoom h"
    by (auto simp: fun_eq_iff userOf_def assms(2-4))
  then show ?thesis using assms by (auto simp: hub_inv_def conns_inv_def)
qed

lemma ws_broadcast_inv [inv_intros]:
  assumes "hub_inv h" "conn_reading (connAt h c)"
  shows "hub_inv (ws_broadcastRoom c r ev ex h)" "hub_inv (ws_broadcastUser c u ev ex h)"
  unfolding ws_broadcastRoom_def ws_broadcastUser_def
  by (rule hub_inv_modConn [OF assms(1)]; simp add: assms(2))+

lemma userOf_simps [simp]:
  "userOf (h\<lparr>hub_store := st\<rparr>) c = userOf h c" "userOf (h\<lparr>hub_users := us\<rparr>) c = userOf h c"
  "userOf (h\<lparr>hub_rooms := rs\<rparr>) c = userOf h c" "userOf (enqueueAll cs ev h) c = userOf h c"
  by (simp_all add: userOf_def)

lemma subscribe_inv:
  assumes inv: "hub_inv h" and c: "conn_reading (connAt h c)"
  shows "hub_inv (modConn c (\<lambda>cn. cn\<lparr>conn_rooms := List.insert r (conn_rooms cn)\<rparr>) (SubscribeRoom r c h))"
proof -
  let ?h = "modConn c (\<lambda>cn. cn\<lparr>conn_rooms := List.insert r (conn_rooms cn)\<rparr>) (SubscribeRoom r c h)"
  have "byUser ?h = byUser h" by (auto simp: fun_eq_iff userOf_def SubscribeRoom_def)
  moreover have "byRoom ?h = (\<lambda>r' c'. byRoom h r' c' \<or> (r' = r \<and> c' = c))"
    using c by (auto simp: fun_eq_iff SubscribeRoom_def)
  ultimately show ?thesis
    using inv holds_insert [OF hub_invD(2) [OF inv], of r c]
    by (simp add: hub_inv_def conns_inv_def SubscribeRoom_def)
qed

lemma ws_joinRoom_inv [inv_intros]:
  "hub_inv h \<Longrightarrow> conn_reading (connAt h c) \<Longrightarrow> hub_inv (ws_joinRoom e now c roomID h)"
  by (auto simp: ws_joinRoom_def Let_def intro!: hub_inv_enqueueTo subscribe_inv split: option.split)

lemma UnsubscribeRoom_takeOut: "UnsubscribeRoom r c h = h\<lparr>hub_rooms := takeOut r c (hub_rooms h)\<rparr>"
  by (simp add: UnsubscribeRoom_def takeOut_def Let_def split: option.split)

lemma unsubscribe_inv:
  assumes inv: "hub_inv h"
  shows "hub_inv (UnsubscribeRoom r c (modConn c (\<lambda>cn. cn\<lparr>conn_rooms := removeAll r (conn_rooms cn)\<rparr>) h))"
proof -
  let ?h = "UnsubscribeRoom r c (modConn c (\<lambda>cn. cn\<lparr>conn_rooms := removeAll r (conn_rooms cn)\<rparr>) h)"
  have "byUser ?h = byUser h" by (auto simp: fun_eq_iff userOf_def UnsubscribeRoom_takeOut)
  moreover have "byRoom ?h = (\<lambda>r' c'. byRoom h r' c' \<and> \<not> (r' = r \<and> c' = c))"
    by (auto simp: fun_eq_iff UnsubscribeRoom_takeOut)
  ultimately show ?thesis
    using inv holds_takeOut [OF hub_invD(2) [OF inv], of r c]
    by (simp add: hub_inv_def conns_inv_def UnsubscribeRoom_takeOut)
qed

lemma ws_leaveRoom_inv [inv_intros]: "hub_inv h \<Longrightarrow> hub_inv (ws_leaveRoom e c roomID h)"
  by (auto simp: ws_leaveRoom_def Let_def intro!: unsubscribe_inv split: option.split)

lemma sendRoomMessage_inv [inv_intros]:
  "hub_inv h \<Longrightarrow> conn_reading (connAt h c) \<Longrightarrow> hub_inv (sendRoomMessage e new now c msg body h)"
  by (simp add: sendRoomMessage_def inv_intros split: option.split sum.split bool.split prod.split)

lemma ws_broadcast_reading [simp]:
  "conn_reading (connAt (ws_broadcastRoom c r ev ex h) d) = conn_reading (connAt h d)"
  "conn_reading (connAt (ws_broadcastUser c u ev ex h) d) = conn_reading (connAt h d)"
  by (simp_all add: ws_broadcastRoom_def ws_broadcastUser_def)

lemma sendDMMessage_inv [inv_intros]:
  "hub_inv h \<Longrightarrow> conn_reading (connAt h c) \<Longrightarrow> hub_inv (sendDMMessage e new now c msg body h)"
  by (simp add: sendDMMessage_def Let_def inv_intros split: option.split sum.split prod.split)

lemma handleClientEvent_inv:
  "hub_inv h \<Longrightarrow> conn_reading (connAt h c) \<Longrightarrow> hub_inv (handleClientEvent e new now c msg h)"
  by (simp add: handleClientEvent_def handleMessage_def handleTyping_def handleRead_def Let_def inv_intros
      split: option.split)

text \<open>Connections come and go.\<close>

lemma accept_inv [inv_intros]:
  assumes inv: "hub_inv h"
  shows "hub_inv (accept now user h)"
proof -
  let ?c = "nextConn h" and ?u = "user_ID user"
  let ?h1 = "h\<lparr>connAt := (connAt h)(?c := NewConn user), nextConn := Suc ?c\<rparr>"
  let ?h2 = "?h1\<lparr>hub_users := AList.update ?u (List.insert ?c (connsOf (hub_users h) ?u)) (hub_users h)\<rparr>"
  have fresh: "\<not> conn_reading (connAt h ?c)" using hub_invD(3) [OF inv] by (auto simp: conns_inv_def)
  have "userOf ?h1 ?c = ?u" by (simp add: userOf_def NewConn_def)
  then have eq: "accept now user h = broadcastPresenceLocked now ?u True ?h2"
    by (simp add: accept_def addConn_def Let_def)
  have "byUser ?h2 = (\<lambda>k c'. byUser h k c' \<or> (k = ?u \<and> c' = ?c))"
    using fresh by (auto simp: fun_eq_iff userOf_def NewConn_def)
  moreover have "byRoom ?h2 = byRoom h" using fresh by (auto simp: fun_eq_iff NewConn_def)
  moreover have "conns_inv ?h2"
    using hub_invD(3) [OF inv] by (auto simp: conns_inv_def NewConn_def less_SucI)
  ultimately have "hub_inv ?h2"
    using holds_insert [OF hub_invD(1) [OF inv], of ?u ?c] hub_invD(2) [OF inv] by (simp add: hub_inv_def)
  then show ?thesis unfolding eq presence_all by (rule hub_inv_enqueueAll)
qed

definition lastConn :: "connref \<Rightarrow> Hub \<Rightarrow> bool" where
  "lastConn c h \<longleftrightarrow> removeAll c (connsOf (hub_users h) (userOf h c)) = [] \<and> connsOf (hub_users h) (userOf h c) \<noteq> []"

lemma enqueueAll_rooms: "(enqueueAll cs ev h)\<lparr>hub_rooms := rs\<rparr> = enqueueAll cs ev (h\<lparr>hub_rooms := rs\<rparr>)"
  unfolding enqueueAll_def by (cases h) (simp cong: if_cong)

lemma removeConn_eq:
  assumes "hub_inv h"
  shows "removeConn now c h =
    (let h' = h\<lparr>hub_users := takeOut (userOf h c) c (hub_users h), hub_rooms := dropFromRooms c (hub_rooms h)\<rparr>
     in if lastConn c h then broadcastPresenceLocked now (userOf h c) False h' else h')"
proof (cases "map_of (hub_users h) (userOf h c)")
  case None
  then show ?thesis by (simp add: removeConn_def takeOut_def lastConn_def connsOf_def Let_def)
next
  case (Some cs)
  then have "cs \<noteq> []" using holdsD(2) [OF hub_invD(1) [OF assms]] by blast
  with Some show ?thesis
    by (simp add: removeConn_def takeOut_def lastConn_def connsOf_def Let_def presence_all enqueueAll_rooms)
qed

lemma hangup_inv:
  assumes inv: "hub_inv h" and pend: "conn_pending (connAt h c) = []"
  shows "hub_inv (modConn c (\<lambda>cn. cn\<lparr>conn_reading := False, conn_open := False\<rparr>) (removeConn now c h))"
proof -
  let ?f = "\<lambda>cn. cn\<lparr>conn_reading := False, conn_open := False\<rparr>"
  let ?h' = "h\<lparr>hub_users := takeOut (userOf h c) c (hub_users h), hub_rooms := dropFromRooms c (hub_rooms h)\<rparr>"
  have "byUser (modConn c ?f ?h') = (\<lambda>k c'. byUser h k c' \<and> \<not> (k = userOf h c \<and> c' = c))"
    "byRoom (modConn c ?f ?h') = (\<lambda>k c'. byRoom h k c' \<and> c' \<noteq> c)"
    by (auto simp: fun_eq_iff userOf_def)
  then have "hub_inv (modConn c ?f ?h')"
    using holds_takeOut [OF hub_invD(1) [OF inv], of "userOf h c" c]
      holds_dropFromRooms [OF hub_invD(2) [OF inv], of c] hub_invD(3) [OF inv] pend
    by (simp add: hub_inv_def conns_inv_def)
  moreover have "modConn c ?f (enqueueAll cs ev ?h') = enqueueAll cs ev (modConn c ?f ?h')" for cs ev
    by (auto simp: modConn_def enqueueAll_def enqueue_def fun_eq_iff)
  ultimately show ?thesis
    by (simp add: removeConn_eq [OF inv] Let_def presence_all hub_inv_enqueueAll)
qed

lemma ws_readLoop_inv [inv_intros]: "hub_inv h \<Longrightarrow> hub_inv (ws_readLoop e new now c msg h)"
  by (auto simp: ws_readLoop_def handleClientEvent_inv hangup_inv split: option.split)

lemma push_inv [inv_intros]:
  assumes "hub_inv h"
  shows "hub_inv (push c h)"
proof (cases "conn_pending (connAt h c)")
  case (Cons m ms)
  have "hub_inv (modConn c (\<lambda>cn. cn\<lparr>conn_pending := ms\<rparr>) h)"
    using assms Cons by (intro hub_inv_modConn) (auto simp: hub_inv_def conns_inv_def)
  then show ?thesis
    using assms Cons by (auto simp: push_def hub_inv_def conns_inv_def modConn_def userOf_def)
qed (use assms in \<open>simp add: push_def\<close>)

lemma deliver_inv [inv_intros]:
  assumes "hub_inv h"
  shows "hub_inv (deliver h)"
proof (cases "hub_broadcast h")
  case (Cons m ms)
  then have "hub_inv (h\<lparr>hub_broadcast := ms\<rparr>)"
    using assms by (simp add: hub_inv_def conns_inv_def userOf_def)
  with Cons show ?thesis by (simp add: deliver_def hub_send_all hub_inv_enqueueAll)
qed (use assms in \<open>simp add: deliver_def\<close>)

lemma ws_writeLoop_projs [simp]:
  "conn_user (ws_writeLoop ok x) = conn_user x" "conn_rooms (ws_writeLoop ok x) = conn_rooms x"
  "conn_reading (ws_writeLoop ok x) = conn_reading x" "conn_pending (ws_writeLoop ok x) = conn_pending x"
  "length (conn_send (ws_writeLoop ok x)) \<le> length (conn_send x)"
  by (simp_all add: ws_writeLoop_def split: list.split)

lemma ws_writeLoop_inv [inv_intros]: "hub_inv h \<Longrightarrow> hub_inv (modConn c (ws_writeLoop ok) h)"
  by (rule hub_inv_modConn)
    (auto simp: hub_inv_def conns_inv_def intro: order_trans [OF ws_writeLoop_projs(5)])

lemma hub_step_inv: "hub_inv h \<Longrightarrow> hub_inv (hub_step e ev h)"
  by (cases ev) (simp_all add: inv_intros)

lemma NewHub_inv: "hub_inv (NewHub st)"
  by (simp add: hub_inv_def NewHub_def conns_inv_def nilConn_def NewConn_def holds_Nil)

interpretation hub: event_machine "\<lambda>h. \<exists>st. h = NewHub st" "hub_step e" hub_inv for e
  by unfold_locales (auto simp: NewHub_inv hub_step_inv)

text \<open>C16. Whatever the connections, their messages and the turns of their goroutines: the hub's maps hold
  every open connection under its user and under the rooms it has joined, and nothing else, without
  empty sets, and no channel exceeds its buffer.\<close>

theorem hub_reachable_inv: "hub_inv (fold (hub_step e) evs (NewHub st))"
  by (rule hub.inv_reach) blast

end
