(* ===== verification/Store_Laws.thy ===== *)
theory Store_Laws
  imports Store "HOL-Library.Multiset"
begin

text \<open>
  What the store's functions promise: the tables keep their keys and references, membership behaves
  like a set, the message lists are pages of the log in descending time, the user search finds
  substrings.
\<close>

section \<open>Ordering\<close>

lemma mset_insertBy [simp]: "mset (insertBy le x ys) = add_mset x (mset ys)"
  by (induction ys) auto

lemma mset_orderBy [simp]: "mset (orderBy le xs) = mset xs"
  unfolding orderBy_def by (induction xs) simp_all

lemma set_insertBy [simp]: "set (insertBy le x ys) = insert x (set ys)"
  by (induction ys) auto

lemma set_orderBy [simp]: "set (orderBy le xs) = set xs"
  by (metis mset_orderBy set_mset_mset)

lemma orderBy_simps [simp]: "orderBy le [] = []" "orderBy le (x # xs) = insertBy le x (orderBy le xs)"
  by (simp_all add: orderBy_def)

text \<open>For a relation that is transitive and total the result is sorted, and filtering commutes with it.\<close>

definition ordering :: "('a \<Rightarrow> 'a \<Rightarrow> bool) \<Rightarrow> bool" where
  "ordering le \<longleftrightarrow> transp le \<and> (\<forall>x y. le x y \<or> le y x)"

lemma newestFirst_ordering: "ordering newestFirst"
  by (auto simp: ordering_def newestFirst_def intro!: transpI)

lemma insertBy_sorted:
  assumes le: "ordering le" and "sorted_wrt le ys"
  shows "sorted_wrt le (insertBy le x ys)"
  using assms(2)
proof (induction ys)
  case (Cons y ys)
  have trans: "le a b \<Longrightarrow> le b c \<Longrightarrow> le a c" for a b c
    using le unfolding ordering_def by (meson transpD)
  show ?case
  proof (cases "le x y")
    case True
    with Cons.prems trans show ?thesis by auto
  next
    case False
    then have "le y x" using le unfolding ordering_def by blast
    with False Cons show ?thesis by simp
  qed
qed simp

lemma orderBy_sorted: "ordering le \<Longrightarrow> sorted_wrt le (orderBy le xs)"
  by (induction xs) (simp_all add: insertBy_sorted)

lemma insertBy_first: "(\<And>y. y \<in> set ys \<Longrightarrow> le x y) \<Longrightarrow> insertBy le x ys = x # ys"
  by (cases ys) simp_all

lemma filter_insertBy:
  assumes le: "ordering le" and "sorted_wrt le ys"
  shows "filter P (insertBy le x ys) = (if P x then insertBy le x (filter P ys) else filter P ys)"
  using assms(2)
proof (induction ys)
  case (Cons y ys)
  have trans: "le a b \<Longrightarrow> le b c \<Longrightarrow> le a c" for a b c
    using le unfolding ordering_def by (meson transpD)
  show ?case
  proof (cases "le x y")
    case True
    have "le x z" if "z \<in> set (filter P (y # ys))" for z
      using that True Cons.prems trans [of x y z] by (auto split: if_splits)
    then have "insertBy le x (filter P (y # ys)) = x # filter P (y # ys)" by (rule insertBy_first)
    with True show ?thesis by (simp del: filter.simps(2) add: filter.simps(2) [of P x])
  next
    case False
    with Cons show ?thesis by simp
  qed
qed simp

lemma filter_orderBy: "ordering le \<Longrightarrow> filter P (orderBy le xs) = orderBy le (filter P xs)"
  by (induction xs) (simp_all add: filter_insertBy orderBy_sorted)

section \<open>Keys and references\<close>

definition memberRefs :: "Store \<Rightarrow> RoomMember \<Rightarrow> bool" where
  "memberRefs st m \<longleftrightarrow> isRoom st (mem_RoomID m) \<and> isUser st (mem_UserID m)"

definition messageRefs :: "Store \<Rightarrow> Message \<Rightarrow> bool" where
  "messageRefs st m \<longleftrightarrow> isUser st (SenderID m) \<and> pred_option (isRoom st) (msg_RoomID m)
     \<and> pred_option (isUser st) (RecipientID m)"

definition keys_ok :: "Store \<Rightarrow> bool" where
  "keys_ok st \<longleftrightarrow>
     distinct (map (user_ID \<circ> fst) (st_users st)) \<and> distinct (map (Email \<circ> fst) (st_users st)) \<and>
     distinct (map (Username \<circ> fst) (st_users st)) \<and>
     distinct (map row_ID (st_rooms st)) \<and> distinct (map row_Name (st_rooms st)) \<and>
     distinct (map (\<lambda>m. (mem_RoomID m, mem_UserID m)) (st_members st)) \<and>
     distinct (map msg_ID (st_messages st))"

definition store_ok :: "Store \<Rightarrow> bool" where
  "store_ok st \<longleftrightarrow> keys_ok st \<and> list_all (memberRefs st) (st_members st)
     \<and> list_all (messageRefs st) (st_messages st)"

text \<open>References survive as long as no user and no room goes.\<close>

lemma refs_mono:
  assumes "\<And>x. isUser st x \<Longrightarrow> isUser st' x" "\<And>x. isRoom st x \<Longrightarrow> isRoom st' x"
  shows "list_all (memberRefs st) ms \<Longrightarrow> list_all (memberRefs st') ms"
    and "list_all (messageRefs st) ns \<Longrightarrow> list_all (messageRefs st') ns"
  using assms by (auto simp: list_all_iff memberRefs_def messageRefs_def pred_option_def split: option.splits)

lemma refs_upd [simp]:
  "isUser (st\<lparr>st_rooms := rs\<rparr>) = isUser st" "isUser (st\<lparr>st_members := ms\<rparr>) = isUser st"
  "isUser (st\<lparr>st_messages := ns\<rparr>) = isUser st" "isUser (st\<lparr>st_up := b\<rparr>) = isUser st"
  "isRoom (st\<lparr>st_users := us\<rparr>) = isRoom st" "isRoom (st\<lparr>st_members := ms\<rparr>) = isRoom st"
  "isRoom (st\<lparr>st_messages := ns\<rparr>) = isRoom st" "isRoom (st\<lparr>st_up := b\<rparr>) = isRoom st"
  "memberRefs (st\<lparr>st_members := ms\<rparr>) = memberRefs st" "memberRefs (st\<lparr>st_messages := ns\<rparr>) = memberRefs st"
  "memberRefs (st\<lparr>st_up := b\<rparr>) = memberRefs st" "messageRefs (st\<lparr>st_members := ms\<rparr>) = messageRefs st"
  "messageRefs (st\<lparr>st_messages := ns\<rparr>) = messageRefs st" "messageRefs (st\<lparr>st_up := b\<rparr>) = messageRefs st"
  by (simp_all add: fun_eq_iff isUser_def isRoom_def memberRefs_def messageRefs_def pred_option_def)

datatype store_op =
    OpCreateUser uuid int string string string string
  | OpCreateRoom uuid int string bool uuid
  | OpAddMember int uuid uuid string
  | OpRemoveMember uuid uuid
  | OpReadAt uuid uuid int
  | OpCreateMessage uuid int "uuid option" uuid "uuid option" string string string
  | OpDefaultRoom uuid uuid int
  | OpConnection bool

fun store_run :: "sql \<Rightarrow> store_op \<Rightarrow> Store \<Rightarrow> Store" where
  "store_run q (OpCreateUser new now e n h a) st = snd (CreateUser q new now e n h a st)"
| "store_run q (OpCreateRoom new now n p c) st = snd (CreateRoom q new now n p c st)"
| "store_run q (OpAddMember now r u role) st = snd (AddRoomMember q now r u role st)"
| "store_run q (OpRemoveMember r u) st = snd (RemoveRoomMember r u st)"
| "store_run q (OpReadAt r u t) st = snd (UpdateRoomReadAt r u t st)"
| "store_run q (OpCreateMessage new now r s d b a t) st = snd (CreateMessage q new now r s d b a t st)"
| "store_run q (OpDefaultRoom new creator now) st = snd (EnsureDefaultRoom q new creator now st)"
| "store_run q (OpConnection up) st = st\<lparr>st_up := up\<rparr>"

definition emptyStore :: Store where
  "emptyStore = \<lparr>st_up = True, st_users = [], st_rooms = [], st_members = [], st_messages = []\<rparr>"

lemma store_ok_CreateUser [inv_intros]:
  assumes "store_ok st"
  shows "store_ok (snd (CreateUser q new now e n h a st))"
proof (cases "fst (CreateUser q new now e n h a st)")
  case (Inr user)
  then obtain row where st': "snd (CreateUser q new now e n h a st) = st\<lparr>st_users := st_users st @ [row]\<rparr>"
    and "keys_ok (st\<lparr>st_users := st_users st @ [row]\<rparr>)"
    using assms by (auto simp: CreateUser_def Let_def keys_ok_def store_ok_def isUser_def image_iff split: if_splits)
  moreover have "isUser st x \<Longrightarrow> isUser (st\<lparr>st_users := st_users st @ [row]\<rparr>) x" for x by (simp add: isUser_def)
  ultimately show ?thesis
    using assms refs_mono [of st "st\<lparr>st_users := st_users st @ [row]\<rparr>"] by (simp add: store_ok_def)
qed (use assms in \<open>auto simp: CreateUser_def Let_def split: if_splits\<close>)

lemma store_ok_CreateRoom [inv_intros]:
  assumes "store_ok st"
  shows "store_ok (snd (CreateRoom q new now n p c st))"
proof (cases "fst (CreateRoom q new now n p c st)")
  case (Inr row)
  then have st': "snd (CreateRoom q new now n p c st) = st\<lparr>st_rooms := st_rooms st @ [row]\<rparr>"
    and "keys_ok (st\<lparr>st_rooms := st_rooms st @ [row]\<rparr>)"
    using assms by (auto simp: CreateRoom_def Let_def keys_ok_def store_ok_def isRoom_def split: if_splits)
  moreover have "isRoom st x \<Longrightarrow> isRoom (st\<lparr>st_rooms := st_rooms st @ [row]\<rparr>) x" for x by (simp add: isRoom_def)
  ultimately show ?thesis
    using assms refs_mono [of st "st\<lparr>st_rooms := st_rooms st @ [row]\<rparr>"] by (simp add: store_ok_def)
qed (use assms in \<open>auto simp: CreateRoom_def Let_def split: if_splits\<close>)

lemma store_ok_AddRoomMember [inv_intros]:
  "store_ok st \<Longrightarrow> store_ok (snd (AddRoomMember q now r u role st))"
  by (auto simp: AddRoomMember_def store_ok_def keys_ok_def isMember_def memberRefs_def)

lemma store_ok_RemoveRoomMember [inv_intros]:
  "store_ok st \<Longrightarrow> store_ok (snd (RemoveRoomMember r u st))"
  by (simp add: RemoveRoomMember_def store_ok_def keys_ok_def distinct_map_filter list_all_iff)

lemma store_ok_UpdateRoomReadAt [inv_intros]:
  assumes "store_ok st"
  shows "store_ok (snd (UpdateRoomReadAt r u t st))"
proof -
  define f :: "RoomMember \<Rightarrow> RoomMember" where "f = (\<lambda>m. if mem_RoomID m = r \<and> mem_UserID m = u then m\<lparr>LastReadAt := t\<rparr> else m)"
  have eq: "snd (UpdateRoomReadAt r u t st) = (if st_up st then st\<lparr>st_members := map f (st_members st)\<rparr> else st)"
    by (simp add: UpdateRoomReadAt_def f_def)
  have "(\<lambda>m. (mem_RoomID m, mem_UserID m)) \<circ> f = (\<lambda>m. (mem_RoomID m, mem_UserID m))"
    "memberRefs st \<circ> f = memberRefs st"
    by (auto simp: fun_eq_iff f_def memberRefs_def)
  with assms show ?thesis
    unfolding eq by (simp add: store_ok_def keys_ok_def list.pred_map)
qed

lemma store_ok_CreateMessage [inv_intros]:
  "store_ok st \<Longrightarrow> store_ok (snd (CreateMessage q new now r s d b a t st))"
  by (auto simp: CreateMessage_def Let_def store_ok_def keys_ok_def messageRefs_def pred_option_def split: option.splits)

lemma EnsureDefaultRoom_cases:
  "snd (EnsureDefaultRoom q new creator now st) = st
   \<or> snd (EnsureDefaultRoom q new creator now st) = snd (CreateRoom q new now ''general'' False creator st)"
  by (auto simp: EnsureDefaultRoom_def split: sum.split prod.split)

lemma store_ok_EnsureDefaultRoom [inv_intros]:
  "store_ok st \<Longrightarrow> store_ok (snd (EnsureDefaultRoom q new creator now st))"
  using EnsureDefaultRoom_cases [of q new creator now st] by (auto simp: inv_intros)

lemma store_run_ok: "store_ok st \<Longrightarrow> store_ok (store_run q op st)"
  by (cases op) (simp_all add: inv_intros, simp add: store_ok_def keys_ok_def)

interpretation store: event_machine "\<lambda>st. st = emptyStore" "store_run q" store_ok for q
  by unfold_locales (simp_all add: store_run_ok, simp add: emptyStore_def store_ok_def keys_ok_def)

text \<open>Whatever sequence of the store's functions runs, in and out of outages, the tables stay consistent:
  ids, e-mail addresses, user names, room names and memberships are unique, and every membership
  and message refers to users and rooms that exist.\<close>

theorem store_reachable_ok: "store_ok (fold (store_run q) ops emptyStore)"
  by (rule store.inv_reach) (rule refl)

section \<open>Membership\<close>

text \<open>
  The interface the handlers and the hub rely on: joining and leaving, on a store that knows the room
  and the user. The laws say how one operation changes the membership of any pair; the lemmas say
  what a history of operations comes to.
\<close>

locale membership =
  fixes has :: "'s \<Rightarrow> 'r \<Rightarrow> 'u \<Rightarrow> bool"
    and add :: "'r \<Rightarrow> 'u \<Rightarrow> 's \<Rightarrow> 's"
    and del :: "'r \<Rightarrow> 'u \<Rightarrow> 's \<Rightarrow> 's"
    and known :: "'s \<Rightarrow> 'r \<Rightarrow> 'u \<Rightarrow> bool"
    and ready :: "'s \<Rightarrow> bool"
  assumes has_add: "ready s \<Longrightarrow> has (add r u s) r' u' \<longleftrightarrow> has s r' u' \<or> (r' = r \<and> u' = u \<and> known s r u)"
    and has_del: "ready s \<Longrightarrow> has (del r u s) r' u' \<longleftrightarrow> has s r' u' \<and> \<not> (r' = r \<and> u' = u)"
    and known_add: "known (add r u s) r' u' = known s r' u'"
    and known_del: "known (del r u s) r' u' = known s r' u'"
    and ready_add: "ready (add r u s) = ready s"
    and ready_del: "ready (del r u s) = ready s"
begin

definition change :: "bool \<times> 'r \<times> 'u \<Rightarrow> 's \<Rightarrow> 's" where
  "change = (\<lambda>(joins, r, u) s. if joins then add r u s else del r u s)"

lemma ready_change: "ready (change x s) = ready s"
  by (auto simp: change_def ready_add ready_del split: prod.split)

lemma known_change: "known (change x s) r u = known s r u"
  by (auto simp: change_def known_add known_del split: prod.split)

lemma has_changes:
  "ready s \<Longrightarrow> known s r u \<Longrightarrow>
   has (fold change xs s) r u =
     (case filter (\<lambda>(_, r', u'). r' = r \<and> u' = u) xs of [] \<Rightarrow> has s r u | ys \<Rightarrow> fst (last ys))"
proof (induction xs rule: rev_induct)
  case (snoc x xs)
  have rk: "ready (fold change xs s)" "known (fold change xs s) r u"
    using snoc.prems by (induction xs rule: rev_induct) (simp_all add: ready_change known_change)
  obtain joins r' u' where x: "x = (joins, r', u')" by (cases x)
  have "has (change x (fold change xs s)) r u =
      (if r' = r \<and> u' = u then joins else has (fold change xs s) r u)"
    using rk by (auto simp: x change_def has_add has_del)
  with snoc x show ?case by (auto split: list.splits)
qed simp

end

interpretation members: membership isMember "\<lambda>r u st. snd (AddRoomMember q now r u role st)"
  "\<lambda>r u st. snd (RemoveRoomMember r u st)" "\<lambda>st r u. isRoom st r \<and> isUser st u"
  "\<lambda>st. st_up st \<and> sql_text q role" for q now role
  by unfold_locales
    (auto simp: AddRoomMember_def RemoveRoomMember_def isMember_def isRoom_def isUser_def image_iff)

text \<open>After any sequence of joins and leaves, of whatever users and rooms, a user is in a room exactly if
  the last of them that was about this user and this room was a join; with none, nothing changed.\<close>

theorem last_change_decides_membership:
  assumes "st_up st" "sql_text q role" "isRoom st r" "isUser st u"
  shows "isMember (fold (\<lambda>(joins, r', u') st. if joins then snd (AddRoomMember q now r' u' role st)
      else snd (RemoveRoomMember r' u' st)) xs st) r u =
    (case filter (\<lambda>(_, r', u'). r' = r \<and> u' = u) xs of [] \<Rightarrow> isMember st r u | ys \<Rightarrow> fst (last ys))"
  using members.has_changes [where s = st and q = q and role = role and r = r and u = u and xs = xs and now = now]
    assms unfolding members.change_def by simp

definition plainSql :: sql where
  "plainSql = \<lparr>sql_lower = toLower ascii_unicode, sql_le = (\<lambda>a b. map of_char a \<le> (map of_char b :: nat list)),
     sql_text = list_all (\<lambda>c. of_char c \<noteq> (0 :: nat))\<rparr>"

definition sampleMessage :: "uuid \<Rightarrow> int \<Rightarrow> uuid option \<Rightarrow> uuid \<Rightarrow> uuid option \<Rightarrow> string \<Rightarrow> Message" where
  "sampleMessage i t room from to body = \<lparr>msg_ID = i, msg_RoomID = room, SenderID = from, RecipientID = to,
     Body = body, AttachmentURL = [], MessageType = ''text'', msg_CreatedAt = t, SenderName = [], SenderAvatar = []\<rparr>"

definition sampleStore :: Store where
  "sampleStore = \<lparr>st_up = True,
     st_users = [(\<lparr>user_ID = 1, Email = ''ann@x.org'', Username = ''ann'', AvatarURL = [], user_CreatedAt = 0\<rparr>, ''h1''),
       (\<lparr>user_ID = 2, Email = ''Bob@x.org'', Username = ''bob'', AvatarURL = [], user_CreatedAt = 0\<rparr>, ''h2'')],
     st_rooms = [\<lparr>row_ID = 10, row_Name = ''general'', IsPrivate = False, CreatedBy = 99, row_CreatedAt = 5\<rparr>,
       \<lparr>row_ID = 11, row_Name = ''quiet'', IsPrivate = True, CreatedBy = 1, row_CreatedAt = 6\<rparr>],
     st_members = [\<lparr>mem_RoomID = 10, mem_UserID = 1, Role = ''member'', JoinedAt = 7, LastReadAt = 7\<rparr>],
     st_messages = [sampleMessage 21 10 (Some 10) 1 None ''one'', sampleMessage 22 11 (Some 10) 1 None ''two'',
       sampleMessage 23 12 None 1 (Some 2) ''psst'', sampleMessage 24 13 (Some 10) 2 None ''three'']\<rparr>"

lemma sampleStore_ok: "store_ok sampleStore"
  by (simp add: sampleStore_def sampleMessage_def store_ok_def keys_ok_def memberRefs_def messageRefs_def
      isUser_def isRoom_def)

lemma sampleStore_facts:
  "st_up sampleStore" "isRoom sampleStore 10" "isUser sampleStore 1" "isUser sampleStore 2"
  "\<not> isMember sampleStore 10 2" "sql_text plainSql ''member''"
  by (simp_all add: sampleStore_def isRoom_def isUser_def isMember_def plainSql_def)

theorem last_change_decides_membership_witness:
  "isMember (fold (\<lambda>(joins, r', u') st. if joins then snd (AddRoomMember plainSql 9 r' u' ''member'' st)
      else snd (RemoveRoomMember r' u' st)) [(False, 10, 2), (True, 10, 2), (False, 10, 1)] sampleStore) 10 2"
  by (subst last_change_decides_membership) (simp_all add: sampleStore_facts)

section \<open>Message lists\<close>

definition roomLog :: "Store \<Rightarrow> uuid \<Rightarrow> int \<Rightarrow> Message list" where
  "roomLog st r before = orderBy newestFirst (joinSender st
     (filter (\<lambda>m. msg_RoomID m = Some r \<and> msg_CreatedAt m < before) (st_messages st)))"

lemma ListRoomMessages_log:
  "st_up st \<Longrightarrow> 0 < n \<Longrightarrow> ListRoomMessages r n before st = Inr (take (nat n) (roomLog st r before))"
  by (simp add: ListRoomMessages_def limitRows_def roomLog_def)

lemma one_row:
  "distinct (map f xs) \<Longrightarrow> x \<in> set xs \<Longrightarrow> filter (\<lambda>y. f y = f x) xs = [x]"
proof (induction xs)
  case (Cons y ys)
  then show ?case
    by (cases "x = y") (auto simp: filter_empty_conv image_iff)
qed simp

lemma joinSender_Cons:
  "joinSender st (m # ms) = map (\<lambda>u. m\<lparr>SenderName := Username u, SenderAvatar := User.AvatarURL u\<rparr>)
     (filter (\<lambda>u. user_ID u = SenderID m) (map fst (st_users st))) @ joinSender st ms"
  by (simp add: joinSender_def)

lemma joinSender_keeps:
  assumes "store_ok st" "set ms \<subseteq> set (st_messages st)"
  shows "map (\<lambda>m. (msg_ID m, msg_RoomID m, Body m, msg_CreatedAt m)) (joinSender st ms) =
    map (\<lambda>m. (msg_ID m, msg_RoomID m, Body m, msg_CreatedAt m)) ms"
  using assms(2)
proof (induction ms)
  case (Cons m ms)
  then have "isUser st (SenderID m)"
    using assms(1) by (auto simp: store_ok_def list_all_iff messageRefs_def)
  then obtain u where u: "u \<in> set (map fst (st_users st))" "user_ID u = SenderID m"
    unfolding isUser_def by force
  have "distinct (map user_ID (map fst (st_users st)))"
    using assms(1) by (simp add: store_ok_def keys_ok_def comp_def)
  from one_row [OF this u(1)] u(2) have "filter (\<lambda>u. user_ID u = SenderID m) (map fst (st_users st)) = [u]"
    by simp
  with Cons show ?case by (simp add: joinSender_Cons)
qed (simp add: joinSender_def)

lemma joinSender_filter:
  assumes "\<And>m n a. P (m\<lparr>SenderName := n, SenderAvatar := a\<rparr>) = P m"
  shows "joinSender st (filter P ms) = filter P (joinSender st ms)"
proof (induction ms)
  case (Cons m ms)
  have "filter P (map (\<lambda>u. m\<lparr>SenderName := Username u, SenderAvatar := User.AvatarURL u\<rparr>) us) =
      (if P m then map (\<lambda>u. m\<lparr>SenderName := Username u, SenderAvatar := User.AvatarURL u\<rparr>) us else [])" for us :: "User list"
    by (induction us) (auto simp: assms)
  with Cons show ?case by (simp add: joinSender_Cons)
qed (simp add: joinSender_def)

lemma roomLog_before:
  assumes "t \<le> before"
  shows "roomLog st r t = filter (\<lambda>m. msg_CreatedAt m < t) (roomLog st r before)"
proof -
  let ?p = "\<lambda>b m. msg_RoomID m = Some r \<and> msg_CreatedAt m < b"
  have eq: "filter (?p t) (st_messages st) = filter (\<lambda>m. msg_CreatedAt m < t) (filter (?p before) (st_messages st))"
    using assms by (auto intro!: filter_cong)
  have "joinSender st (filter (\<lambda>m. msg_CreatedAt m < t) ms) = filter (\<lambda>m. msg_CreatedAt m < t) (joinSender st ms)" for ms
    by (rule joinSender_filter) simp
  then show ?thesis by (simp only: roomLog_def eq filter_orderBy [OF newestFirst_ordering])
qed

text \<open>The message list of a room is the beginning, of the length asked for (50 when the number is not
  positive), of the room's messages from before the given time, newest first; without a limit nothing
  is missing from it and nothing is added.\<close>

theorem room_messages_page:
  assumes ok: "store_ok st" and up: "st_up st"
  shows "ListRoomMessages r limit before st =
      Inr (take (nat (if limit \<le> 0 then 50 else limit)) (roomLog st r before))
    \<and> sorted_wrt newestFirst (roomLog st r before)
    \<and> mset (map (\<lambda>m. (msg_ID m, msg_RoomID m, Body m, msg_CreatedAt m)) (roomLog st r before)) =
      mset (map (\<lambda>m. (msg_ID m, msg_RoomID m, Body m, msg_CreatedAt m))
        (filter (\<lambda>m. msg_RoomID m = Some r \<and> msg_CreatedAt m < before) (st_messages st)))"
proof -
  let ?ms = "filter (\<lambda>m. msg_RoomID m = Some r \<and> msg_CreatedAt m < before) (st_messages st)"
  let ?key = "\<lambda>m. (msg_ID m, msg_RoomID m, Body m, msg_CreatedAt m)"
  have keep: "map ?key (joinSender st ?ms) = map ?key ?ms" by (rule joinSender_keeps [OF ok]) auto
  have "mset (map ?key (roomLog st r before)) = mset (map ?key (joinSender st ?ms))" by (simp add: roomLog_def)
  then have "mset (map ?key (roomLog st r before)) = mset (map ?key ?ms)" unfolding keep .
  moreover have "ListRoomMessages r limit before st =
      Inr (take (nat (if limit \<le> 0 then 50 else limit)) (roomLog st r before))"
    using up by (simp add: ListRoomMessages_def limitRows_def roomLog_def)
  ultimately show ?thesis
    using orderBy_sorted [OF newestFirst_ordering] unfolding roomLog_def by blast
qed

theorem room_messages_page_witness:
  "\<exists>ms. ListRoomMessages 10 2 100 sampleStore = Inr ms \<and> map Body ms = [''three'', ''two'']"
proof -
  have "map Body (take 2 (roomLog sampleStore 10 100)) = [''three'', ''two'']" by code_simp
  with room_messages_page [OF sampleStore_ok, of 10 2 100] sampleStore_facts show ?thesis by simp
qed

text \<open>What is older than the last message of a page: the rest of the list but for the messages that have the
  same time as that one.\<close>

lemma newest_split:
  assumes "sorted_wrt newestFirst ys" "\<forall>m\<in>set ys. msg_CreatedAt m \<le> t"
  shows "ys = filter (\<lambda>m. msg_CreatedAt m = t) ys @ filter (\<lambda>m. msg_CreatedAt m < t) ys"
  using assms
proof (induction ys)
  case (Cons y ys)
  then have IH: "ys = filter (\<lambda>m. msg_CreatedAt m = t) ys @ filter (\<lambda>m. msg_CreatedAt m < t) ys" by simp
  show ?case
  proof (cases "msg_CreatedAt y = t")
    case False
    then have "msg_CreatedAt m < t" if "m \<in> set ys" for m
      using Cons.prems that by (force simp: newestFirst_def)
    then have "filter (\<lambda>m. msg_CreatedAt m = t) ys = []" "filter (\<lambda>m. msg_CreatedAt m < t) ys = ys"
      by (auto simp: filter_empty_conv filter_id_conv)
    with False Cons.prems(2) show ?thesis by simp
  qed (use IH in simp)
qed simp

lemma drop_older:
  assumes sorted: "sorted_wrt newestFirst xs" and n: "0 < n" "n \<le> length xs"
  defines "t \<equiv> msg_CreatedAt (xs ! (n - 1))"
  shows "drop n xs = filter (\<lambda>m. msg_CreatedAt m = t) (drop n xs) @ filter (\<lambda>m. msg_CreatedAt m < t) xs"
proof -
  have order: "msg_CreatedAt (xs ! j) \<le> msg_CreatedAt (xs ! i)" if "i \<le> j" "j < length xs" for i j
    using sorted_wrt_nth_less [OF sorted, of i j] that by (cases "i = j") (simp_all add: newestFirst_def)
  have "\<not> msg_CreatedAt m < t" if "m \<in> set (take n xs)" for m
  proof -
    from that obtain i where "i < n" "m = xs ! i" using n by (auto simp: in_set_conv_nth)
    moreover from \<open>i < n\<close> n have "i \<le> n - 1" "n - 1 < length xs" by simp_all
    from order [OF this] have "t \<le> msg_CreatedAt (xs ! i)" by (simp add: t_def)
    ultimately show ?thesis by simp
  qed
  then have "filter (\<lambda>m. msg_CreatedAt m < t) (take n xs @ drop n xs) = filter (\<lambda>m. msg_CreatedAt m < t) (drop n xs)"
    unfolding filter_append by (simp add: filter_empty_conv)
  moreover have "\<forall>m\<in>set (drop n xs). msg_CreatedAt m \<le> t"
  proof
    fix m
    assume "m \<in> set (drop n xs)"
    then obtain i where "i < length xs - n" "m = xs ! (n + i)" by (auto simp: in_set_conv_nth)
    moreover from this n have "n - 1 \<le> n + i" "n + i < length xs" by simp_all
    from order [OF this] have "msg_CreatedAt (xs ! (n + i)) \<le> t" by (simp add: t_def)
    ultimately show "msg_CreatedAt m \<le> t" by simp
  qed
  moreover have "sorted_wrt newestFirst (drop n xs)" using sorted by (rule sorted_wrt_drop)
  ultimately show ?thesis using newest_split [of "drop n xs" t] by simp
qed

lemma next_page:
  assumes n: "0 < n" "n \<le> length (roomLog st r before)"
  defines "t \<equiv> msg_CreatedAt (last (take n (roomLog st r before)))"
  shows "drop n (roomLog st r before)
    = filter (\<lambda>m. msg_CreatedAt m = t) (drop n (roomLog st r before)) @ roomLog st r t"
proof -
  let ?log = "roomLog st r before"
  have last: "last (take n ?log) = ?log ! (n - 1)"
    using n by (subst last_conv_nth) (auto simp: min_def)
  have "?log ! (n - 1) \<in> set ?log" using n by simp
  then have "msg_CreatedAt (?log ! (n - 1)) < before"
    by (auto simp: roomLog_def joinSender_def)
  then have "roomLog st r t = filter (\<lambda>m. msg_CreatedAt m < t) ?log"
    using roomLog_before [of t before st r] by (simp add: t_def last)
  moreover have "sorted_wrt newestFirst ?log"
    unfolding roomLog_def by (rule orderBy_sorted [OF newestFirst_ordering])
  ultimately show ?thesis using drop_older [OF _ n] by (simp add: t_def last)
qed

text \<open>C33. The private messages of two users are the same seen from either side, and the list holds nothing
  but messages without a room from the one to the other.\<close>

theorem dm_history_is_private:
  assumes "ListDMs a b limit before st = Inr ms"
  shows "ListDMs b a limit before st = Inr ms
    \<and> list_all (\<lambda>m. msg_RoomID m = None \<and> msg_CreatedAt m < before
        \<and> (SenderID m, RecipientID m) \<in> {(a, Some b), (b, Some a)}) ms"
proof -
  let ?P = "\<lambda>a b m. msg_RoomID m = None \<and> (SenderID m = a \<and> RecipientID m = Some b
      \<or> SenderID m = b \<and> RecipientID m = Some a) \<and> msg_CreatedAt m < before"
  have "ListDMs b a limit before st = ListDMs a b limit before st" by (simp add: ListDMs_def disj_commute)
  then have "ListDMs b a limit before st = Inr ms" using assms by simp
  moreover have "?P a b m" if "m \<in> set ms" for m
  proof -
    have "m \<in> set (joinSender st (filter (?P a b) (st_messages st)))"
      using assms that by (auto simp: ListDMs_def limitRows_def Let_def dest: in_set_takeD split: if_splits)
    then show ?thesis by (auto simp: joinSender_def)
  qed
  ultimately show ?thesis by (auto simp: list_all_iff)
qed

theorem dm_history_is_private_witness:
  "\<exists>ms. ListDMs 2 1 0 100 sampleStore = Inr ms \<and> map Body ms = [''psst'']"
proof -
  define ms where "ms = projr (ListDMs 1 2 0 100 sampleStore)"
  have "map Body (projr (ListDMs 1 2 0 100 sampleStore)) = [''psst''] \<and> \<not> isl (ListDMs 1 2 0 100 sampleStore)"
    by code_simp
  then have ms: "ListDMs 1 2 0 100 sampleStore = Inr ms" "map Body ms = [''psst'']"
    by (simp_all add: ms_def)
  with dm_history_is_private [OF ms(1)] show ?thesis by (intro exI [of _ ms]) simp
qed

section \<open>Looking up users\<close>



definition plainPattern :: "rune list \<Rightarrow> bool" where
  "plainPattern p \<longleftrightarrow> set p \<inter> {37, 95, 92} = {}"

lemma like_any: "likeMatch (37 # ps) s \<longleftrightarrow> (\<exists>a b. s = a @ b \<and> likeMatch ps b)"
proof (induction s)
  case (Cons c s)
  then show ?case by (simp add: Cons_eq_append_conv) blast
qed simp

lemma like_plain: "plainPattern p \<Longrightarrow> likeMatch (p @ ps) s \<longleftrightarrow> (\<exists>b. s = p @ b \<and> likeMatch ps b)"
  by (induction p arbitrary: s) (auto simp: plainPattern_def split: list.split)

text \<open>The pattern \<open>SearchUsers\<close> builds matches a text exactly if it contains the query, as long as the
  query has no percent sign, underscore or backslash; the query \<open>%\<close> matches every text, since
  nothing escapes it.\<close>

theorem search_finds_substrings:
  assumes "plainPattern p"
  shows "likeMatch (37 # p @ [37]) s = (\<exists>a b. s = a @ p @ b) \<and> likeMatch (37 # [37] @ [37]) s"
proof -
  have all: "likeMatch [37] b" for b by (subst like_any) auto
  have "likeMatch (37 # [37] @ [37]) s"
    using all [of s] by (subst like_any) (metis append_Cons append_Nil like_any)
  moreover have "likeMatch (37 # p @ [37]) s = (\<exists>a b. s = a @ b \<and> likeMatch (p @ [37]) b)" by (rule like_any)
  then have "likeMatch (37 # p @ [37]) s = (\<exists>a b. s = a @ p @ b)"
    by (simp del: likeMatch.simps add: like_plain [OF assms] all) blast
  ultimately show ?thesis by blast
qed

theorem search_finds_substrings_witness:
  "likeMatch (37 # [110] @ [37]) [97, 110, 110] \<and> \<not> likeMatch (37 # [98] @ [37]) [97, 110, 110]"
proof -
  have p: "plainPattern [110]" "plainPattern [98]" by (simp_all add: plainPattern_def)
  have "[97, 110, 110] = [97] @ [110] @ [110 :: rune]" by simp
  moreover have "\<not> (\<exists>a b. [97, 110, 110 :: rune] = a @ [98] @ b)" by (auto simp: Cons_eq_append_conv)
  ultimately show ?thesis
    using search_finds_substrings [OF p(1)] search_finds_substrings [OF p(2)] by metis
qed

text \<open>A user's list of rooms holds exactly the public rooms and the private rooms the user is a member of,
  newest first.\<close>

theorem rooms_visible:
  assumes "ListRooms uid st = Inr rs"
  shows "set rs = {r \<in> set (st_rooms st). IsPrivate r \<longrightarrow> isMember st (row_ID r) uid}
    \<and> sorted_wrt (\<lambda>a b. row_CreatedAt b \<le> row_CreatedAt a) rs"
proof -
  have "ordering (\<lambda>a b. row_CreatedAt b \<le> row_CreatedAt a)" by (auto simp: ordering_def intro!: transpI)
  from orderBy_sorted [OF this] assms show ?thesis
    by (auto simp: ListRooms_def split: if_splits)
qed

theorem rooms_visible_witness:
  "\<exists>rs. ListRooms 1 sampleStore = Inr rs \<and> row_Name ` set rs = {''general''}"
proof -
  obtain rs where rs: "ListRooms 1 sampleStore = Inr rs"
    by (simp add: ListRooms_def sampleStore_def)
  have "row_Name ` {r \<in> set (st_rooms sampleStore). IsPrivate r \<longrightarrow> isMember sampleStore (row_ID r) 1} = {''general''}"
    by code_simp
  with rs rooms_visible [OF rs] show ?thesis by (intro exI [of _ rs]) simp
qed

end
