(* ===== verification/Ws_Properties.thy ===== *)
theory Ws_Properties
  imports Ws_Invariant Store_Laws Go_Numbers
begin

text \<open>
  What the hub does in the states its invariant describes: who gets a broadcast, what a message, a
  join and a disconnection change, that what a handler hands over gets through, and which goroutine
  never ends. The connections and subscriptions alone, without maps and channels, are an abstract
  machine that the hub implements.
\<close>

section \<open>Who is connected and subscribed\<close>

type_synonym subscriptions = "connref \<Rightarrow> (uuid \<times> uuid set) option"

definition subscriptions :: "Hub \<Rightarrow> subscriptions" where
  "subscriptions h c =
     (if conn_reading (connAt h c) then Some (userOf h c, set (conn_rooms (connAt h c))) else None)"

inductive subscription_step :: "subscriptions \<Rightarrow> subscriptions \<Rightarrow> bool" where
  Same: "subscription_step a a"
| Open: "a c = None \<Longrightarrow> subscription_step a (a(c \<mapsto> (u, {})))"
| Subscribe: "a c = Some (u, rs) \<Longrightarrow> subscription_step a (a(c \<mapsto> (u, insert r rs)))"
| Unsubscribe: "a c = Some (u, rs) \<Longrightarrow> subscription_step a (a(c \<mapsto> (u, rs - {r})))"
| Close: "subscription_step a (a(c := None))"

lemma subscriptions_enqueueAll [simp]: "subscriptions (enqueueAll cs ev h) = subscriptions h"
  by (rule ext) (simp add: subscriptions_def)

lemma subscriptions_upd [simp]:
  "subscriptions (h\<lparr>hub_store := st\<rparr>) = subscriptions h" "subscriptions (h\<lparr>hub_rooms := m\<rparr>) = subscriptions h"
  "subscriptions (h\<lparr>hub_users := m\<rparr>) = subscriptions h" "subscriptions (h\<lparr>hub_broadcast := q\<rparr>) = subscriptions h"
  by (simp_all add: fun_eq_iff subscriptions_def userOf_def)

lemma subscriptions_modConn:
  assumes "conn_user (f (connAt h c)) = conn_user (connAt h c)"
    "conn_rooms (f (connAt h c)) = conn_rooms (connAt h c)" "conn_reading (f (connAt h c)) = conn_reading (connAt h c)"
  shows "subscriptions (modConn c f h) = subscriptions h"
  by (rule ext) (simp add: subscriptions_def userOf_def assms)

lemma subscriptions_broadcast [simp]:
  "subscriptions (ws_broadcastRoom c r ev ex h) = subscriptions h"
  "subscriptions (ws_broadcastUser c u ev ex h) = subscriptions h"
  by (simp_all add: ws_broadcastRoom_def ws_broadcastUser_def subscriptions_modConn)

lemma subscriptions_join:
  assumes "conn_reading (connAt h c)"
  shows "subscriptions (ws_joinRoom e now c roomID h) = (case parseUUID e roomID of None \<Rightarrow> subscriptions h
    | Some r \<Rightarrow> (subscriptions h)(c \<mapsto> (userOf h c, insert r (set (conn_rooms (connAt h c))))))"
  using assms
  by (auto simp: ws_joinRoom_def Let_def enqueueTo_all SubscribeRoom_def subscriptions_def userOf_def fun_eq_iff
      split: option.split)

lemma subscriptions_leave:
  assumes "conn_reading (connAt h c)"
  shows "subscriptions (ws_leaveRoom e c roomID h) = (case parseUUID e roomID of None \<Rightarrow> subscriptions h
    | Some r \<Rightarrow> (subscriptions h)(c \<mapsto> (userOf h c, set (conn_rooms (connAt h c)) - {r})))"
  using assms
  by (auto simp: ws_leaveRoom_def Let_def UnsubscribeRoom_takeOut subscriptions_def userOf_def fun_eq_iff
      split: option.split)

lemma subscriptions_message [simp]:
  "subscriptions (handleMessage e new now c msg h) = subscriptions h"
  "subscriptions (handleTyping e c msg h) = subscriptions h" "subscriptions (handleRead e now c msg h) = subscriptions h"
  by (simp_all add: handleMessage_def sendRoomMessage_def sendDMMessage_def handleTyping_def handleRead_def Let_def
      enqueueTo_all split: option.split sum.split bool.split prod.split)

text \<open>What a client's message and an event make of the subscriptions.\<close>

definition sub_message :: "wsenv \<Rightarrow> connref \<Rightarrow> ClientEvent \<Rightarrow> subscriptions \<Rightarrow> subscriptions" where
  "sub_message e c m a =
     (case (a c, parseUUID e (ce_RoomID m)) of
        (Some (u, rs), Some r) \<Rightarrow>
          if ce_Type m = ''join_room'' then a(c \<mapsto> (u, insert r rs))
          else if ce_Type m = ''leave_room'' then a(c \<mapsto> (u, rs - {r})) else a
      | _ \<Rightarrow> a)"

definition sub_event :: "wsenv \<Rightarrow> hub_event \<Rightarrow> Hub \<Rightarrow> subscriptions" where
  "sub_event e ev h =
     (case ev of
        Accept now user \<Rightarrow> (subscriptions h)(nextConn h \<mapsto> (user_ID user, {}))
      | Read c new now msg \<Rightarrow>
          if conn_reading (connAt h c) \<and> conn_pending (connAt h c) = []
          then (case (if conn_open (connAt h c) then msg else None) of
                  Some m \<Rightarrow> sub_message e c m (subscriptions h)
                | None \<Rightarrow> (subscriptions h)(c := None))
          else subscriptions h
      | _ \<Rightarrow> subscriptions h)"

lemma subscriptions_client:
  assumes c: "conn_reading (connAt h c)"
  shows "subscriptions (handleClientEvent e new now c msg h) = sub_message e c msg (subscriptions h)"
proof -
  have "subscriptions h c = Some (userOf h c, set (conn_rooms (connAt h c)))"
    using c by (simp add: subscriptions_def)
  then show ?thesis
    by (simp add: handleClientEvent_def sub_message_def subscriptions_join [OF c] subscriptions_leave [OF c] split: option.split)
qed

lemma sub_message_step: "subscription_step a (sub_message e c m a)"
  by (auto simp: sub_message_def subscription_step.Same split: option.split intro: subscription_step.Subscribe subscription_step.Unsubscribe)

lemma subscriptions_hangup:
  assumes "hub_inv h"
  shows "subscriptions (modConn c (\<lambda>cn. cn\<lparr>conn_reading := False, conn_open := False\<rparr>) (removeConn now c h)) =
    (subscriptions h)(c := None)"
  by (rule ext) (simp add: removeConn_eq [OF assms] Let_def presence_all subscriptions_def userOf_def)

lemma subscriptions_accept:
  "subscriptions (accept now user h) = (subscriptions h)(nextConn h \<mapsto> (user_ID user, {}))"
  by (rule ext) (simp add: accept_def addConn_def Let_def presence_all subscriptions_def userOf_def NewConn_def)

lemma hub_step_subscriptions:
  assumes inv: "hub_inv h"
  shows "subscriptions (hub_step e ev h) = sub_event e ev h"
proof (cases ev)
  case (Accept now user)
  then show ?thesis by (simp add: sub_event_def subscriptions_accept)
next
  case (Read c new now msg)
  then show ?thesis
    by (simp add: sub_event_def ws_readLoop_def subscriptions_client subscriptions_hangup [OF inv] split: option.split)
next
  case (Push c)
  have "subscriptions (push c h) = subscriptions h"
    by (simp add: push_def subscriptions_modConn split: list.split)
  then show ?thesis by (simp add: Push sub_event_def)
next
  case Deliver
  have "hub_inv (h\<lparr>hub_broadcast := ms\<rparr>)" if "hub_broadcast h = m # ms" for m ms
    using inv that by (simp add: hub_inv_def conns_inv_def userOf_def)
  then have "subscriptions (deliver h) = subscriptions h"
    by (simp add: deliver_def hub_send_all split: list.split)
  then show ?thesis by (simp add: Deliver sub_event_def)
next
  case (Write c ok)
  then show ?thesis by (simp add: sub_event_def subscriptions_modConn)
qed

lemma sub_event_step:
  assumes "hub_inv h"
  shows "subscription_step (subscriptions h) (sub_event e ev h)"
proof -
  have "subscriptions h (nextConn h) = None"
    using hub_invD(3) [OF assms] by (auto simp: subscriptions_def conns_inv_def)
  then show ?thesis
    by (auto simp: sub_event_def sub_message_step subscription_step.Open subscription_step.Same subscription_step.Close
        split: hub_event.split option.split)
qed

interpretation hub_subscriptions:
  refined_machine "\<lambda>h. \<exists>st. h = NewHub st" "hub_step e" hub_inv subscriptions subscription_step for e
  by unfold_locales (simp add: hub_step_subscriptions sub_event_step)

lemma subscriptions_NewHub: "subscriptions (NewHub st) = (\<lambda>_. None)"
  by (rule ext) (simp add: subscriptions_def NewHub_def nilConn_def)

text \<open>C3. Seen as which connections are open, whose they are and to what rooms they are subscribed, the hub
  only opens, subscribes, unsubscribes and closes; each event changes this exactly as the abstract
  operation says; and the hub's maps, as every look-up in them shows, are the two inverse images of
  that relation.\<close>

theorem hub_refines_subscriptions:
  "let h = fold (hub_step e) evs (NewHub st) in
   subscription_step\<^sup>*\<^sup>* (\<lambda>_. None) (subscriptions h)
   \<and> subscriptions (hub_step e ev h) = sub_event e ev h
   \<and> set (connsOf (hub_users h) u) = {c. \<exists>rs. subscriptions h c = Some (u, rs)}
   \<and> set (connsOf (hub_rooms h) r) = {c. \<exists>u rs. subscriptions h c = Some (u, rs) \<and> r \<in> rs}"
proof -
  define h where "h = fold (hub_step e) evs (NewHub st)"
  have inv: "hub_inv h" unfolding h_def by (rule hub.inv_reach) blast
  have "subscription_step\<^sup>*\<^sup>* (\<lambda>_. None) (subscriptions h)"
    using hub_subscriptions.abs_run [OF NewHub_inv] subscriptions_NewHub unfolding h_def by metis
  moreover have "set (connsOf (hub_users h) u) = {c. \<exists>rs. subscriptions h c = Some (u, rs)}"
    using holdsD(3) [OF hub_invD(1) [OF inv]] by (auto simp: subscriptions_def)
  moreover have "set (connsOf (hub_rooms h) r) = {c. \<exists>u rs. subscriptions h c = Some (u, rs) \<and> r \<in> rs}"
    using holdsD(3) [OF hub_invD(2) [OF inv]] by (auto simp: subscriptions_def)
  ultimately show ?thesis using hub_step_subscriptions [OF inv] unfolding h_def by (simp add: Let_def)
qed

section \<open>Delivery\<close>

lemma deliver_all:
  assumes inv: "hub_inv h" and q: "hub_broadcast h = m # ms"
  shows "deliver h = enqueueAll
    {c. (case out_roomID m of Some r \<Rightarrow> byRoom h r c
         | None \<Rightarrow> (case out_userID m of Some u \<Rightarrow> byUser h u c | None \<Rightarrow> False))
        \<and> out_exclude m \<noteq> Some c} (out_event m) (h\<lparr>hub_broadcast := ms\<rparr>)"
proof -
  have "hub_inv (h\<lparr>hub_broadcast := ms\<rparr>)" using inv q by (simp add: hub_inv_def conns_inv_def userOf_def)
  then show ?thesis by (simp add: deliver_def q hub_send_all userOf_def cong: option.case_cong)
qed

text \<open>C9. The hub's turn on a message for a room puts the event at the end of the channel of every open
  connection subscribed to the room, but the excluded one and those whose channel is full; every
  other channel stays as it is, and the message leaves the queue.\<close>

theorem room_broadcast_reaches_subscribers:
  assumes inv: "hub_inv h" and q: "hub_broadcast h = m # ms" "out_roomID m = Some r"
  shows "conn_send (connAt (deliver h) d) = conn_send (connAt h d) @
      (if conn_reading (connAt h d) \<and> r \<in> set (conn_rooms (connAt h d)) \<and> out_exclude m \<noteq> Some d
          \<and> length (conn_send (connAt h d)) < 64
       then [out_event m] else [])
    \<and> hub_broadcast (deliver h) = ms"
  by (simp add: deliver_all [OF inv q(1)] q(2) enqueue_def sendBuffer_def)

section \<open>Messages to a room\<close>

lemma handleMessage_room:
  assumes "parseUUID e (ce_RoomID msg) = Some r" "ce_RoomID msg \<noteq> []"
    "trimSpace (ce_Body msg) \<noteq> [] \<or> ce_AttachmentURL msg \<noteq> []"
  shows "handleMessage e new now c msg h = sendRoomMessage e new now c msg (trimSpace (ce_Body msg)) h"
  using assms by (auto simp: handleMessage_def Let_def)

lemma IsRoomMember_cases:
  "IsRoomMember r u st = Inr True \<longleftrightarrow> st_up st \<and> isMember st r u"
  by (simp add: IsRoomMember_def)

text \<open>C12. A message to a room is stored exactly if it is passed on, and then its sender is a member of the
  room: the new row is trimmed and carries the sender and the room, and one event with the row's
  data and the sender's name is handed to the hub, for everyone in the room. A user who is no member
  gets an error, and nothing else changes.\<close>

theorem room_message_needs_membership:
  assumes msg: "parseUUID e (ce_RoomID msg) = Some r" "ce_RoomID msg \<noteq> []"
      "trimSpace (ce_Body msg) \<noteq> [] \<or> ce_AttachmentURL msg \<noteq> []"
    and idle: "conn_pending (connAt h c) = []"
  shows "let h' = handleMessage e new now c msg h in
    (\<not> isMember (hub_store h) r (userOf h c) \<longrightarrow> h' = enqueueTo c (errorEvent ''not a member'') h)
    \<and> (st_messages (hub_store h') = st_messages (hub_store h) \<and> conn_pending (connAt h' c) = []
       \<or> isMember (hub_store h) r (userOf h c)
         \<and> (\<exists>m. st_messages (hub_store h') = st_messages (hub_store h) @ [m]
              \<and> msg_RoomID m = Some r \<and> SenderID m = userOf h c \<and> Body m = trimSpace (ce_Body msg)
              \<and> conn_pending (connAt h' c) =
                [\<lparr>out_roomID = Some r, out_userID = None, out_event =
                   messageEvent (payloadOf (conn_user (connAt h c)) (Some r) None m), out_exclude = None\<rparr>]))"
proof -
  let ?st = "hub_store h" and ?u = "userOf h c"
  note eq = handleMessage_room [OF msg, of new now c h]
  obtain res st where cm: "CreateMessage (ws_sql e) new now (Some r) ?u None (trimSpace (ce_Body msg))
      (ce_AttachmentURL msg) MessageTypeText ?st = (res, st)" by (metis surj_pair)
  show ?thesis
  proof (cases "IsRoomMember r ?u ?st = Inr True")
    case False
    then have "handleMessage e new now c msg h = enqueueTo c (errorEvent ''not a member'') h"
      unfolding eq sendRoomMessage_def msg(1) by (simp split: sum.split bool.split)
    then show ?thesis using idle by (simp add: Let_def enqueueTo_all)
  next
    case True
    then have mem: "isMember ?st r ?u" by (simp add: IsRoomMember_cases)
    show ?thesis
    proof (cases res)
      case (Inl err)
      then have "handleMessage e new now c msg h = h\<lparr>hub_store := st\<rparr>" "st = ?st"
        unfolding eq sendRoomMessage_def using True cm msg(1)
        by (simp_all add: CreateMessage_def Let_def split: if_splits)
      then show ?thesis using idle mem by (simp add: Let_def)
    next
      case (Inr m)
      then have "handleMessage e new now c msg h = ws_broadcastRoom c r
          (messageEvent (payloadOf (conn_user (connAt h c)) (Some r) None m)) None (h\<lparr>hub_store := st\<rparr>)"
        unfolding eq sendRoomMessage_def using True cm msg(1) by simp
      moreover have "st_messages st = st_messages ?st @ [m]" "msg_RoomID m = Some r" "SenderID m = ?u"
          "Body m = trimSpace (ce_Body msg)"
        using cm Inr by (auto simp: CreateMessage_def Let_def split: if_splits)
      ultimately show ?thesis using idle mem
        by (simp add: Let_def ws_broadcastRoom_def)
    qed
  qed
qed

definition plainParse :: "string \<Rightarrow> uuid option" where
  "plainParse s = (if s \<noteq> [] \<and> list_all isDecimal s then Some (of_nat (digitsVal s)) else None)"

definition plainEnv :: wsenv where
  "plainEnv = \<lparr>ws_sql = plainSql, parseUUID = plainParse\<rparr>"

text \<open>Ann has two connections, Bob one; Ann has joined room 10 on the first of hers.\<close>

definition joinMsg :: "string \<Rightarrow> ClientEvent" where
  "joinMsg r = \<lparr>ce_Type = ''join_room'', ce_RoomID = r, ce_RecipientID = [], ce_Body = [], ce_AttachmentURL = [],
     ce_IsTyping = False\<rparr>"

definition sampleUser :: "nat \<Rightarrow> User" where
  "sampleUser i = fst (st_users sampleStore ! i)"

definition sampleHub :: Hub where
  "sampleHub = fold (hub_step plainEnv)
     [Accept 1 (sampleUser 0), Accept 2 (sampleUser 0), Accept 3 (sampleUser 1), Read 0 0 4 (Some (joinMsg ''10''))]
     (NewHub sampleStore)"

lemma sampleHub_inv: "hub_inv sampleHub"
  unfolding sampleHub_def by (rule hub.inv_reach) blast

definition lookConn :: "Hub \<Rightarrow> connref \<Rightarrow> uuid \<times> nat \<times> uuid list \<times> nat \<times> bool" where
  "lookConn h c = (userOf h c, length (conn_send (connAt h c)), conn_rooms (connAt h c),
     length (conn_pending (connAt h c)), conn_reading (connAt h c))"

definition lookHub :: "Hub \<Rightarrow> (uuid \<times> nat \<times> uuid list \<times> nat \<times> bool) list \<times> bool \<times> bool list \<times> nat" where
  "lookHub h = (map (lookConn h) [0, 1, 2], st_up (hub_store h),
     map (isMember (hub_store h) 10) [1, 2], nextConn h)"

lemma look_sampleHub:
  "lookHub sampleHub = ([(1, 4, [10], 0, True), (1, 2, [], 0, True), (2, 1, [], 0, True)], True, [True, False], 3)"
  by code_simp

lemmas sampleHub_facts = look_sampleHub [unfolded lookHub_def lookConn_def, simplified]

definition chatMsg :: "string \<Rightarrow> string \<Rightarrow> string \<Rightarrow> ClientEvent" where
  "chatMsg r d b = \<lparr>ce_Type = ''message'', ce_RoomID = r, ce_RecipientID = d, ce_Body = b, ce_AttachmentURL = [],
     ce_IsTyping = False\<rparr>"

theorem room_message_needs_membership_witness:
  "handleMessage plainEnv 50 9 2 (chatMsg ''10'' [] '' hi '') sampleHub =
     enqueueTo 2 (errorEvent ''not a member'') sampleHub"
proof -
  have "parseUUID plainEnv (ce_RoomID (chatMsg ''10'' [] '' hi '')) = Some 10" "trimSpace '' hi '' = ''hi''" by code_simp+
  with room_message_needs_membership [of plainEnv "chatMsg ''10'' [] '' hi ''" 10 sampleHub 2 50 9]
  show ?thesis by (simp add: chatMsg_def Let_def sampleHub_facts)
qed

theorem room_broadcast_reaches_subscribers_witness:
  "\<exists>h m. hub_broadcast h = [m] \<and> conn_send (connAt (deliver h) 0) = conn_send (connAt h 0) @ [out_event m]
     \<and> conn_send (connAt (deliver h) 1) = conn_send (connAt h 1)"
proof -
  define m where "m = \<lparr>out_roomID = Some 10, out_userID = None, out_event = errorEvent ''x'', out_exclude = None\<rparr>"
  define h where "h = sampleHub\<lparr>hub_broadcast := [m]\<rparr>"
  have "hub_inv h" using sampleHub_inv by (simp add: h_def hub_inv_def conns_inv_def userOf_def broadcastBuffer_def)
  from room_broadcast_reaches_subscribers [OF this, of m "[]" 10]
  have "conn_send (connAt (deliver h) d) = conn_send (connAt h d) @
      (if conn_reading (connAt h d) \<and> 10 \<in> set (conn_rooms (connAt h d)) \<and> length (conn_send (connAt h d)) < 64
       then [out_event m] else [])" for d
    by (simp add: h_def m_def)
  then show ?thesis by (intro exI [of _ h] exI [of _ m]) (simp add: h_def sampleHub_facts)
qed

section \<open>Joining\<close>

text \<open>A join over the WebSocket subscribes the connection and says so whatever the store answers: with the
  database down, for a room that does not exist, and for a private room, of which the store then
  makes the user a member without anybody's leave.\<close>

theorem join_ignores_store:
  assumes "parseUUID e roomID = Some r" "conn_reading (connAt h c)"
  shows "let h' = ws_joinRoom e now c roomID h in
    subscriptions h' c = Some (userOf h c, insert r (set (conn_rooms (connAt h c))))
    \<and> (length (conn_send (connAt h c)) < 64 \<longrightarrow> conn_send (connAt h' c) = conn_send (connAt h c) @
         [\<lparr>ev_Type = ''room_joined'', ev_Data = RoomJoinData \<lparr>join_RoomID = r, join_UserID = userOf h c\<rparr>\<rparr>])
    \<and> (isMember (hub_store h') r (userOf h c) \<longleftrightarrow> isMember (hub_store h) r (userOf h c)
         \<or> st_up (hub_store h) \<and> sql_text (ws_sql e) ''member''
           \<and> isRoom (hub_store h) r \<and> isUser (hub_store h) (userOf h c))"
proof -
  have "subscriptions (ws_joinRoom e now c roomID h) c = Some (userOf h c, insert r (set (conn_rooms (connAt h c))))"
    using subscriptions_join [OF assms(2)] assms(1) by simp
  moreover have "hub_store (ws_joinRoom e now c roomID h) =
      snd (AddRoomMember (ws_sql e) now r (userOf h c) ''member'' (hub_store h))"
    using assms(1) by (simp add: ws_joinRoom_def Let_def enqueueTo_all SubscribeRoom_def)
  moreover have "isMember (snd (AddRoomMember q now r u role st)) r u \<longleftrightarrow>
      isMember st r u \<or> st_up st \<and> sql_text q role \<and> isRoom st r \<and> isUser st u" for q u role st
    by (auto simp: AddRoomMember_def isMember_def)
  moreover have "length (conn_send (connAt h c)) < 64 \<Longrightarrow>
      conn_send (connAt (ws_joinRoom e now c roomID h) c) = conn_send (connAt h c) @
         [\<lparr>ev_Type = ''room_joined'', ev_Data = RoomJoinData \<lparr>join_RoomID = r, join_UserID = userOf h c\<rparr>\<rparr>]"
    using assms(1)
    by (simp add: ws_joinRoom_def Let_def enqueueTo_all SubscribeRoom_def enqueue_def sendBuffer_def userOf_def)
  ultimately show ?thesis by (simp add: Let_def)
qed

theorem join_ignores_store_witness:
  "subscriptions (ws_joinRoom plainEnv 9 2 ''77'' sampleHub) 2 = Some (2, {77})
   \<and> \<not> isMember (hub_store (ws_joinRoom plainEnv 9 2 ''77'' sampleHub)) 77 2"
proof -
  have p: "parseUUID plainEnv ''77'' = Some 77" by code_simp
  have r: "conn_reading (connAt sampleHub 2)" by (simp add: sampleHub_facts)
  have "\<not> isRoom (hub_store sampleHub) 77 \<and> \<not> isMember (hub_store sampleHub) 77 2" by code_simp
  with join_ignores_store [OF p r, of 9] show ?thesis by (simp add: Let_def sampleHub_facts)
qed

section \<open>Messages to oneself\<close>

text \<open>A private message is handed to the hub twice, for the recipient and for the sender; to oneself it is
  the same message twice, so that every connection of the user gets the event twice.\<close>

theorem dm_to_self_twice:
  assumes "parseUUID e (ce_RecipientID msg) = Some (userOf h c)" "conn_pending (connAt h c) = []"
    and m: "fst (CreateMessage (ws_sql e) new now None (userOf h c) (Some (userOf h c)) body (ce_AttachmentURL msg)
        MessageTypeText (hub_store h)) = Inr m"
  shows "conn_pending (connAt (sendDMMessage e new now c msg body h) c) =
    replicate 2 \<lparr>out_roomID = None, out_userID = Some (userOf h c), out_event =
      messageEvent (payloadOf (conn_user (connAt h c)) None (Some (userOf h c)) m), out_exclude = None\<rparr>"
proof -
  obtain st where "CreateMessage (ws_sql e) new now None (userOf h c) (Some (userOf h c)) body (ce_AttachmentURL msg)
        MessageTypeText (hub_store h) = (Inr m, st)"
    using m by (metis prod.collapse)
  then show ?thesis
    using assms(1,2)
    by (simp add: sendDMMessage_def Let_def ws_broadcastUser_def numeral_2_eq_2)
qed

theorem dm_to_self_twice_witness:
  "\<exists>m. conn_pending (connAt (sendDMMessage plainEnv 50 9 0 (chatMsg [] ''1'' ''note'') ''note'' sampleHub) 0) = [m, m]"
proof -
  have p: "parseUUID plainEnv (ce_RecipientID (chatMsg [] ''1'' ''note'')) = Some (userOf sampleHub 0)"
    by (simp add: sampleHub_facts) code_simp
  have "\<not> isl (fst (CreateMessage (ws_sql plainEnv) 50 9 None (userOf sampleHub 0) (Some (userOf sampleHub 0)) ''note''
      (ce_AttachmentURL (chatMsg [] ''1'' ''note'')) MessageTypeText (hub_store sampleHub)))"
    by (simp add: sampleHub_facts) code_simp
  from dm_to_self_twice [OF p _ sum.collapse(2) [OF this, symmetric]] show ?thesis
    by (simp add: sampleHub_facts numeral_2_eq_2)
qed

section \<open>Presence\<close>

text \<open>C23. When a connection's reader ends, the other connections are told that the user is offline exactly if
  it was the user's last connection; a user with another one stays online, and nobody is told
  anything.\<close>

theorem offline_after_last_connection:
  assumes inv: "hub_inv h" and c: "conn_reading (connAt h c)" "conn_pending (connAt h c) = []"
    and d: "d \<noteq> c" "conn_reading (connAt h d)" "length (conn_send (connAt h d)) < 64"
  shows "conn_send (connAt (ws_readLoop e new now c None h) d) = conn_send (connAt h d) @
    (if \<exists>c'. c' \<noteq> c \<and> conn_reading (connAt h c') \<and> userOf h c' = userOf h c then []
     else [\<lparr>ev_Type = ''presence'', ev_Data = PresenceData
             \<lparr>pres_UserID = userOf h c, Online = False, LastSeen = now\<rparr>\<rparr>])"
proof -
  note users = holdsD(3) [OF hub_invD(1) [OF inv]]
  have last: "lastConn c h \<longleftrightarrow> \<not> (\<exists>c'. c' \<noteq> c \<and> conn_reading (connAt h c') \<and> userOf h c' = userOf h c)"
  proof -
    have "c \<in> set (connsOf (hub_users h) (userOf h c))" using c by (simp add: users)
    then have "connsOf (hub_users h) (userOf h c) \<noteq> []" by auto
    moreover have "removeAll c xs = [] \<longleftrightarrow> set xs \<subseteq> {c}" for xs :: "connref list"
      by (metis Diff_eq_empty_iff set_empty set_removeAll)
    ultimately show ?thesis unfolding lastConn_def using users by auto
  qed
  have "d \<in> \<Union> (set ` snd ` set (takeOut (userOf h c) c (hub_users h)))"
  proof -
    have "holds (takeOut (userOf h c) c (hub_users h)) (\<lambda>k c'. byUser h k c' \<and> \<not> (k = userOf h c \<and> c' = c))"
      by (rule holds_takeOut [OF hub_invD(1) [OF inv]])
    then have "d \<in> set (connsOf (takeOut (userOf h c) c (hub_users h)) (userOf h d))"
      using holdsD(3) d by blast
    then obtain cs where "map_of (takeOut (userOf h c) c (hub_users h)) (userOf h d) = Some cs" "d \<in> set cs"
      by (cases "map_of (takeOut (userOf h c) c (hub_users h)) (userOf h d)") (simp_all add: connsOf_def)
    with map_of_SomeD [OF this(1)] show ?thesis by force
  qed
  then show ?thesis
    using c d
    by (simp add: last ws_readLoop_def removeConn_eq [OF inv] Let_def presence_all enqueue_def sendBuffer_def)
qed

theorem offline_after_last_connection_witness:
  "conn_send (connAt (ws_readLoop plainEnv 0 9 0 None sampleHub) 2) = conn_send (connAt sampleHub 2)
   \<and> conn_send (connAt (ws_readLoop plainEnv 0 9 2 None sampleHub) 0) = conn_send (connAt sampleHub 0) @
      [\<lparr>ev_Type = ''presence'', ev_Data = PresenceData \<lparr>pres_UserID = 2, Online = False, LastSeen = 9\<rparr>\<rparr>]"
proof -
  have three: "c' = 0 \<or> c' = 1 \<or> c' = 2" if "conn_reading (connAt sampleHub c')" for c'
  proof -
    have "c' < 3" using that hub_invD(3) [OF sampleHub_inv] by (simp add: conns_inv_def sampleHub_facts)
    then show ?thesis by auto
  qed
  have "\<exists>c'. c' \<noteq> 0 \<and> conn_reading (connAt sampleHub c') \<and> userOf sampleHub c' = userOf sampleHub 0"
    by (rule exI [of _ 1]) (simp add: sampleHub_facts)
  moreover have "c' = 2" if "conn_reading (connAt sampleHub c')" "userOf sampleHub c' = userOf sampleHub 2" for c'
    using three [OF that(1)] that(2) by (auto simp: sampleHub_facts)
  then have "\<not> (\<exists>c'. c' \<noteq> 2 \<and> conn_reading (connAt sampleHub c') \<and> userOf sampleHub c' = userOf sampleHub 2)"
    by blast
  ultimately show ?thesis
    using offline_after_last_connection [OF sampleHub_inv, of 0 2 plainEnv 0 9]
      offline_after_last_connection [OF sampleHub_inv, of 2 0 plainEnv 0 9]
    by (simp add: sampleHub_facts)
qed

end
