(* ===== verification/Ws_Progress.thy ===== *)
theory Ws_Progress
  imports Ws_Properties
begin

text \<open>
  What comes of the hub's goroutines in the end: a reader that is blocked on the broadcast channel gets
  its messages through, in order, as it gets turns that find room there, and the write loop of a
  connection that is gone waits for ever.
\<close>

section \<open>What a connection's own operations leave alone\<close>

text \<open>What an operation of connection \<open>c\<close> leaves alone.\<close>

definition onlyOwn :: "connref \<Rightarrow> Hub \<Rightarrow> Hub \<Rightarrow> bool" where
  "onlyOwn c h h' \<longleftrightarrow> nextConn h' = nextConn h \<and> (\<forall>d. d \<noteq> c \<longrightarrow> connAt h' d = connAt h d)"

lemma onlyOwn_simps [simp]:
  "onlyOwn c h h"
  "onlyOwn c h (modConn c f h') = onlyOwn c h h'"
  "onlyOwn c h (enqueueTo c ev h') = onlyOwn c h h'"
  "onlyOwn c h (ws_broadcastRoom c r ev x h') = onlyOwn c h h'"
  "onlyOwn c h (ws_broadcastUser c u ev x h') = onlyOwn c h h'"
  "onlyOwn c h (h'\<lparr>hub_store := st\<rparr>) = onlyOwn c h h'"
  "onlyOwn c h (h'\<lparr>hub_rooms := rs\<rparr>) = onlyOwn c h h'"
  by (simp_all add: onlyOwn_def enqueueTo_def ws_broadcastRoom_def ws_broadcastUser_def modConn_def)

lemma onlyOwn_rooms [simp]:
  "onlyOwn c h (SubscribeRoom r c h') = onlyOwn c h h'"
  "onlyOwn c h (UnsubscribeRoom r c h') = onlyOwn c h h'"
  by (simp_all add: SubscribeRoom_def UnsubscribeRoom_def Let_def split: option.split)

lemma onlyOwn_messages [simp]:
  "onlyOwn c h (sendRoomMessage e new now c msg body h)"
  "onlyOwn c h (sendDMMessage e new now c msg body h)"
  "onlyOwn c h (handleTyping e c msg h)"
  "onlyOwn c h (handleRead e now c msg h)"
  by (simp_all add: sendRoomMessage_def sendDMMessage_def handleTyping_def handleRead_def Let_def
      split: option.split sum.split bool.split prod.split)

lemma client_touches_itself: "onlyOwn c h (handleClientEvent e new now c msg h)"
  by (simp add: handleClientEvent_def ws_joinRoom_def ws_leaveRoom_def handleMessage_def Let_def split: option.split)

section \<open>Blocked readers get through\<close>

lemma deliver_idle: "hub_broadcast h = [] \<Longrightarrow> deliver h = h"
  by (simp add: deliver_def)

lemma deliver_projs:
  assumes "hub_inv h"
  shows "hub_broadcast (deliver h) = tl (hub_broadcast h) \<and> nextConn (deliver h) = nextConn h
    \<and> (\<forall>d. conn_pending (connAt (deliver h) d) = conn_pending (connAt h d))"
proof (cases "hub_broadcast h")
  case (Cons m ms)
  show ?thesis by (simp add: deliver_all [OF assms Cons] Cons)
qed (simp add: deliver_idle)

text \<open>The turns of a reader's blocked send that find room in the channel.\<close>

definition findsRoom :: "connref \<Rightarrow> hub_event \<Rightarrow> Hub \<Rightarrow> bool" where
  "findsRoom c ev h \<longleftrightarrow> ev = Push c \<and> length (hub_broadcast h) < broadcastBuffer"

fun roomyTurns :: "wsenv \<Rightarrow> connref \<Rightarrow> hub_event list \<Rightarrow> Hub \<Rightarrow> nat" where
  "roomyTurns e c [] h = 0"
| "roomyTurns e c (ev # evs) h = (if findsRoom c ev h then 1 else 0) + roomyTurns e c evs (hub_step e ev h)"

text \<open>While a reader is blocked nothing but such a turn touches what it has still to send.\<close>

lemma blocked_step:
  assumes inv: "hub_inv h" and p: "conn_pending (connAt h c) = m # ms"
  shows "conn_pending (connAt (hub_step e ev h) c) = (if findsRoom c ev h then ms else m # ms)"
    and "findsRoom c ev h \<Longrightarrow> hub_broadcast (hub_step e ev h) = hub_broadcast h @ [m]"
proof -
  have c: "c < nextConn h" using hub_invD(3) [OF inv] p unfolding conns_inv_def by (metis list.distinct(1))
  show "findsRoom c ev h \<Longrightarrow> hub_broadcast (hub_step e ev h) = hub_broadcast h @ [m]"
    by (auto simp: findsRoom_def push_def p)
  show "conn_pending (connAt (hub_step e ev h) c) = (if findsRoom c ev h then ms else m # ms)"
  proof (cases ev)
    case (Accept now user)
    then show ?thesis using c p by (simp add: findsRoom_def accept_def addConn_def Let_def presence_all)
  next
    case (Read d new now msg)
    show ?thesis
    proof (cases "conn_reading (connAt h d) \<and> conn_pending (connAt h d) = []")
      case True
      then have "d \<noteq> c" using p by auto
      then have "connAt (handleClientEvent e new now d m' h) c = connAt h c" for m'
        using client_touches_itself [of d h e new now m'] by (simp add: onlyOwn_def)
      with \<open>d \<noteq> c\<close> True p show ?thesis
        by (simp add: Read findsRoom_def ws_readLoop_def removeConn_eq [OF inv] Let_def presence_all split: option.split)
    qed (use p in \<open>auto simp: Read findsRoom_def ws_readLoop_def\<close>)
  next
    case (Push d)
    then show ?thesis using p by (auto simp: findsRoom_def push_def split: list.split)
  next
    case Deliver
    then show ?thesis using p by (simp add: findsRoom_def deliver_projs [OF inv])
  next
    case (Write d ok)
    then show ?thesis using p by (cases "d = c") (simp_all add: findsRoom_def ws_writeLoop_def split: list.split)
  qed
qed

text \<open>A turn of the hub always leaves room.\<close>

lemma deliver_makes_room: "hub_inv h \<Longrightarrow> length (hub_broadcast (deliver h)) < broadcastBuffer"
  using deliver_projs [of h] hub_invD(3) [of h] by (cases "hub_broadcast h") (auto simp: conns_inv_def broadcastBuffer_def)

text \<open>C26. A reader that is blocked with messages for the hub, whatever else happens meanwhile -- other
  connections' frames, connects, disconnects, deliveries, writes, and other readers taking the free
  places of the channel: the messages it has not sent yet stay the rest of what it had, in order, one
  less for each of its turns that finds room in the channel; after as many such turns as it has
  messages it has been unblocked; and each turn of the hub makes room.\<close>

theorem blocked_reader_gets_through:
  assumes inv: "hub_inv h"
  shows "(\<forall>n\<le>length evs.
      (\<forall>k<n. conn_pending (connAt (fold (hub_step e) (take k evs) h) c) \<noteq> []) \<longrightarrow>
      conn_pending (connAt (fold (hub_step e) (take n evs) h) c)
        = drop (roomyTurns e c (take n evs) h) (conn_pending (connAt h c)))
    \<and> (length (conn_pending (connAt h c)) \<le> roomyTurns e c evs h \<longrightarrow>
      (\<exists>n\<le>length evs. conn_pending (connAt (fold (hub_step e) (take n evs) h) c) = []))
    \<and> length (hub_broadcast (deliver (fold (hub_step e) evs h))) < broadcastBuffer"
proof -
  have rest: "conn_pending (connAt (fold (hub_step e) (take n evs) h) c)
      = drop (roomyTurns e c (take n evs) h) (conn_pending (connAt h c))"
    if "n \<le> length evs" "\<forall>k<n. conn_pending (connAt (fold (hub_step e) (take k evs) h) c) \<noteq> []" for n
    using inv that
  proof (induction n arbitrary: evs h)
    case (Suc n)
    from Suc.prems(2) obtain ev evs' where evs: "evs = ev # evs'" by (cases evs) simp_all
    from Suc.prems(3) have "conn_pending (connAt h c) \<noteq> []" by fastforce
    then obtain m ms where p: "conn_pending (connAt h c) = m # ms" by (cases "conn_pending (connAt h c)") simp_all
    have "\<forall>k<n. conn_pending (connAt (fold (hub_step e) (take k evs') (hub_step e ev h)) c) \<noteq> []"
      using Suc.prems(3) unfolding evs by fastforce
    from Suc.IH [OF hub_step_inv [OF Suc.prems(1)] _ this] Suc.prems(2) evs
    show ?case by (simp add: blocked_step(1) [OF Suc.prems(1) p] p)
  qed simp
  have "\<exists>n\<le>length evs. conn_pending (connAt (fold (hub_step e) (take n evs) h) c) = []"
    if "length (conn_pending (connAt h c)) \<le> roomyTurns e c evs h"
  proof (rule ccontr)
    assume never: "\<not> ?thesis"
    with rest [of "length evs"] have "conn_pending (connAt (fold (hub_step e) evs h) c)
        = drop (roomyTurns e c evs h) (conn_pending (connAt h c))" by simp
    with that never show False by auto
  qed
  moreover have "hub_inv (fold (hub_step e) evs h)" using inv by (rule hub.inv_run)
  ultimately show ?thesis using rest deliver_makes_room by blast
qed

definition blockedHub :: Hub where
  "blockedHub = hub_step plainEnv (Read 0 60 5 (Some (chatMsg [] ''2'' ''hello''))) sampleHub"

text \<open>Connection 0 has two messages to send; connections 1 and 2 do this and that in between.\<close>

definition busySchedule :: "hub_event list" where
  "busySchedule = [Write 0 True, Push 0, Read 1 61 6 (Some (chatMsg ''1'' [] ''me too'')), Push 1, Deliver,
     Accept 7 (sampleUser 1), Push 0, Deliver]"

theorem blocked_reader_gets_through_witness:
  "length (conn_pending (connAt blockedHub 0)) = 2
   \<and> (\<exists>n\<le>8. conn_pending (connAt (fold (hub_step plainEnv) (take n busySchedule) blockedHub) 0) = [])"
proof -
  have inv: "hub_inv blockedHub" unfolding blockedHub_def by (rule hub_step_inv) (rule sampleHub_inv)
  have "(length (conn_pending (connAt blockedHub 0)), roomyTurns plainEnv 0 busySchedule blockedHub, length busySchedule)
      = (2, 2, 8)" by code_simp
  then show ?thesis using blocked_reader_gets_through [OF inv, of busySchedule plainEnv 0] by simp
qed

section \<open>A write loop that never ends\<close>

lemma closed_is_untouched:
  assumes inv: "hub_inv h" and c: "\<not> conn_reading (connAt h c)" "c < nextConn h" "conn_send (connAt h c) = []"
  shows "connAt (hub_step e ev h) c = connAt h c \<and> c < nextConn (hub_step e ev h)"
proof (cases ev)
  case (Accept now user)
  let ?h = "h\<lparr>connAt := (connAt h)(nextConn h := NewConn user), nextConn := Suc (nextConn h)\<rparr>"
  have "c \<notin> \<Union> (set ` snd ` set (AList.update (user_ID user) (List.insert (nextConn h)
      (connsOf (hub_users h) (user_ID user))) (hub_users h)))"
  proof
    assume "c \<in> \<Union> (set ` snd ` set (AList.update (user_ID user) (List.insert (nextConn h)
      (connsOf (hub_users h) (user_ID user))) (hub_users h)))"
    then obtain k cs where k: "(k, cs) \<in> set (AList.update (user_ID user) (List.insert (nextConn h)
      (connsOf (hub_users h) (user_ID user))) (hub_users h))" "c \<in> set cs" by auto
    note ins = holds_insert [OF hub_invD(1) [OF inv], of "user_ID user" "nextConn h"]
    from holds_mem [OF ins k(1)] k(2) holdsD(3) [OF ins, of c k] c show False by (auto simp: connsOf_def)
  qed
  then show ?thesis using c
    by (simp add: Accept accept_def addConn_def Let_def presence_all userOf_def NewConn_def)
next
  case (Read d new now msg)
  show ?thesis
  proof (cases "conn_reading (connAt h d) \<and> conn_pending (connAt h d) = []")
    case True
    then have "d \<noteq> c" using c by auto
    have gone: "c \<notin> \<Union> (set ` snd ` set (takeOut (userOf h d) d (hub_users h)))"
    proof
      assume "c \<in> \<Union> (set ` snd ` set (takeOut (userOf h d) d (hub_users h)))"
      then obtain k cs where k: "(k, cs) \<in> set (takeOut (userOf h d) d (hub_users h))" "c \<in> set cs" by auto
      note out = holds_takeOut [OF hub_invD(1) [OF inv], of "userOf h d" d]
      from holds_mem [OF out k(1)] k(2) holdsD(3) [OF out, of c k] c show False by (auto simp: connsOf_def)
    qed
    have "connAt (handleClientEvent e new now d m h) c = connAt h c"
      "nextConn (handleClientEvent e new now d m h) = nextConn h" for m
      using client_touches_itself [of d h e new now m] \<open>d \<noteq> c\<close> by (simp_all add: onlyOwn_def)
    with gone \<open>d \<noteq> c\<close> True c show ?thesis
      by (simp add: Read ws_readLoop_def removeConn_eq [OF inv] Let_def presence_all split: option.split)
  qed (use c in \<open>auto simp: Read ws_readLoop_def\<close>)
next
  case (Push d)
  have "conn_pending (connAt h c) = []" using hub_invD(3) [OF inv] c(1) unfolding conns_inv_def by blast
  then show ?thesis using c by (auto simp: Push push_def split: list.split)
next
  case Deliver
  show ?thesis
  proof (cases "hub_broadcast h")
    case (Cons m ms)
    then show ?thesis using c by (simp add: Deliver deliver_all [OF inv Cons] split: option.split)
  qed (use c in \<open>simp add: Deliver deliver_def\<close>)
next
  case (Write d ok)
  then show ?thesis using c by (cases "d = c") (simp_all add: ws_writeLoop_def modConn_def)
qed

text \<open>The hub never closes a connection's channel: a write loop that waits on the empty channel of a
  connection that has been removed waits for ever, whatever happens afterwards.\<close>

theorem removed_connection_leaks_writer:
  assumes "hub_inv h" "c < nextConn h" "\<not> conn_reading (connAt h c)" "conn_send (connAt h c) = []" "conn_writing (connAt h c)"
  shows "conn_writing (connAt (fold (hub_step e) evs h) c) \<and> conn_send (connAt (fold (hub_step e) evs h) c) = []"
  using assms
proof (induction evs arbitrary: h)
  case (Cons ev evs)
  from closed_is_untouched [OF Cons.prems(1,3,2,4), of e ev] Cons.prems Cons.IH [of "hub_step e ev h"]
  show ?case by (simp add: hub_step_inv)
qed simp

definition goneHub :: Hub where
  "goneHub = fold (hub_step plainEnv) [Accept 1 (sampleUser 0), Write 0 True, Read 0 0 2 None] (NewHub sampleStore)"

theorem removed_connection_leaks_writer_witness:
  "conn_writing (connAt (fold (hub_step plainEnv) [Accept 3 (sampleUser 1), Write 0 True, Deliver] goneHub) 0)"
proof -
  have inv: "hub_inv goneHub" unfolding goneHub_def by (rule hub.inv_reach) blast
  have "(nextConn goneHub, conn_reading (connAt goneHub 0), conn_send (connAt goneHub 0), conn_writing (connAt goneHub 0))
      = (1, False, [], True)" by code_simp
  then have "0 < nextConn goneHub" "\<not> conn_reading (connAt goneHub 0)" "conn_send (connAt goneHub 0) = []"
    "conn_writing (connAt goneHub 0)" by (simp_all only: prod.inject simp_thms zero_less_one)
  from removed_connection_leaks_writer [OF inv this] show ?thesis by (rule conjunct1)
qed

end
