(* ===== verification/Go_Json.thy ===== *)
theory Go_Json
  imports Go_Numbers
begin

text \<open>
  \<open>encoding/json\<close>, as the program uses it: \<open>NewDecoder(r).Decode(&v)\<close> into a struct of strings and
  booleans, and \<open>NewEncoder(w).Encode(v)\<close>. Between the bytes and the Go values stands the tree of the JSON
  text. The decoder reads one value and does not look at what follows it; the encoder is the one of
  Go 1.21, which \<open>go.mod\<close> asks for.
\<close>

datatype json =
    JNull
  | JBool bool
  | JNumber string
  | JString string
  | JArray "json list"
  | JObject "(string \<times> json) list"

section \<open>Encoding\<close>

definition escapeByte :: "char \<Rightarrow> string" where
  "escapeByte c =
     (if c = CHR 0x22 \<or> c = CHR 0x5C then [CHR 0x5C, c]
      else if c = CHR 0x0A then [CHR 0x5C, CHR ''n'']
      else if c = CHR 0x0D then [CHR 0x5C, CHR ''r'']
      else if c = CHR 0x09 then [CHR 0x5C, CHR ''t'']
      else if byte c < 0x20 \<or> c = CHR ''<'' \<or> c = CHR ''>'' \<or> c = CHR ''&''
      then [CHR 0x5C, CHR ''u''] @ hexPad 4 (byte c)
      else [c])"

text \<open>A byte that does not decode is written as the escape of the replacement character.\<close>

fun escapeJSON :: "string \<Rightarrow> string" where
  "escapeJSON [] = []"
| "escapeJSON (c # cs) =
     (if byte c < 0x80 then escapeByte c @ escapeJSON cs
      else let (r, n) = decodeRune (c # cs) in
        (if r = RuneError \<and> n = 1 \<or> r = 0x2028 \<or> r = 0x2029
         then [CHR 0x5C, CHR ''u''] @ hexPad 4 r else take n (c # cs)) @ escapeJSON (drop (n - 1) cs))"

definition quoteJSON :: "string \<Rightarrow> string" where
  "quoteJSON s = [CHR 0x22] @ escapeJSON s @ [CHR 0x22]"

fun encodeJSON :: "json \<Rightarrow> string"
  and encodeElems :: "json list \<Rightarrow> string"
  and encodeMembers :: "(string \<times> json) list \<Rightarrow> string" where
  "encodeJSON JNull = ''null''"
| "encodeJSON (JBool b) = (if b then ''true'' else ''false'')"
| "encodeJSON (JNumber n) = n"
| "encodeJSON (JString s) = quoteJSON s"
| "encodeJSON (JArray js) = ''['' @ encodeElems js"
| "encodeJSON (JObject kvs) = ''{'' @ encodeMembers kvs"
| "encodeElems [] = '']''"
| "encodeElems [j] = encodeJSON j @ '']''"
| "encodeElems (j # k # js) = encodeJSON j @ '','' @ encodeElems (k # js)"
| "encodeMembers [] = ''}''"
| "encodeMembers [(k, v)] = quoteJSON k @ '':'' @ encodeJSON v @ ''}''"
| "encodeMembers ((k, v) # kv # kvs) = quoteJSON k @ '':'' @ encodeJSON v @ '','' @ encodeMembers (kv # kvs)"

section \<open>Strings\<close>

definition hexDigitVal :: "char \<Rightarrow> nat option" where
  "hexDigitVal c =
     (let b = byte c in
      if 48 \<le> b \<and> b \<le> 57 then Some (b - 48)
      else if 97 \<le> b \<and> b \<le> 102 then Some (b - 87)
      else if 65 \<le> b \<and> b \<le> 70 then Some (b - 55)
      else None)"

definition hexVal :: "string \<Rightarrow> nat option" where
  "hexVal s = fold (\<lambda>c acc. case (acc, hexDigitVal c) of (Some n, Some d) \<Rightarrow> Some (n * 16 + d) | _ \<Rightarrow> None) s (Some 0)"

text \<open>\<open>getu4\<close>: four hexadecimal digits at the front.\<close>

definition getu4 :: "string \<Rightarrow> nat option" where
  "getu4 s = (if length s < 4 then None else hexVal (take 4 s))"

definition escapes :: "(char, char) gomap" where
  "escapes = [(CHR 0x22, CHR 0x22), (CHR 0x5C, CHR 0x5C), (CHR ''/'', CHR ''/''), (CHR ''b'', CHR 0x08),
     (CHR ''f'', CHR 0x0C), (CHR ''n'', CHR 0x0A), (CHR ''r'', CHR 0x0D), (CHR ''t'', CHR 0x09)]"

text \<open>The scanner: the text of a string up to its closing quote, and what follows.\<close>

fun scanQuoted :: "string \<Rightarrow> (string \<times> string) option" where
  "scanQuoted [] = None"
| "scanQuoted (c # cs) =
     (if c = CHR 0x22 then Some ([], cs)
      else if byte c < 0x20 then None
      else if c = CHR 0x5C
      then (case cs of
              [] \<Rightarrow> None
            | d # ds \<Rightarrow>
                if map_of escapes d \<noteq> None then map_option (\<lambda>(b, r). (c # d # b, r)) (scanQuoted ds)
                else if d = CHR ''u'' \<and> getu4 ds \<noteq> None
                then map_option (\<lambda>(b, r). (c # d # take 4 ds @ b, r)) (scanQuoted (drop 4 ds))
                else None)
      else map_option (\<lambda>(b, r). (c # b, r)) (scanQuoted cs))"

text \<open>\<open>utf16.DecodeRune\<close> of two halves; \<open>None\<close> stands for the replacement character.\<close>

definition surrogates :: "nat \<Rightarrow> nat option \<Rightarrow> rune option" where
  "surrogates hi lo =
     (case lo of
        None \<Rightarrow> None
      | Some l \<Rightarrow> if 0xD800 \<le> hi \<and> hi < 0xDC00 \<and> 0xDC00 \<le> l \<and> l < 0xE000
          then Some ((hi - 0xD800) * 1024 + (l - 0xDC00) + 0x10000) else None)"

text \<open>\<open>unquote\<close>, on a text that the scanner has accepted.\<close>

fun unquoteJSON :: "string \<Rightarrow> string" where
  "unquoteJSON [] = []"
| "unquoteJSON (c # cs) =
     (if c = CHR 0x5C
      then (case cs of
              [] \<Rightarrow> []
            | d # ds \<Rightarrow>
                (case map_of escapes d of
                   Some x \<Rightarrow> x # unquoteJSON ds
                 | None \<Rightarrow>
                     (case getu4 ds of
                        None \<Rightarrow> []
                      | Some r \<Rightarrow>
                          if 0xD800 \<le> r \<and> r < 0xE000
                          then (let t = drop 4 ds in
                            case surrogates r (if prefix [CHR 0x5C, CHR ''u''] t then getu4 (drop 2 t) else None) of
                              Some v \<Rightarrow> encodeRune v @ unquoteJSON (drop 6 t)
                            | None \<Rightarrow> encodeRune RuneError @ unquoteJSON t)
                          else encodeRune r @ unquoteJSON (drop 4 ds))))
      else if byte c < 0x80 then c # unquoteJSON cs
      else let (r, n) = decodeRune (c # cs) in encodeRune r @ unquoteJSON (drop (n - 1) cs))"

section \<open>Numbers\<close>

definition scanNumber :: "string \<Rightarrow> (string \<times> string) option" where
  "scanNumber s =
     (let digits = dropWhile isDecimal;
          s1 = (if prefix ''-'' s then tl s else s);
          s2 = (if prefix ''0'' s1 then tl s1 else digits s1);
          s3 = (if prefix ''.'' s2 then digits (tl s2) else s2);
          e = (prefix ''e'' s3 \<or> prefix ''E'' s3);
          s4 = (if e then (if prefix ''+'' (tl s3) \<or> prefix ''-'' (tl s3) then drop 2 s3 else tl s3) else s3);
          s5 = (if e then digits s4 else s4)
      in if length s2 = length s1 \<or> prefix ''.'' s2 \<and> length s3 = length (tl s2) \<or> e \<and> length s5 = length s4 then None
         else Some (take (length s - length s5) s, s5))"

section \<open>Values\<close>

definition isBlank :: "char \<Rightarrow> bool" where
  "isBlank c \<longleftrightarrow> c \<in> {CHR '' '', CHR 0x09, CHR 0x0D, CHR 0x0A}"

definition skipBlank :: "string \<Rightarrow> string" where
  "skipBlank s = dropWhile isBlank s"

text \<open>The first number is how many objects and arrays may still be opened: 10000 at the start. \<open>parseElems\<close> is
  behind \<open>[\<close> or a comma, \<open>parseMembers\<close> behind \<open>{\<close> or a comma.\<close>

function parseValue :: "nat \<Rightarrow> string \<Rightarrow> (json \<times> string) option"
  and parseElems :: "nat \<Rightarrow> string \<Rightarrow> (json list \<times> string) option"
  and parseMembers :: "nat \<Rightarrow> string \<Rightarrow> ((string \<times> json) list \<times> string) option" where
  "parseValue d s =
     (case skipBlank s of
        [] \<Rightarrow> None
      | c # cs \<Rightarrow>
          if c = CHR ''{''
          then (if d = 0 then None
                else if prefix ''}'' (skipBlank cs) then Some (JObject [], tl (skipBlank cs))
                else map_option (\<lambda>(kvs, r). (JObject kvs, r)) (parseMembers (d - 1) cs))
          else if c = CHR ''[''
          then (if d = 0 then None
                else if prefix '']'' (skipBlank cs) then Some (JArray [], tl (skipBlank cs))
                else map_option (\<lambda>(js, r). (JArray js, r)) (parseElems (d - 1) cs))
          else if c = CHR 0x22 then map_option (\<lambda>(b, r). (JString (unquoteJSON b), r)) (scanQuoted cs)
          else if prefix ''true'' (c # cs) then Some (JBool True, drop 4 (c # cs))
          else if prefix ''false'' (c # cs) then Some (JBool False, drop 5 (c # cs))
          else if prefix ''null'' (c # cs) then Some (JNull, drop 4 (c # cs))
          else map_option (\<lambda>(n, r). (JNumber n, r)) (scanNumber (c # cs)))"
| "parseElems d s =
     (case parseValue d s of
        None \<Rightarrow> None
      | Some (j, r) \<Rightarrow>
          (case skipBlank r of
             [] \<Rightarrow> None
           | c # r' \<Rightarrow>
               if c = CHR '','' then map_option (\<lambda>(js, t). (j # js, t)) (parseElems d r')
               else if c = CHR '']'' then Some ([j], r')
               else None))"
| "parseMembers d s =
     (if \<not> prefix [CHR 0x22] (skipBlank s) then None
      else (case scanQuoted (tl (skipBlank s)) of
        None \<Rightarrow> None
      | Some (k, r) \<Rightarrow>
          if \<not> prefix '':'' (skipBlank r) then None
          else (case parseValue d (tl (skipBlank r)) of
            None \<Rightarrow> None
          | Some (v, r2) \<Rightarrow>
              (case skipBlank r2 of
                 [] \<Rightarrow> None
               | c # r' \<Rightarrow>
                   if c = CHR '','' then map_option (\<lambda>(kvs, t). ((unquoteJSON k, v) # kvs, t)) (parseMembers d r')
                   else if c = CHR ''}'' then Some ([(unquoteJSON k, v)], r')
                   else None))))"
  by pat_completeness auto

text \<open>What is left after a value is shorter than before, by partial induction; so the nested calls end.\<close>

lemma skipBlank_length: "length (skipBlank s) \<le> length s"
  by (simp add: skipBlank_def length_dropWhile_le)

lemma scanQuoted_length: "scanQuoted s = Some (b, r) \<Longrightarrow> length r < length s"
proof (induction s arbitrary: b r rule: scanQuoted.induct)
  case (2 c cs)
  show ?case
  proof (cases "c = CHR 0x5C")
    case True
    have bs: "\<not> byte (CHR 0x5C) < 0x20" by (simp add: byte_def)
    obtain d ds where cs: "cs = d # ds" using 2(4) True bs by (cases cs) auto
    have "\<exists>b' t. scanQuoted t = Some (b', r) \<and> (t = ds \<and> map_of escapes d \<noteq> None \<or> t = drop 4 ds \<and> map_of escapes d = None \<and> d = CHR ''u'' \<and> getu4 ds \<noteq> None)"
      using 2(4) True cs bs by (auto split: if_splits)
    then show ?thesis using 2(1,2) [OF _ _ True cs] True cs bs by fastforce
  next
    case False
    then show ?thesis using 2(3,4) by (fastforce split: if_splits)
  qed
qed simp

lemma scanNumber_length:
  assumes "scanNumber s = Some (n, r)"
  shows "length r < length s"
proof -
  have d: "length (dropWhile isDecimal t) \<le> length t" for t by (rule length_dropWhile_le)
  define s1 where "s1 = (if prefix ''-'' s then tl s else s)"
  define s2 where "s2 = (if prefix ''0'' s1 then tl s1 else dropWhile isDecimal s1)"
  define s3 where "s3 = (if prefix ''.'' s2 then dropWhile isDecimal (tl s2) else s2)"
  note folds = s1_def [symmetric] s2_def [symmetric] s3_def [symmetric]
  have "length s2 \<noteq> length s1" using assms unfolding scanNumber_def Let_def folds by (simp split: if_splits)
  moreover have "length s2 \<le> length s1" using d [of s1] by (simp add: s2_def)
  moreover have "length s1 \<le> length s" by (simp add: s1_def)
  moreover have "length s3 \<le> length s2" using d [of "tl s2"] by (auto simp: s3_def)
  moreover have "length r \<le> length s3"
    using assms d [of "drop 2 s3"] d [of "tl s3"] unfolding scanNumber_def Let_def folds by (simp split: if_splits)
  ultimately show ?thesis by linarith
qed

lemma prefix_tl_length: "prefix (c # p) s \<Longrightarrow> length (tl s) < length s"
  by (cases s) auto

lemma parse_lengths:
  "parseValue_parseElems_parseMembers_dom (Inl (d, s)) \<Longrightarrow> parseValue d s = Some (j, r) \<Longrightarrow> length r < length s"
  "parseValue_parseElems_parseMembers_dom (Inr (Inl (d, s))) \<Longrightarrow> parseElems d s = Some (js, r) \<Longrightarrow> length r < length s"
  "parseValue_parseElems_parseMembers_dom (Inr (Inr (d, s))) \<Longrightarrow> parseMembers d s = Some (kvs, r) \<Longrightarrow> length r < length s"
proof (induction d s and d s and d s arbitrary: j r and js r and kvs r rule: parseValue_parseElems_parseMembers.pinduct)
  case (1 d s)
  obtain c cs where s: "skipBlank s = c # cs" using 1 by (auto simp: parseValue.psimps split: list.splits)
  have len: "Suc (length cs) \<le> length s" using skipBlank_length [of s] s by simp
  note eq = "1.prems" [unfolded parseValue.psimps [OF "1.hyps"] s list.case]
  have tl: "length (tl (skipBlank cs)) \<le> length cs" using skipBlank_length [of cs] by simp
  consider "c = CHR ''{''" | "c = CHR ''[''" | "c = CHR 0x22" | "c \<noteq> CHR ''{''" "c \<noteq> CHR ''[''" "c \<noteq> CHR 0x22"
    by blast
  then show ?case
  proof cases
    case 1
    with eq "1.IH"(1) [OF s 1] tl len show ?thesis by (fastforce split: if_splits)
  next
    case 2
    with eq "1.IH"(2) [OF s _ 2] tl len show ?thesis by (fastforce split: if_splits)
  next
    case 3
    with eq len show ?thesis by (auto dest!: scanQuoted_length)
  next
    case 4
    have eq: "(if prefix ''true'' (c # cs) then Some (JBool True, drop 4 (c # cs)) else if prefix ''false'' (c # cs) then Some (JBool False, drop 5 (c # cs)) else if prefix ''null'' (c # cs) then Some (JNull, drop 4 (c # cs)) else map_option (\<lambda>(n, r). (JNumber n, r)) (scanNumber (c # cs))) = Some (j, r)" using eq 4 by (simp only: if_False)
    consider k where "0 < k" "r = drop k (c # cs)" | n where "scanNumber (c # cs) = Some (n, r)"
      using eq that(1) [of 4] that(1) [of 5] that(2)
      by (auto simp: map_option_case simp del: prefix_code Cons_prefix_Cons split: if_split_asm option.split_asm prod.split_asm)
    then show ?thesis using len by cases (auto dest!: scanNumber_length)
  qed
next
  case (2 d s)
  obtain j' r1 where v: "parseValue d s = Some (j', r1)"
    using "2.prems" by (auto simp: parseElems.psimps [OF "2.hyps"] split: option.splits)
  obtain c cs where r1: "skipBlank r1 = c # cs"
    using "2.prems" v by (auto simp: parseElems.psimps [OF "2.hyps"] split: list.splits)
  note eq = "2.prems" [unfolded parseElems.psimps [OF "2.hyps"] v option.case prod.case r1 list.case]
  have len: "length r1 < length s" "length cs < length r1"
    using "2.IH"(1) [OF v] skipBlank_length [of r1] r1 by simp_all
  show ?case
    using eq "2.IH"(2) [OF v _ r1] len by (fastforce split: if_splits)
next
  case (3 d s)
  have q: "prefix [CHR 0x22] (skipBlank s)"
    using "3.prems" by (auto simp: parseMembers.psimps [OF "3.hyps"] split: if_splits)
  obtain k r1 where k: "scanQuoted (tl (skipBlank s)) = Some (k, r1)"
    using "3.prems" q by (auto simp: parseMembers.psimps [OF "3.hyps"] split: option.splits)
  have colon: "prefix '':'' (skipBlank r1)"
    using "3.prems" q k by (auto simp: parseMembers.psimps [OF "3.hyps"] split: if_splits)
  obtain v r2 where v: "parseValue d (tl (skipBlank r1)) = Some (v, r2)"
    using "3.prems" q k colon by (auto simp: parseMembers.psimps [OF "3.hyps"] split: option.splits)
  obtain c cs where r2: "skipBlank r2 = c # cs"
    using "3.prems" q k colon v by (auto simp: parseMembers.psimps [OF "3.hyps"] split: list.splits)
  note eq = "3.prems" [unfolded parseMembers.psimps [OF "3.hyps"]]
  have "length r2 < length s" "length cs < length r2"
    using "3.IH"(1) [of "(k, r1)" k r1] q k colon v scanQuoted_length [OF k] skipBlank_length [of s] skipBlank_length [of r1] skipBlank_length [of r2] r2
    by simp_all
  then show ?case
    using eq q k colon v r2 "3.IH"(2) [of "(k, r1)" k r1 "(v, r2)" v r2 c cs] by (fastforce split: if_splits)
qed

lemma skipBlank_Cons: "skipBlank s = c # cs \<Longrightarrow> length cs < length s"
  using skipBlank_length [of s] by simp

lemma skipBlank_prefix: "prefix (c # p) (skipBlank s) \<Longrightarrow> length (tl (skipBlank s)) < length s"
  using skipBlank_length [of s] by (cases "skipBlank s") auto

termination parseValue
  by (relation "measure (\<lambda>x. case x of Inl (d, s) \<Rightarrow> 2 * length s | Inr (Inl (d, s)) \<Rightarrow> Suc (2 * length s)
      | Inr (Inr (d, s)) \<Rightarrow> 2 * length s)")
    (force dest: parse_lengths scanQuoted_length skipBlank_Cons skipBlank_prefix)+

declare parseValue.simps [simp del] parseElems.simps [simp del] parseMembers.simps [simp del]

section \<open>Structs\<close>

text \<open>\<open>foldName\<close>. A name of a field is ASCII, so of the runes above ASCII only the two that fold to an ASCII letter
  matter, the long s and the Kelvin sign.\<close>

definition foldNameRune :: "rune \<Rightarrow> rune" where
  "foldNameRune r = (if 97 \<le> r \<and> r \<le> 122 then r - 32 else if r = 0x17F then 83 else if r = 0x212A then 75 else r)"

definition foldName :: "string \<Rightarrow> string" where
  "foldName s = encodeRunes (map foldNameRune (runes s))"

type_synonym 'r fields = "(string, json \<Rightarrow> 'r \<Rightarrow> 'r option) gomap"

definition fieldOf :: "'r fields \<Rightarrow> string \<Rightarrow> (json \<Rightarrow> 'r \<Rightarrow> 'r option) option" where
  "fieldOf fs key =
     (case map_of fs key of
        Some f \<Rightarrow> Some f
      | None \<Rightarrow> map_of (map (\<lambda>(n, f). (foldName n, f)) fs) (foldName key))"

text \<open>A field takes a value of its type; \<open>null\<close> leaves it as it is; any other value is an error.\<close>

definition stringField :: "((string \<Rightarrow> string) \<Rightarrow> 'r \<Rightarrow> 'r) \<Rightarrow> json \<Rightarrow> 'r \<Rightarrow> 'r option" where
  "stringField upd j r = (case j of JNull \<Rightarrow> Some r | JString s \<Rightarrow> Some (upd (\<lambda>_. s) r) | _ \<Rightarrow> None)"

definition boolField :: "((bool \<Rightarrow> bool) \<Rightarrow> 'r \<Rightarrow> 'r) \<Rightarrow> json \<Rightarrow> 'r \<Rightarrow> 'r option" where
  "boolField upd j r = (case j of JNull \<Rightarrow> Some r | JBool b \<Rightarrow> Some (upd (\<lambda>_. b) r) | _ \<Rightarrow> None)"

text \<open>The members in the order of the text: a later one overwrites, an unknown one is skipped.\<close>

fun decodeMembers :: "'r fields \<Rightarrow> (string \<times> json) list \<Rightarrow> 'r \<Rightarrow> 'r option" where
  "decodeMembers fs [] r = Some r"
| "decodeMembers fs ((k, v) # kvs) r =
     (case fieldOf fs k of
        None \<Rightarrow> decodeMembers fs kvs r
      | Some f \<Rightarrow> (case f v r of None \<Rightarrow> None | Some r' \<Rightarrow> decodeMembers fs kvs r'))"

definition maxNestingDepth :: nat where
  "maxNestingDepth = 10000"

definition decodeJSON :: "'r fields \<Rightarrow> 'r \<Rightarrow> string \<Rightarrow> 'r option" where
  "decodeJSON fs zero s =
     (case parseValue maxNestingDepth s of
        Some (JNull, _) \<Rightarrow> Some zero
      | Some (JObject kvs, _) \<Rightarrow> decodeMembers fs kvs zero
      | _ \<Rightarrow> None)"

section \<open>What was written is read\<close>

text \<open>\<open>strings.ToValidUTF8\<close> with the replacement character for each byte that does not decode.\<close>

definition validUTF8 :: "string \<Rightarrow> string" where
  "validUTF8 s = encodeRunes (runes s)"

definition escapeU :: "nat \<Rightarrow> string" where
  "escapeU r = [CHR 0x5C, CHR ''u''] @ hexPad 4 r"

lemma hexDigitVal_hexDigit [simp]: "n < 16 \<Longrightarrow> hexDigitVal (hexDigit n) = Some n"
  by (auto simp: hexDigitVal_def hexDigit_def Let_def)

lemma hexPad_length [simp]: "length (hexPad w n) = w"
  by (induction w arbitrary: n) auto

lemma hexPad_4: "hexPad 4 n = map hexDigit [n div 16 div 16 div 16 mod 16, n div 16 div 16 mod 16, n div 16 mod 16, n mod 16]"
proof -
  have "(4 :: nat) = Suc (Suc (Suc (Suc 0)))" by simp
  then show ?thesis by (simp only: hexPad.simps append.simps list.map)
qed

lemma getu4_hexPad [simp]: "n < 65536 \<Longrightarrow> getu4 (hexPad 4 n @ t) = Some n"
proof -
  assume n: "n < 65536"
  have "n div 16 div 16 div 16 mod 16 = n div 16 div 16 div 16" using n by simp
  then have "((n div 16 div 16 div 16 mod 16 * 16 + n div 16 div 16 mod 16) * 16 + n div 16 mod 16) * 16 + n mod 16 = n"
    by (simp only: div_mult_mod_eq)
  then show ?thesis by (simp add: getu4_def hexVal_def hexPad_4)
qed

lemma escapes_u: "map_of escapes (CHR ''u'') = None"
  by (simp add: escapes_def)

lemma bytes [simp]:
  "byte (CHR 0x22) = 0x22" "byte (CHR 0x5C) = 0x5C" "byte (CHR ''u'') = 117"
  by (simp_all add: byte_def)

lemma scanQuoted_escapeU: "r < 65536 \<Longrightarrow>
    scanQuoted (escapeU r @ t) = map_option (\<lambda>(b, x). (escapeU r @ b, x)) (scanQuoted t)"
  by (simp add: escapeU_def escapes_u option.map_comp comp_def split_beta)

lemma unquote_escapeU: "r < 65536 \<Longrightarrow> \<not> (0xD800 \<le> r \<and> r < 0xE000) \<Longrightarrow>
    unquoteJSON (escapeU r @ t) = encodeRune r @ unquoteJSON t"
  by (auto simp: escapeU_def escapes_u Let_def)

lemma scanQuoted_plain:
  "list_all (\<lambda>c. 0x20 \<le> byte c \<and> c \<noteq> CHR 0x22 \<and> c \<noteq> CHR 0x5C) p \<Longrightarrow>
   scanQuoted (p @ t) = map_option (\<lambda>(b, x). (p @ b, x)) (scanQuoted t)"
  by (induction p) (cases "scanQuoted t"; auto)+

lemma escapeByte_cases:
  fixes c
  obtains (two) x where "escapeByte c = [CHR 0x5C, x]" "map_of escapes x = Some c"
  | (hex) "escapeByte c = escapeU (byte c)"
  | (same) "escapeByte c = [c]" "0x20 \<le> byte c" "c \<noteq> CHR 0x22" "c \<noteq> CHR 0x5C"
proof (cases "c \<in> {CHR 0x22, CHR 0x5C, CHR 0x0A, CHR 0x0D, CHR 0x09}")
  case True
  then show ?thesis
    using two [of c] two [of "CHR ''n''"] two [of "CHR ''r''"] two [of "CHR ''t''"]
    by (elim insertE emptyE) (simp_all add: escapeByte_def escapes_def)
next
  case False
  show ?thesis
  proof (cases "byte c < 0x20 \<or> c = CHR ''<'' \<or> c = CHR ''>'' \<or> c = CHR ''&''")
    case True
    with False show ?thesis by (intro hex) (auto simp: escapeByte_def escapeU_def)
  next
    case F: False
    with False show ?thesis by (intro same) (auto simp: escapeByte_def)
  qed
qed

lemma scanQuoted_escapeByte:
  assumes "byte c < 0x80"
  shows "scanQuoted (escapeByte c @ t) = map_option (\<lambda>(b, x). (escapeByte c @ b, x)) (scanQuoted t)"
proof (cases c rule: escapeByte_cases)
  case hex
  then show ?thesis using assms scanQuoted_escapeU [of "byte c" t] by simp
next
  case same
  then show ?thesis using scanQuoted_plain [of "[c]" t] by simp
qed (simp_all add: option.map_comp comp_def split_beta)

lemma unquote_escapeByte:
  assumes "byte c < 0x80"
  shows "unquoteJSON (escapeByte c @ t) = c # unquoteJSON t"
proof (cases c rule: escapeByte_cases)
  case hex
  then show ?thesis using assms unquote_escapeU [of "byte c" t] by (simp add: encodeRune_ascii)
qed (use assms in simp_all)

lemma decodeRune_take:
  assumes "decodeRune (c # cs) = (r, n)" "\<not> (r = RuneError \<and> n = 1)"
  shows "decodeRune (take n (c # cs) @ t) = (r, n)"
proof -
  consider "cs = []" | c1 where "cs = [c1]" | c1 c2 where "cs = [c1, c2]"
    | c1 c2 c3 ds where "cs = c1 # c2 # c3 # ds"
    by (metis list.exhaust)
  then show ?thesis
    using assms by cases (auto simp: Let_def split: if_splits)
qed

lemma decodeRune_take_high:
  assumes "decodeRune (c # cs) = (r, n)" "\<not> byte c < 0x80"
  shows "list_all (\<lambda>c. 0x80 \<le> byte c) (take n (c # cs))"
proof -
  have "1 \<le> n" using decodeRune_width [of "c # cs"] assms(1) by simp
  then have "take n (c # cs) = c # take (n - 1) cs" by (cases n) simp_all
  with decodeRune_tail_high [of _ c cs] assms show ?thesis by (simp add: list_all_iff)
qed

lemma unquote_rune:
  assumes "decodeRune (c # cs) = (r, n)" "\<not> (r = RuneError \<and> n = 1)" "\<not> byte c < 0x80"
  shows "unquoteJSON (take n (c # cs) @ t) = encodeRune r @ unquoteJSON t"
proof -
  obtain m where n: "n = Suc m" "m \<le> length cs"
    using decodeRune_width [of "c # cs"] assms(1) by (cases n) auto
  have d: "decodeRune (c # take m cs @ t) = (r, Suc m)" using decodeRune_take [OF assms(1,2), of t] n by simp
  moreover have "c \<noteq> CHR 0x5C" using assms(3) by auto
  ultimately show ?thesis using n assms(3) by (simp del: decodeRune.simps)
qed

lemma plain_high: "list_all (\<lambda>c. 0x80 \<le> byte c) p \<Longrightarrow>
    list_all (\<lambda>c. 0x20 \<le> byte c \<and> c \<noteq> CHR 0x22 \<and> c \<noteq> CHR 0x5C) p"
  by (auto simp: list_all_iff byte_def)

lemma rune_escape_bound: "r = RuneError \<and> n = Suc 0 \<or> r = 0x2028 \<or> r = 0x2029 \<Longrightarrow> r < 65536 \<and> \<not> (0xD800 \<le> r \<and> r < 0xE000)"
  by (auto simp: RuneError_def)

lemma scanQuoted_escape:
  "scanQuoted (escapeJSON s @ t) = map_option (\<lambda>(b, x). (escapeJSON s @ b, x)) (scanQuoted t)"
proof (induction s rule: escapeJSON.induct)
  case 1
  show ?case by (cases "scanQuoted t") auto
next
  case (2 c cs)
  obtain r n where d: "decodeRune (c # cs) = (r, n)" by (metis surj_pair)
  show ?case
  proof (cases "byte c < 0x80")
    case True
    with 2 show ?thesis
      by (simp add: scanQuoted_escapeByte option.map_comp comp_def split_beta del: decodeRune.simps)
  next
    case False
    note IH = "2.IH"(2) [OF False d [symmetric] refl]
    show ?thesis
    proof (cases "r = RuneError \<and> n = Suc 0 \<or> r = 0x2028 \<or> r = 0x2029")
      case True
      with False d have "escapeJSON (c # cs) = escapeU r @ escapeJSON (drop (n - 1) cs)"
        by (auto simp: escapeU_def simp del: decodeRune.simps)
      with IH rune_escape_bound [OF True] show ?thesis
        by (simp add: scanQuoted_escapeU option.map_comp comp_def split_beta del: escapeJSON.simps)
    next
      case F: False
      with False d IH plain_high [OF decodeRune_take_high [OF d False]] show ?thesis
        by (simp add: scanQuoted_plain option.map_comp comp_def split_beta del: decodeRune.simps)
    qed
  qed
qed

lemma unquote_escape: "unquoteJSON (escapeJSON s) = validUTF8 s"
proof (induction s rule: escapeJSON.induct)
  case (2 c cs)
  obtain r n where d: "decodeRune (c # cs) = (r, n)" by (metis surj_pair)
  show ?case
  proof (cases "byte c < 0x80")
    case True
    with 2 show ?thesis by (simp add: unquote_escapeByte validUTF8_def encodeRune_ascii)
  next
    case False
    note IH = "2.IH"(2) [OF False d [symmetric] refl]
    show ?thesis
    proof (cases "r = RuneError \<and> n = Suc 0 \<or> r = 0x2028 \<or> r = 0x2029")
      case True
      with False d have "escapeJSON (c # cs) = escapeU r @ escapeJSON (drop (n - 1) cs)"
        by (auto simp: escapeU_def simp del: decodeRune.simps)
      with d IH rune_escape_bound [OF True] show ?thesis
        by (simp add: unquote_escapeU validUTF8_def del: decodeRune.simps escapeJSON.simps)
    next
      case F: False
      then have "unquoteJSON (escapeJSON (c # cs)) = encodeRune r @ unquoteJSON (escapeJSON (drop (n - 1) cs))"
        using unquote_rune [OF d _ False] False d by (auto simp del: decodeRune.simps unquoteJSON.simps)
      with d IH show ?thesis by (simp add: validUTF8_def del: decodeRune.simps)
    qed
  qed
qed (simp add: validUTF8_def)

lemma scanQuoted_quote: "scanQuoted (escapeJSON s @ CHR 0x22 # t) = Some (escapeJSON s, t)"
  by (simp add: scanQuoted_escape)

text \<open>The trees the program writes hold no numbers. \<open>fits j d\<close>: no more than \<open>d\<close> levels.\<close>

primrec fits :: "json \<Rightarrow> nat \<Rightarrow> bool" where
  "fits JNull = (\<lambda>d. True)"
| "fits (JBool b) = (\<lambda>d. True)"
| "fits (JNumber n) = (\<lambda>d. False)"
| "fits (JString s) = (\<lambda>d. True)"
| "fits (JArray js) = (\<lambda>d. 0 < d \<and> list_all (\<lambda>f. f (d - 1)) (map fits js))"
| "fits (JObject kvs) = (\<lambda>d. 0 < d \<and> list_all (\<lambda>(k, f). f (d - 1)) (map (map_prod id fits) kvs))"

primrec cleanJSON :: "json \<Rightarrow> json" where
  "cleanJSON JNull = JNull"
| "cleanJSON (JBool b) = JBool b"
| "cleanJSON (JNumber n) = JNumber n"
| "cleanJSON (JString s) = JString (validUTF8 s)"
| "cleanJSON (JArray js) = JArray (map cleanJSON js)"
| "cleanJSON (JObject kvs) = JObject (map (map_prod validUTF8 cleanJSON) kvs)"

lemma fits_members: "list_all (\<lambda>(k, f). f d) (map (map_prod id fits) kvs) \<longleftrightarrow> list_all (\<lambda>(k, j). fits j d) kvs"
  by (induction kvs) auto

lemma skipBlank_simps [simp]:
  "isBlank c \<Longrightarrow> skipBlank (c # s) = skipBlank s" "\<not> isBlank c \<Longrightarrow> skipBlank (c # s) = c # s" "skipBlank [] = []"
  by (simp_all add: skipBlank_def)

lemma isBlank_simps [simp]:
  "\<not> isBlank (CHR ''{'')" "\<not> isBlank (CHR ''}'')" "\<not> isBlank (CHR ''['')" "\<not> isBlank (CHR '']'')"
  "\<not> isBlank (CHR '','')" "\<not> isBlank (CHR '':'')" "\<not> isBlank (CHR 0x22)" "\<not> isBlank (CHR ''t'')"
  "\<not> isBlank (CHR ''f'')" "\<not> isBlank (CHR ''n'')"
  by (simp_all add: isBlank_def)

lemma encodeJSON_head:
  assumes "fits j d"
  shows "\<exists>c cs. encodeJSON j = c # cs \<and> c \<in> {CHR ''n'', CHR ''t'', CHR ''f'', CHR 0x22, CHR ''['', CHR ''{''}"
  using assms by (cases j) (auto simp: quoteJSON_def)

lemma encodeElems_head:
  assumes "fits j d"
  shows "\<exists>c cs. encodeElems (j # js) = c # cs \<and> c \<in> {CHR ''n'', CHR ''t'', CHR ''f'', CHR 0x22, CHR ''['', CHR ''{''}"
  using encodeJSON_head [OF assms] by (cases js) auto

lemma encodeMembers_head: "kvs \<noteq> [] \<Longrightarrow> \<exists>cs. encodeMembers kvs = CHR 0x22 # cs"
  by (cases kvs rule: encodeMembers.cases) (auto simp: quoteJSON_def)

lemma parse_encode:
  "fits j d \<Longrightarrow> parseValue d (encodeJSON j @ t) = Some (cleanJSON j, t)"
  "list_all (\<lambda>j. fits j d) js \<Longrightarrow> js \<noteq> [] \<Longrightarrow> parseElems d (encodeElems js @ t) = Some (map cleanJSON js, t)"
  "list_all (\<lambda>(k, j). fits j d) kvs \<Longrightarrow> kvs \<noteq> [] \<Longrightarrow>
    parseMembers d (encodeMembers kvs @ t) = Some (map (map_prod validUTF8 cleanJSON) kvs, t)"
proof (induction j and js and kvs arbitrary: d t and d t and d t rule: encodeJSON_encodeElems_encodeMembers.induct)
  case 1
  then show ?case by (simp add: parseValue.simps)
next
  case (2 b)
  then show ?case by (simp add: parseValue.simps)
next
  case (4 s)
  then show ?case by (simp add: parseValue.simps quoteJSON_def scanQuoted_quote unquote_escape)
next
  case (5 js)
  show ?case
  proof (cases js)
    case Nil
    then show ?thesis using 5 by (simp add: parseValue.simps)
  next
    case (Cons j js')
    with 5 encodeElems_head [of j "d - 1" js'] show ?thesis
      by (auto simp: parseValue.simps list.pred_map comp_def)
  qed
next
  case (6 kvs)
  show ?case
  proof (cases kvs)
    case Nil
    then show ?thesis using 6 by (simp add: parseValue.simps)
  next
    case (Cons kv kvs')
    then have ne: "kvs \<noteq> []" by simp
    have d: "0 < d" "list_all (\<lambda>(k, j). fits j (d - 1)) kvs" using 6(2) by (simp_all add: fits_members)
    from 6(1) [OF d(2) ne] encodeMembers_head [OF ne] d(1) ne show ?thesis
      by (auto simp: parseValue.simps)
  qed
next
  case (8 j)
  then show ?case by (simp add: parseElems.simps)
next
  case (9 j k js)
  then show ?case by (simp add: parseElems.simps)
next
  case (11 k v)
  then show ?case by (simp add: parseMembers.simps quoteJSON_def scanQuoted_quote unquote_escape)
next
  case (12 k v kv kvs)
  then show ?case by (simp add: parseMembers.simps quoteJSON_def scanQuoted_quote unquote_escape)
qed simp_all

lemma decode_encode_object:
  assumes "list_all (\<lambda>(k, j). fits j (maxNestingDepth - 1)) kvs"
  shows "decodeJSON fs zero (encodeJSON (JObject kvs) @ t) = decodeMembers fs (map (map_prod validUTF8 cleanJSON) kvs) zero"
proof -
  have "fits (JObject kvs) maxNestingDepth" using assms by (simp add: fits_members maxNestingDepth_def)
  from parse_encode(1) [OF this] show ?thesis by (simp add: decodeJSON_def)
qed

lemma validUTF8_ascii: "list_all (\<lambda>c. byte c < 0x80) s \<Longrightarrow> validUTF8 s = s"
  by (induction s) (simp_all add: validUTF8_def encodeRune_ascii)

lemma validUTF8_idem [simp]: "validUTF8 (validUTF8 s) = validUTF8 s"
proof -
  have "map (\<lambda>r. if validRune r then r else RuneError) (runes s) = runes s"
    by (intro map_idI) (simp add: runes_valid)
  then show ?thesis using runes_encodeRunes [of "runes s" "[]"] by (simp add: validUTF8_def)
qed

section \<open>The text is inert in HTML\<close>

definition markup :: "char set" where
  "markup = {CHR ''<'', CHR ''>'', CHR ''&''}"

lemma hexPad_inert: "set (hexPad w n) \<inter> markup = {}"
proof (induction w arbitrary: n)
  case (Suc w)
  have "hexDigit (n mod 16) \<notin> markup"
    by (auto simp: hexDigit_def markup_def chr_def byte_def dest!: arg_cong [where f = byte])
  with Suc show ?case by simp
qed simp

lemma escapeJSON_inert: "set (escapeJSON s) \<inter> markup = {}"
proof (induction s rule: escapeJSON.induct)
  case (2 c cs)
  obtain r n where d: "decodeRune (c # cs) = (r, n)" by (metis surj_pair)
  show ?case
  proof (cases "byte c < 0x80")
    case True
    have "set (escapeByte c) \<inter> markup = {}"
      using hexPad_inert [of 4 "byte c"] by (auto simp: escapeByte_def markup_def)
    with True 2 show ?thesis by auto
  next
    case False
    have "set (take n (c # cs)) \<inter> markup = {}"
      using decodeRune_take_high [OF d False] by (auto simp: list_all_iff markup_def byte_def)
    moreover have "set ([CHR 0x5C, CHR ''u''] @ hexPad 4 r) \<inter> markup = {}"
      using hexPad_inert [of 4 r] by (auto simp: markup_def)
    ultimately show ?thesis using "2.IH"(2) [OF False d [symmetric] refl] False d
      by (auto simp del: decodeRune.simps)
  qed
qed simp

lemma encodeJSON_inert:
  "fits j d \<Longrightarrow> set (encodeJSON j) \<inter> markup = {}"
  "list_all (\<lambda>j. \<exists>d. fits j d) js \<Longrightarrow> set (encodeElems js) \<inter> markup = {}"
  "list_all (\<lambda>(k, j). \<exists>d. fits j d) kvs \<Longrightarrow> set (encodeMembers kvs) \<inter> markup = {}"
proof (induction j and js and kvs arbitrary: d rule: encodeJSON_encodeElems_encodeMembers.induct)
  case (5 js)
  then have "list_all (\<lambda>j. \<exists>d. fits j d) js" by (auto simp: list_all_iff)
  with 5 show ?case by (auto simp: markup_def)
next
  case (6 kvs)
  then have "list_all (\<lambda>(k, j). fits j (d - 1)) kvs" by (simp add: fits_members)
  then have "list_all (\<lambda>(k, j). \<exists>d. fits j d) kvs" by (auto simp: list_all_iff)
  with 6 show ?case by (auto simp: markup_def)
qed (use escapeJSON_inert in \<open>auto simp: quoteJSON_def markup_def\<close>)

end
