(* ===== verification/Go_Time.thy ===== *)
theory Go_Time
  imports Go_Numbers "HOL-Library.Monad_Syntax"
begin

text \<open>
  \<open>time.Parse(time.RFC3339, s)\<close> and the text \<open>encoding/json\<close> gives to a \<open>time.Time\<close>. A time is its number of
  nanoseconds since 1970; the calendar is the proleptic Gregorian one.
\<close>

section \<open>The calendar\<close>

definition isLeap :: "int \<Rightarrow> bool" where
  "isLeap y \<longleftrightarrow> y mod 4 = 0 \<and> (y mod 100 \<noteq> 0 \<or> y mod 400 = 0)"

text \<open>The days of the months before month \<open>m\<close>, counted from 1.\<close>

definition daysBefore :: "nat \<Rightarrow> int" where
  "daysBefore m = [0, 0, 31, 59, 90, 120, 151, 181, 212, 243, 273, 304, 334, 365] ! m"

definition daysIn :: "nat \<Rightarrow> bool \<Rightarrow> int" where
  "daysIn m leap = (if m = 2 \<and> leap then 29 else daysBefore (m + 1) - daysBefore m)"

text \<open>Days from 1 January of year 1 to 1 January of year \<open>y\<close>.\<close>

definition daysToYear :: "int \<Rightarrow> int" where
  "daysToYear y = 365 * (y - 1) + (y - 1) div 4 - (y - 1) div 100 + (y - 1) div 400"

definition yearDay :: "bool \<Rightarrow> nat \<Rightarrow> int \<Rightarrow> int" where
  "yearDay leap m d = daysBefore m + (if leap \<and> 2 < m then 1 else 0) + d - 1"

definition unixDays :: "int \<Rightarrow> nat \<Rightarrow> int \<Rightarrow> int" where
  "unixDays y m d = daysToYear y + yearDay (isLeap y) m d - 719162"

text \<open>\<open>absDate\<close>: the year of a day, and the day in the year, by cycles of 400, 100, 4 and 1 years.\<close>

definition splitYears :: "int \<Rightarrow> int \<times> int" where
  "splitYears days =
     (let n400 = days div 146097; d = days mod 146097;
          n100 = (if d div 36524 = 4 then 3 else d div 36524); d = d - 36524 * n100;
          n4 = d div 1461; d = d - 1461 * n4;
          n1 = (if d div 365 = 4 then 3 else d div 365)
      in (400 * n400 + 100 * n100 + 4 * n4 + n1 + 1, d - 365 * n1))"

definition monthOf :: "bool \<Rightarrow> int \<Rightarrow> nat \<times> int" where
  "monthOf leap yday =
     (if leap \<and> yday = 59 then (2, 29)
      else let yday = (if leap \<and> 59 < yday then yday - 1 else yday);
               m = (case find (\<lambda>m. yday < daysBefore (m + 1)) [1..<13] of Some m \<Rightarrow> m | None \<Rightarrow> 12)
           in (m, yday - daysBefore m + 1))"

lemma splitYears_correct:
  assumes "splitYears days = (y, yd)"
  shows "daysToYear y + yd = days" "0 \<le> yd" "yd < (if isLeap y then 366 else 365)"
proof -
  define n400 r400 where "n400 = days div 146097" and "r400 = days mod 146097"
  define n100 where "n100 = (if r400 div 36524 = 4 then 3 else r400 div 36524)"
  define r100 where "r100 = r400 - 36524 * n100"
  define n4 r4 where "n4 = r100 div 1461" and "r4 = r100 - 1461 * n4"
  define n1 where "n1 = (if r4 div 365 = 4 then 3 else r4 div 365)"
  have y: "y = 400 * n400 + 100 * n100 + 4 * n4 + n1 + 1" and yd: "yd = r4 - 365 * n1"
    using assms unfolding splitYears_def Let_def n400_def r400_def n100_def r100_def n4_def r4_def n1_def
    by (simp_all only: prod.inject)
  have d: "days = 146097 * n400 + r400" "0 \<le> r400" "r400 < 146097" by (simp_all add: n400_def r400_def)
  have div_bounds: "k * (x div k) \<le> x" "x < k * (x div k) + k" if "0 < k" for x k :: int
    using that pos_mod_bound [of k x] pos_mod_sign [of k x] mult_div_mod_eq [of k x] by linarith+
  have "0 \<le> r400 div 36524" "r400 div 36524 \<le> 4" using d(2,3) div_bounds [of 36524 r400] by linarith+
  with d(2,3) div_bounds [of 36524 r400]
  have h: "0 \<le> n100" "n100 \<le> 3" "0 \<le> r100" "r100 \<le> 36524" "n100 < 3 \<Longrightarrow> r100 < 36524"
    unfolding n100_def r100_def by (simp_all split: if_splits)
  have q: "0 \<le> n4" "n4 \<le> 24" "0 \<le> r4" "r4 \<le> 1460" "n4 = 24 \<Longrightarrow> n100 < 3 \<Longrightarrow> r4 < 1460"
    using h div_bounds [of 1461 r100] unfolding n4_def r4_def by linarith+
  have "0 \<le> r4 div 365" "r4 div 365 \<le> 4" using q div_bounds [of 365 r4] by linarith+
  with q(3,4) div_bounds [of 365 r4]
  have o: "0 \<le> n1" "n1 \<le> 3" "0 \<le> yd" "yd \<le> 365" "n1 < 3 \<Longrightarrow> yd < 365" "n1 = 3 \<Longrightarrow> yd = 365 \<Longrightarrow> r4 = 1460"
    unfolding n1_def yd by (simp_all split: if_splits)
  show "0 \<le> yd" by (rule o(3))
  have quot: "x div k = z" if "k * z \<le> x" "x < k * z + k" for x k z :: int
    using that by (intro int_div_pos_eq [of x k z "x - k * z"]) auto
  note b = h(1-4) q(1-4) o(1-4)
  have "(y - 1) div 4 = 100 * n400 + 25 * n100 + n4" by (rule quot) (use b in \<open>simp_all add: y\<close>)
  moreover have "(y - 1) div 100 = 4 * n400 + n100" by (rule quot) (use b in \<open>simp_all add: y\<close>)
  moreover have "(y - 1) div 400 = n400" by (rule quot) (use b in \<open>simp_all add: y\<close>)
  ultimately show "daysToYear y + yd = days"
    unfolding daysToYear_def d(1) using y yd r4_def r100_def by (simp add: algebra_simps)
  show "yd < (if isLeap y then 366 else 365)"
  proof (cases "yd = 365")
    case True
    with o have n1: "n1 = 3" "r4 = 1460" by linarith+
    then have y4: "y = 400 * n400 + 100 * n100 + 4 * n4 + 4" using y by simp
    have "isLeap y"
    proof (cases "n4 = 24")
      case False
      have "y = 4 * (100 * n400 + 25 * n100 + n4 + 1)" unfolding y4 by (simp add: algebra_simps)
      then have "y mod 4 = 0" by (simp only: mod_mult_self1_is_0)
      have "y div 100 = 4 * n400 + n100" using False b unfolding y4 by (intro quot) simp_all
      then have "y mod 100 = y - 100 * (4 * n400 + n100)" 
        by (simp only: minus_mult_div_eq_mod [of y 100, symmetric])
      also have "\<dots> = 4 * n4 + 4" unfolding y4 by (simp add: algebra_simps)
      finally have "y mod 100 = 4 * n4 + 4" .
      with \<open>y mod 4 = 0\<close> q show ?thesis by (simp add: isLeap_def)
    next
      case True
      with q(5) n1 h have "n100 = 3" by linarith
      then have "y = 400 * (n400 + 1)" using y4 True by simp
      then show ?thesis by (simp add: isLeap_def)
    qed
    with True show ?thesis by simp
  qed (use o in simp)
qed

lemma months: "1 \<le> m \<Longrightarrow> m \<le> 12 \<Longrightarrow> m \<in> {1, 2, 3, 4, 5, 6, 7, 8, 9, 10, 11, 12 :: nat}"
  unfolding insert_iff empty_iff by presburger

lemma find_month:
  assumes "0 \<le> yday" "yday < 365"
  obtains m where "find (\<lambda>m. yday < daysBefore (m + 1)) [1..<13] = Some m" "1 \<le> m" "m \<le> 12"
    "daysBefore m \<le> yday" "yday < daysBefore (m + 1)"
proof (cases "find (\<lambda>m. yday < daysBefore (m + 1)) [1..<13]")
  case None
  have "12 \<in> set [1..<13 :: nat]" by simp
  with None have "\<not> yday < daysBefore (12 + 1)" unfolding find_None_iff by blast
  with assms(2) show ?thesis by (simp add: daysBefore_def)
next
  case (Some m)
  then obtain i where i: "i < 12" "yday < daysBefore ([1..<13] ! i + 1)" "m = [1..<13] ! i"
    "\<forall>j<i. \<not> yday < daysBefore ([1..<13] ! j + 1)"
    unfolding find_Some_iff by auto
  have m: "m = Suc i" using i(1,3) by (simp add: nth_upt del: upt_conv_Cons)
  have "daysBefore m \<le> yday"
  proof (cases i)
    case 0
    then show ?thesis using assms(1) by (simp add: m daysBefore_def)
  next
    case (Suc j)
    then have "\<not> yday < daysBefore ([1..<13] ! j + 1)" using i(4) by blast
    moreover have "[1..<13] ! j = Suc j" using i(1) Suc by (simp add: nth_upt del: upt_conv_Cons)
    ultimately show ?thesis by (simp add: m Suc)
  qed
  moreover have "yday < daysBefore (m + 1)" using i(2,3) by simp
  moreover have "1 \<le> m" "m \<le> 12" using i(1) by (simp_all add: m)
  ultimately show ?thesis using that Some by blast
qed

lemma monthOf_correct:
  assumes "monthOf leap yd = (m, d)" "0 \<le> yd" "yd < (if leap then 366 else 365)"
  shows "1 \<le> m \<and> m \<le> 12 \<and> 1 \<le> d \<and> d \<le> daysIn m leap \<and> yearDay leap m d = yd"
proof (cases "leap \<and> yd = 59")
  case True
  then show ?thesis using assms(1) by (auto simp: monthOf_def daysIn_def yearDay_def daysBefore_def)
next
  case False
  define y where "y = (if leap \<and> 59 < yd then yd - 1 else yd)"
  have y: "0 \<le> y" "y < 365" using assms(2,3) False by (auto simp: y_def split: if_splits)
  from find_month [OF this] obtain n where n: "find (\<lambda>m. y < daysBefore (m + 1)) [1..<13] = Some n"
    "1 \<le> n" "n \<le> 12" "daysBefore n \<le> y" "y < daysBefore (n + 1)" .
  have md: "m = n" "d = y - daysBefore n + 1"
    using assms(1) False n(1) by (auto simp: monthOf_def y_def [symmetric] Let_def split: if_splits)
  have gap: "59 \<le> y \<longleftrightarrow> 2 < n"
    using months [OF n(2,3)] n(4,5) by (auto simp: daysBefore_def)
  have "yd = y + (if leap \<and> 2 < n then 1 else 0)"
    using gap False by (auto simp: y_def split: if_splits)
  moreover have "daysBefore 3 = daysBefore 2 + 28" by (simp add: daysBefore_def)
  ultimately show ?thesis
    using n by (auto simp: md daysIn_def yearDay_def)
qed

section \<open>Writing\<close>

definition pad2 :: "nat \<Rightarrow> string" where
  "pad2 n = [chr (48 + n div 10 mod 10), chr (48 + n mod 10)]"

definition pad9 :: "nat \<Rightarrow> string" where
  "pad9 n = replicate (9 - length (itoa n)) (CHR ''0'') @ itoa n"

text \<open>The fraction of a second without the zeros at its end.\<close>

definition fracText :: "nat \<Rightarrow> string" where
  "fracText ns = (if ns = 0 then [] else CHR ''.'' # rev (dropWhile (\<lambda>c. c = CHR ''0'') (rev (pad9 ns))))"

text \<open>The offset of the time zone, in minutes east.\<close>

definition zoneText :: "int \<Rightarrow> string" where
  "zoneText zone =
     (if zone = 0 then ''Z''
      else (if zone < 0 then CHR ''-'' else CHR ''+'') # pad2 (nat \<bar>zone\<bar> div 60) @ '':'' @ pad2 (nat \<bar>zone\<bar> mod 60))"

definition nanos :: int where
  "nanos = 1000000000"

text \<open>\<open>Time.MarshalJSON\<close>: the time as it is shown in a zone, or \<open>None\<close> when its year has not four digits or the
  zone is a day or more away.\<close>

definition formatTime :: "int \<Rightarrow> int \<Rightarrow> string option" where
  "formatTime zone t =
     (let secs = t div nanos + 60 * zone;
          (y, yd) = splitYears (secs div 86400 + 719162);
          (m, d) = monthOf (isLeap y) yd;
          s = nat (secs mod 86400)
      in if y < 0 \<or> 9999 < y \<or> 24 * 60 \<le> \<bar>zone\<bar> then None
         else Some (pad4 (nat y) @ ''-'' @ pad2 m @ ''-'' @ pad2 (nat d) @ ''T'' @ pad2 (s div 3600) @ '':''
           @ pad2 (s div 60 mod 60) @ '':'' @ pad2 (s mod 60) @ fracText (nat (t mod nanos)) @ zoneText zone))"

section \<open>Reading\<close>

definition literal :: "char \<Rightarrow> string \<Rightarrow> string option" where
  "literal c s = (if prefix [c] s then Some (tl s) else None)"

text \<open>\<open>getnum\<close>: two digits, or also one when the field is not \<open>fixed\<close>.\<close>

definition getnum :: "bool \<Rightarrow> string \<Rightarrow> (nat \<times> string) option" where
  "getnum fixed s =
     (if s = [] \<or> \<not> isDecimal (s ! 0) then None
      else if length s < 2 \<or> \<not> isDecimal (s ! 1)
      then (if fixed then None else Some (byte (s ! 0) - 48, drop 1 s))
      else Some ((byte (s ! 0) - 48) * 10 + (byte (s ! 1) - 48), drop 2 s))"

definition inside :: "nat \<Rightarrow> nat \<Rightarrow> nat \<times> 'a \<Rightarrow> (nat \<times> 'a) option" where
  "inside lo hi x = (if lo \<le> fst x \<and> fst x \<le> hi then Some x else None)"

text \<open>A fraction, after a full stop or a comma, which the layout need not have; digits beyond the ninth are
  dropped.\<close>

definition getFrac :: "string \<Rightarrow> nat \<times> string" where
  "getFrac s =
     (if (prefix ''.'' s \<or> prefix '','' s) \<and> 2 \<le> length s \<and> isDecimal (s ! 1)
      then (let ds = takeWhile isDecimal (tl s); k = take 9 ds
            in (digitsVal k * 10 ^ (9 - length k), drop (length ds) (tl s)))
      else (0, s))"

text \<open>The zone in seconds east; the ranges are as wide as Go has them.\<close>

definition getZone :: "string \<Rightarrow> (int \<times> string) option" where
  "getZone s =
     (if prefix ''Z'' s then Some (0, tl s)
      else if length s < 6 \<or> s ! 3 \<noteq> CHR '':'' \<or> s ! 0 \<notin> {CHR ''+'', CHR ''-''} then None
      else do {
        (hh, r1) \<leftarrow> getnum True [s ! 1, s ! 2];
        (mm, r2) \<leftarrow> getnum True [s ! 4, s ! 5];
        if 24 < hh \<or> 60 < mm then None
        else (let off = int ((hh * 60 + mm) * 60) in Some (if s ! 0 = CHR ''-'' then - off else off, drop 6 s))
      })"

definition parseRFC3339 :: "string \<Rightarrow> int option" where
  "parseRFC3339 s =
     (if length s < 4 \<or> \<not> list_all isDecimal (take 4 s) then None
      else do {
        let year = int (digitsVal (take 4 s));
        s \<leftarrow> literal (CHR ''-'') (drop 4 s);
        (month, s) \<leftarrow> getnum True s \<bind> inside 1 12;
        s \<leftarrow> literal (CHR ''-'') s;
        (day, s) \<leftarrow> getnum True s;
        s \<leftarrow> literal (CHR ''T'') s;
        (hh, s) \<leftarrow> getnum False s \<bind> inside 0 23;
        s \<leftarrow> literal (CHR '':'') s;
        (mi, s) \<leftarrow> getnum True s \<bind> inside 0 59;
        s \<leftarrow> literal (CHR '':'') s;
        (sec, s) \<leftarrow> getnum True s \<bind> inside 0 59;
        let (frac, s) = getFrac s;
        (zone, s) \<leftarrow> getZone s;
        if s \<noteq> [] \<or> day < 1 \<or> daysIn month (isLeap year) < int day then None
        else Some ((unixDays year month (int day) * 86400 + int (hh * 3600 + mi * 60 + sec) - zone) * nanos + int frac)
      })"

section \<open>What was written is read\<close>

lemma pad2_digits: "isDecimal (pad2 n ! 0)" "isDecimal (pad2 n ! 1)" "length (pad2 n) = 2"
  by (simp_all add: pad2_def isDecimal_chr)

lemma getnum_pad2 [simp]: "n < 100 \<Longrightarrow> getnum fixed (pad2 n @ r) = Some (n, r)"
  by (simp add: getnum_def pad2_def isDecimal_chr)

lemma getnum_pad2_end [simp]: "n < 100 \<Longrightarrow> getnum fixed (pad2 n) = Some (n, [])"
  using getnum_pad2 [of n fixed "[]"] by simp

lemma itoa_width: "n < 10 ^ k \<Longrightarrow> 0 < k \<Longrightarrow> length (itoa n) \<le> k"
proof (induction k arbitrary: n)
  case (Suc k)
  show ?case
  proof (cases "n < 10")
    case False
    then have "0 < k" "n div 10 < 10 ^ k" using Suc.prems by (cases k; simp add: div_less_iff_less_mult)+
    with Suc.IH [of "n div 10"] False show ?thesis by (subst itoa.simps) simp
  qed (simp add: itoa.simps [of n])
qed simp

lemma isDecimal_zero [simp]: "isDecimal (CHR ''0'')"
  by (simp add: isDecimal_def byte_def)

lemma pad4_facts:
  assumes "n \<le> 9999"
  shows "length (pad4 n) = 4" "list_all isDecimal (pad4 n)" "digitsVal (pad4 n) = n"
  using itoa_width [of n 4] assms itoa_decimal [of n]
  by (auto simp: pad4_def digitsVal_zeros digitsVal_itoa list_all_iff)

lemma pad9_facts:
  assumes "n < 1000000000"
  shows "length (pad9 n) = 9" "list_all isDecimal (pad9 n)" "digitsVal (pad9 n) = n"
  using itoa_width [of n 9] assms itoa_decimal [of n]
  by (auto simp: pad9_def digitsVal_zeros digitsVal_itoa list_all_iff)

lemma digitsVal_shift: "digitsVal (ds @ replicate k (CHR ''0'')) = digitsVal ds * 10 ^ k"
proof (induction k)
  case (Suc k)
  have "ds @ replicate (Suc k) (CHR ''0'') = (ds @ replicate k (CHR ''0'')) @ [CHR ''0'']"
    by (simp add: replicate_append_same)
  then show ?case unfolding digitsVal_append using Suc by (simp add: digitsVal_append byte_def del: append_assoc)
qed simp

lemma fracText_cases:
  assumes "n < 1000000000" "n \<noteq> 0"
  obtains q where "fracText n = CHR ''.'' # q" "list_all isDecimal q" "q \<noteq> []" "length q \<le> 9"
    "digitsVal q * 10 ^ (9 - length q) = n"
proof -
  let ?zero = "\<lambda>c. c = CHR ''0''"
  define q where "q = rev (dropWhile ?zero (rev (pad9 n)))"
  define z where "z = rev (takeWhile ?zero (rev (pad9 n)))"
  have p: "pad9 n = q @ z"
    unfolding q_def z_def rev_append [symmetric] by (simp only: takeWhile_dropWhile_id rev_rev_ident)
  have "\<forall>c\<in>set z. c = CHR ''0''" unfolding z_def by (auto dest: set_takeWhileD)
  then have z: "z = replicate (length z) (CHR ''0'')" by (metis replicate_eqI)
  note f = pad9_facts [OF assms(1)]
  have len: "length q + length z = 9" using f(1) p by simp
  have val: "digitsVal q * 10 ^ length z = n" using f(3) p z digitsVal_shift [of q "length z"] by simp
  show ?thesis
  proof (rule that [of q])
    show "fracText n = CHR ''.'' # q" using assms(2) by (simp add: fracText_def q_def)
    show "list_all isDecimal q" using f(2) p by simp
    show "q \<noteq> []" using val assms(2) by (auto simp: digitsVal_def)
    show "length q \<le> 9" using len by simp
    show "digitsVal q * 10 ^ (9 - length q) = n" using val len by (metis add_diff_cancel_left')
  qed
qed

lemma getFrac_text:
  assumes "n < 1000000000" "r \<noteq> []" "\<not> isDecimal (hd r)" "hd r \<noteq> CHR ''.''" "hd r \<noteq> CHR '',''"
  shows "getFrac (fracText n @ r) = (n, r)"
proof (cases "n = 0")
  case True
  with assms show ?thesis by (cases r) (auto simp: fracText_def getFrac_def)
next
  case False
  from fracText_cases [OF assms(1) False] obtain q where q: "fracText n = CHR ''.'' # q" "list_all isDecimal q" "q \<noteq> []"
    "length q \<le> 9" "digitsVal q * 10 ^ (9 - length q) = n" .
  have "takeWhile isDecimal (q @ r) = q" using q(2) assms(2,3) by (cases r) (simp_all add: takeWhile_append list_all_iff)
  moreover have "isDecimal ((q @ r) ! 0)" using q(2,3) by (cases q) simp_all
  ultimately show ?thesis using q by (simp add: getFrac_def Let_def Suc_le_eq)
qed

lemma zoneText_head: "zoneText z \<noteq> []" "\<not> isDecimal (hd (zoneText z))" "hd (zoneText z) \<noteq> CHR ''.''" "hd (zoneText z) \<noteq> CHR '',''"
  by (auto simp: zoneText_def isDecimal_def byte_def)

lemma getZone_text: "\<bar>z\<bar> < 1440 \<Longrightarrow> getZone (zoneText z) = Some (60 * z, [])"
proof -
  assume z: "\<bar>z\<bar> < 1440"
  define h m where "h = nat \<bar>z\<bar> div 60" and "m = nat \<bar>z\<bar> mod 60"
  have "h * 60 + m = nat \<bar>z\<bar>" unfolding h_def m_def by simp
  then have "int (h * 60 + m) = int (nat \<bar>z\<bar>)" by (rule arg_cong)
  then have hm: "int h * 60 + int m = \<bar>z\<bar>" by simp
  have "h < 24" "m < 60" using z by (simp_all add: h_def m_def)
  note hm = this hm
  show ?thesis
  proof (cases "z = 0")
    case False
    let ?sign = "if z < 0 then CHR ''-'' else CHR ''+''"
    have eq: "zoneText z = ?sign # pad2 h @ CHR '':'' # pad2 m" using False by (simp add: zoneText_def h_def m_def)
    have two: "[pad2 n ! 0, pad2 n ! 1] = pad2 n" for n by (simp add: pad2_def)
    have nth: "(x # pad2 h @ CHR '':'' # pad2 m) ! 1 = pad2 h ! 0" "(x # pad2 h @ CHR '':'' # pad2 m) ! 2 = pad2 h ! 1"
      "(x # pad2 h @ CHR '':'' # pad2 m) ! 3 = CHR '':''" "(x # pad2 h @ CHR '':'' # pad2 m) ! 4 = pad2 m ! 0"
      "(x # pad2 h @ CHR '':'' # pad2 m) ! 5 = pad2 m ! 1" "length (x # pad2 h @ CHR '':'' # pad2 m) = 6" "drop 6 (x # pad2 h @ CHR '':'' # pad2 m) = []" for x
      by (simp_all add: pad2_def)
    have "getZone (zoneText z) = Some (if z < 0 then - int ((h * 60 + m) * 60) else int ((h * 60 + m) * 60), [])"
      unfolding getZone_def eq nth two using hm(1,2) by (simp add: Let_def nth del: drop_Suc_Cons)
    moreover have "(if z < 0 then - int ((h * 60 + m) * 60) else int ((h * 60 + m) * 60)) = 60 * z" using hm(3) by auto
    ultimately show ?thesis by simp
  qed (simp add: zoneText_def getZone_def)
qed

lemma literal_simps [simp]: "literal c (c # s) = Some s"
  by (simp add: literal_def)

lemma take4_pad4: "n \<le> 9999 \<Longrightarrow> take 4 (pad4 n @ s) = pad4 n" "n \<le> 9999 \<Longrightarrow> drop 4 (pad4 n @ s) = s"
  using pad4_facts(1) [of n] by simp_all

lemma parse_format:
  assumes "formatTime zone t = Some s"
  shows "parseRFC3339 s = Some t"
proof -
  define secs where "secs = t div nanos + 60 * zone"
  obtain y yd where yd: "splitYears (secs div 86400 + 719162) = (y, yd)" by (metis surj_pair)
  obtain m d where md: "monthOf (isLeap y) yd = (m, d)" by (metis surj_pair)
  define k where "k = nat (secs mod 86400)"
  have ok: "0 \<le> y" "y \<le> 9999" "\<bar>zone\<bar> < 1440" and s: "s = pad4 (nat y) @ ''-'' @ pad2 m @ ''-'' @ pad2 (nat d) @ ''T''
      @ pad2 (k div 3600) @ '':'' @ pad2 (k div 60 mod 60) @ '':'' @ pad2 (k mod 60) @ fracText (nat (t mod nanos)) @ zoneText zone"
    using assms by (auto simp: formatTime_def Let_def secs_def [symmetric] yd md k_def split: if_splits)
  note year = splitYears_correct [OF yd] and month = monthOf_correct [OF md splitYears_correct(2,3) [OF yd]]
  have k: "k < 86400" "int k = secs mod 86400" by (simp_all add: k_def nat_less_iff)
  have frac: "nat (t mod nanos) < 1000000000" by (simp add: nanos_def nat_less_iff)
  have day: "d \<le> 31" using month months [of m] by (auto simp: daysIn_def daysBefore_def split: if_splits)
  have clock: "k div 3600 * 3600 + k div 60 mod 60 * 60 + k mod 60 = k"
  proof -
    have "k div 3600 * 3600 + k div 60 mod 60 * 60 + k mod 60 = (k div 60 div 60 * 60 + k div 60 mod 60) * 60 + k mod 60"
      by (simp add: div_mult2_eq [symmetric])
    then show ?thesis by (simp only: div_mult_mod_eq)
  qed
  have bounds: "k div 3600 \<le> 23" "k div 60 mod 60 \<le> 59" "k mod 60 \<le> 59"
    using k(1) by (simp_all add: less_Suc_eq_le [symmetric])
  have days: "unixDays y m d * 86400 + int k - 60 * zone = t div nanos"
    using year(1) month k(2) by (simp add: unixDays_def secs_def)
  have "parseRFC3339 s = Some ((unixDays y m d * 86400 + int (k div 3600 * 3600 + k div 60 mod 60 * 60 + k mod 60) - 60 * zone)
      * nanos + int (nat (t mod nanos)))"
    using ok bounds day month pad4_facts [of "nat y"] unfolding s parseRFC3339_def
    by (simp add: take4_pad4 inside_def getFrac_text [OF frac zoneText_head] getZone_text Let_def)
  also have "\<dots> = Some t" unfolding clock days by (simp add: nanos_def)
  finally show ?thesis .
qed

end
