(* ===== verification/Http_Auth.thy ===== *)
theory Http_Auth
  imports Ws_Hub Go_Json Go_Time
begin

text \<open>
  Requests, tokens and who they belong to: \<open>internal/auth/auth.go\<close>, \<open>internal/http/middleware/auth.go\<close> and
  the head of \<open>ServeWS\<close> in \<open>internal/ws/hub.go\<close>.

  What comes from packages outside the repository is the record \<open>libs\<close>: signing and checking of tokens,
  password hashing, the form of ids, the multipart decoder, the CORS middleware and the file server.
  Whatever else a request meets -- the clock, the database's clock, a fresh id, the outcome of file operations -- is in the
  record \<open>chance\<close>. Times are numbers of nanoseconds.
\<close>

section \<open>Requests and responses\<close>

record Request =
  req_Method :: string
  req_Path :: "string list"
  req_Authorization :: string
  req_Query :: "(string, string) gomap"
  req_Body :: string

definition queryGet :: "Request \<Rightarrow> string \<Rightarrow> string" where
  "queryGet r k = (case map_of (req_Query r) k of None \<Rightarrow> [] | Some v \<Rightarrow> v)"

text \<open>A nil slice, which JSON shows as \<open>null\<close>, is \<open>None\<close>.\<close>

datatype Payload =
    ErrorBody string
  | PlainError string
  | PlainText string
  | TokenBody string User
  | UserBody User
  | UsersBody "User list option"
  | RoomsBody "RoomRow list option"
  | RoomBody RoomRow
  | MessagesBody "Message list option"
  | StatusBody string
  | URLBody string
  | FileBody string
  | NoBody

record Response =
  resp_Status :: nat
  resp_Body :: Payload

definition respondJSON :: "nat \<Rightarrow> Payload \<Rightarrow> Response" where
  "respondJSON status payload = \<lparr>resp_Status = status, resp_Body = payload\<rparr>"

definition respondError :: "nat \<Rightarrow> string \<Rightarrow> Response" where
  "respondError status message = respondJSON status (ErrorBody message)"

definition httpError :: "string \<Rightarrow> nat \<Rightarrow> Response" where
  "httpError message status = \<lparr>resp_Status = status, resp_Body = PlainError message\<rparr>"

section \<open>Libraries\<close>

record Claims =
  claims_UserID :: string
  claims_Username :: string
  ExpiresAt :: "int option"
  IssuedAt :: "int option"
  Subject :: string

record registerRequest =
  reg_Email :: string
  reg_Username :: string
  reg_Password :: string
  reg_Avatar :: string

record loginRequest =
  log_Email :: string
  log_Password :: string

record createRoomRequest =
  cr_Name :: string
  cr_IsPrivate :: bool

text \<open>The bodies, as \<open>json.NewDecoder(r.Body).Decode(&req)\<close> reads them; \<open>None\<close> is its error.\<close>

definition decodeRegister :: "string \<Rightarrow> registerRequest option" where
  "decodeRegister = decodeJSON
     [(''email'', stringField reg_Email_update), (''username'', stringField reg_Username_update),
      (''password'', stringField reg_Password_update), (''avatarUrl'', stringField reg_Avatar_update)]
     \<lparr>reg_Email = [], reg_Username = [], reg_Password = [], reg_Avatar = []\<rparr>"

definition decodeLogin :: "string \<Rightarrow> loginRequest option" where
  "decodeLogin = decodeJSON
     [(''email'', stringField log_Email_update), (''password'', stringField log_Password_update)]
     \<lparr>log_Email = [], log_Password = []\<rparr>"

definition decodeRoom :: "string \<Rightarrow> createRoomRequest option" where
  "decodeRoom = decodeJSON
     [(''name'', stringField cr_Name_update), (''isPrivate'', boolField cr_IsPrivate_update)]
     \<lparr>cr_Name = [], cr_IsPrivate = False\<rparr>"

record formFile =
  ff_Field :: string
  ff_Filename :: string
  ff_Content :: string

record libs =
  lib_ws :: wsenv
  lib_unicode :: unicode
  formatUUID :: "uuid \<Rightarrow> string"
  newNumericDate :: "int \<Rightarrow> int"
  signedString :: "string \<Rightarrow> Claims \<Rightarrow> string option"
  parseWithClaims :: "int \<Rightarrow> string \<Rightarrow> string \<Rightarrow> (Claims \<times> bool) option"
  generateFromPassword :: "string \<Rightarrow> string \<Rightarrow> string option"
  compareHashAndPassword :: "string \<Rightarrow> string \<Rightarrow> bool"
  parseForm :: "int \<Rightarrow> string \<Rightarrow> formFile list option"
  corsHandler :: "string list \<Rightarrow> Request \<Rightarrow> Response option"
  fileServer :: "(string \<times> string, string) gomap \<Rightarrow> Request \<Rightarrow> Response"

abbreviation lib_sql :: "libs \<Rightarrow> sql" where
  "lib_sql L \<equiv> ws_sql (lib_ws L)"

abbreviation lib_parseUUID :: "libs \<Rightarrow> string \<Rightarrow> uuid option" where
  "lib_parseUUID L \<equiv> parseUUID (lib_ws L)"

record chance =
  new_ID :: uuid
  db_now :: int
  time_now :: int
  salt :: string
  mkdir_ok :: bool
  create_ok :: bool
  copied :: "nat option"
  upgrade_ok :: bool

section \<open>Tokens\<close>

definition NewToken :: "libs \<Rightarrow> int \<Rightarrow> uuid \<Rightarrow> string \<Rightarrow> string \<Rightarrow> int \<Rightarrow> string option" where
  "NewToken L now userID username secret ttl =
     (let claims = \<lparr>claims_UserID = formatUUID L userID, claims_Username = username,
                    ExpiresAt = Some (newNumericDate L (now + ttl)), IssuedAt = Some (newNumericDate L now),
                    Subject = formatUUID L userID\<rparr>
      in signedString L secret claims)"

definition ParseToken :: "libs \<Rightarrow> int \<Rightarrow> string \<Rightarrow> string \<Rightarrow> Claims option" where
  "ParseToken L now tokenString secret =
     (case parseWithClaims L now secret tokenString of
        None \<Rightarrow> None
      | Some (claims, valid) \<Rightarrow> if \<not> valid then None else Some claims)"

section \<open>The middleware\<close>

text \<open>The slice expression \<open>authHeader[7:]\<close> panics on a shorter string: \<open>None\<close>.\<close>

definition extractToken :: "unicode \<Rightarrow> Request \<Rightarrow> string option" where
  "extractToken u r =
     (let authHeader = req_Authorization r in
      if prefix ''bearer '' (toLower u authHeader)
      then (if length authHeader < 7 then None else Some (trimSpace (drop 7 authHeader)))
      else let token = queryGet r ''token'' in if token \<noteq> [] then Some token else Some [])"

text \<open>The values of a request's context, by key.\<close>

type_synonym reqContext = "(string, User) gomap"

definition WithUser :: "reqContext \<Rightarrow> User \<Rightarrow> reqContext" where
  "WithUser ctx user = (''user'', user) # ctx"

definition UserFromContext :: "reqContext \<Rightarrow> User option" where
  "UserFromContext ctx = map_of ctx ''user''"

lemma UserFromContext_simps [simp]: "UserFromContext (WithUser ctx user) = Some user" "UserFromContext [] = None"
  by (simp_all add: WithUser_def UserFromContext_def)

text \<open>\<open>Require\<close>: the user it puts into the request's context, or its answer. A panic in a handler makes
  \<open>net/http\<close> drop the connection without an answer.\<close>

datatype authResult = Authorized User | Rejected Response | Panicked

definition Require :: "libs \<Rightarrow> string \<Rightarrow> int \<Rightarrow> Request \<Rightarrow> Store \<Rightarrow> authResult" where
  "Require L secret now r st =
     (case extractToken (lib_unicode L) r of
        None \<Rightarrow> Panicked
      | Some token \<Rightarrow>
          if token = [] then Rejected (httpError ''missing token'' 401)
          else case ParseToken L now token secret of
            None \<Rightarrow> Rejected (httpError ''invalid token'' 401)
          | Some claims \<Rightarrow>
              (case lib_parseUUID L (claims_UserID claims) of
                 None \<Rightarrow> Rejected (httpError ''invalid token'' 401)
               | Some userID \<Rightarrow>
                   (case GetUserByID userID st of
                      Inl _ \<Rightarrow> Rejected (httpError ''user not found'' 401)
                    | Inr user \<Rightarrow> Authorized user)))"

section \<open>The head of ServeWS\<close>

definition middlewareExtractToken :: "unicode \<Rightarrow> Request \<Rightarrow> string option" where
  "middlewareExtractToken u r =
     (let authHeader = req_Authorization r in
      if prefix ''bearer '' (toLower u authHeader)
      then (if length authHeader < 7 then None else Some (trimSpace (drop 7 authHeader)))
      else let token = queryGet r ''token'' in if token \<noteq> [] then Some token else Some [])"

text \<open>The answer and the hub after it; \<open>None\<close> is a panic. A failed upgrade has been answered by the
  upgrader.\<close>

definition ServeWS :: "libs \<Rightarrow> string \<Rightarrow> chance \<Rightarrow> Request \<Rightarrow> Hub \<Rightarrow> Response option \<times> Hub" where
  "ServeWS L secret o' r h =
     (case middlewareExtractToken (lib_unicode L) r of
        None \<Rightarrow> (None, h)
      | Some token \<Rightarrow>
          if token = [] then (Some (httpError ''missing token'' 401), h)
          else case ParseToken L (time_now o') token secret of
            None \<Rightarrow> (Some (httpError ''invalid token'' 401), h)
          | Some claims \<Rightarrow>
              (case lib_parseUUID L (claims_UserID claims) of
                 None \<Rightarrow> (Some (httpError ''invalid token'' 401), h)
               | Some userID \<Rightarrow>
                   (case GetUserByID userID (hub_store h) of
                      Inl _ \<Rightarrow> (Some (httpError ''user not found'' 401), h)
                    | Inr user \<Rightarrow>
                        if \<not> upgrade_ok o' then (Some (httpError ''Bad Request'' 400), h)
                        else (Some \<lparr>resp_Status = 101, resp_Body = NoBody\<rparr>, accept (time_now o') user h))))"

end
