(* ===== verification/Http_Handlers.thy ===== *)
theory Http_Handlers
  imports Http_Auth
begin

text \<open>
  The handlers of \<open>internal/http/handlers\<close> and the router of \<open>internal/http/router.go\<close>.

  The state is the hub, whose store is the one the handlers use, and the directory of uploaded files.
  A handler takes the request's context, into which the middleware puts the user. The upload
  directory maps the two arguments of \<open>filepath.Join\<close> to what is in the file.
\<close>

record App =
  app_hub :: Hub
  app_files :: "(string \<times> string, string) gomap"

abbreviation app_store :: "App \<Rightarrow> Store" where
  "app_store a \<equiv> hub_store (app_hub a)"

definition setStore :: "Store \<Rightarrow> App \<Rightarrow> App" where
  "setStore st a = a\<lparr>app_hub := (app_hub a)\<lparr>hub_store := st\<rparr>\<rparr>"

record RouterDeps =
  Secret :: string
  TokenTTL :: int
  UploadDir :: string
  MaxUpload :: "64 word"
  CORSOrigins :: "string list"

section \<open>Helpers\<close>

definition second :: int where
  "second = 1000000000"

definition hour :: int where
  "hour = 3600 * second"

definition parseTimeParam :: "int \<Rightarrow> string \<Rightarrow> int" where
  "parseTimeParam now raw =
     (if raw = [] then now + second
      else case parseRFC3339 raw of None \<Rightarrow> now + second | Some parsed \<Rightarrow> parsed)"

definition timeSecondsToDuration :: "int \<Rightarrow> int" where
  "timeSecondsToDuration duration = (if duration \<le> 0 then 24 * hour else duration)"

definition limitParam :: "int \<Rightarrow> Request \<Rightarrow> int" where
  "limitParam dflt r =
     (let raw = queryGet r ''limit'' in
      if raw \<noteq> [] then (case parseInt64 raw of Some parsed \<Rightarrow> parsed | None \<Rightarrow> dflt) else dflt)"

text \<open>\<open>var out []T\<close> with appended rows.\<close>

definition slice :: "'a list \<Rightarrow> 'a list option" where
  "slice rows = (if rows = [] then None else Some rows)"

section \<open>Accounts\<close>

definition Register :: "libs \<Rightarrow> RouterDeps \<Rightarrow> chance \<Rightarrow> Request \<Rightarrow> App \<Rightarrow> Response \<times> App" where
  "Register L d ch r a =
     (case decodeRegister (req_Body r) of
        None \<Rightarrow> (respondError 400 ''invalid payload'', a)
      | Some req \<Rightarrow>
          if length (reg_Password req) < 6 \<or> length (reg_Username req) < 3 \<or> length (reg_Email req) < 5
          then (respondError 400 ''invalid credentials'', a)
          else case generateFromPassword L (salt ch) (reg_Password req) of
            None \<Rightarrow> (respondError 500 ''could not create user'', a)
          | Some passwordHash \<Rightarrow>
              (case CreateUser (lib_sql L) (new_ID ch) (db_now ch) (trimSpace (reg_Email req))
                      (trimSpace (reg_Username req)) passwordHash (trimSpace (reg_Avatar req)) (app_store a) of
                 (Inl _, st) \<Rightarrow> (respondError 409 ''user already exists'', setStore st a)
               | (Inr user, st) \<Rightarrow>
                   (case NewToken L (time_now ch) (user_ID user) (Username user) (Secret d)
                           (timeSecondsToDuration (TokenTTL d)) of
                      None \<Rightarrow> (respondError 500 ''could not sign token'', setStore st a)
                    | Some token \<Rightarrow> (respondJSON 201 (TokenBody token user), setStore st a))))"

definition Login :: "libs \<Rightarrow> RouterDeps \<Rightarrow> chance \<Rightarrow> Request \<Rightarrow> App \<Rightarrow> Response" where
  "Login L d ch r a =
     (case decodeLogin (req_Body r) of
        None \<Rightarrow> respondError 400 ''invalid payload''
      | Some req \<Rightarrow>
          (case GetUserByEmail (lib_sql L) (trimSpace (log_Email req)) (app_store a) of
             Inl _ \<Rightarrow> respondError 401 ''invalid credentials''
           | Inr (user, passwordHash) \<Rightarrow>
               if \<not> compareHashAndPassword L passwordHash (log_Password req)
               then respondError 401 ''invalid credentials''
               else case NewToken L (time_now ch) (user_ID user) (Username user) (Secret d)
                      (timeSecondsToDuration (TokenTTL d)) of
                 None \<Rightarrow> respondError 500 ''could not sign token''
               | Some token \<Rightarrow> respondJSON 200 (TokenBody token user)))"

definition Me :: "reqContext \<Rightarrow> Response" where
  "Me ctx = (case UserFromContext ctx of None \<Rightarrow> respondError 401 ''unauthorized'' | Some user \<Rightarrow> respondJSON 200 (UserBody user))"

section \<open>Users and rooms\<close>

definition Search :: "libs \<Rightarrow> Request \<Rightarrow> App \<Rightarrow> Response" where
  "Search L r a =
     (let query = trimSpace (queryGet r ''query'');
          limit = limitParam 20 r
      in case SearchUsers (lib_sql L) query limit (app_store a) of
           Inl _ \<Rightarrow> respondError 500 ''failed to load users''
         | Inr users \<Rightarrow> respondJSON 200 (UsersBody (slice users)))"

definition rooms_List :: "reqContext \<Rightarrow> App \<Rightarrow> Response" where
  "rooms_List ctx a =
     (case UserFromContext ctx of
        None \<Rightarrow> respondError 401 ''unauthorized''
      | Some user \<Rightarrow>
          (case ListRooms (user_ID user) (app_store a) of
             Inl _ \<Rightarrow> respondError 500 ''failed to load rooms''
           | Inr rooms \<Rightarrow> respondJSON 200 (RoomsBody (slice rooms))))"

definition Create :: "libs \<Rightarrow> chance \<Rightarrow> reqContext \<Rightarrow> Request \<Rightarrow> App \<Rightarrow> Response \<times> App" where
  "Create L ch ctx r a =
     (case UserFromContext ctx of
        None \<Rightarrow> (respondError 401 ''unauthorized'', a)
      | Some user \<Rightarrow>
          (case decodeRoom (req_Body r) of
             None \<Rightarrow> (respondError 400 ''invalid payload'', a)
           | Some req \<Rightarrow>
               if length (cr_Name req) < 2 then (respondError 400 ''room name too short'', a)
               else case CreateRoom (lib_sql L) (new_ID ch) (db_now ch) (cr_Name req) (cr_IsPrivate req)
                      (user_ID user) (app_store a) of
                 (Inl _, st) \<Rightarrow> (respondError 409 ''room already exists'', setStore st a)
               | (Inr room, st) \<Rightarrow>
                   (let st = snd (AddRoomMember (lib_sql L) (db_now ch) (row_ID room) (user_ID user) ''owner'' st)
                    in (respondJSON 201 (RoomBody room), setStore st a))))"

definition Join :: "libs \<Rightarrow> chance \<Rightarrow> reqContext \<Rightarrow> string \<Rightarrow> App \<Rightarrow> Response \<times> App" where
  "Join L ch ctx roomId a =
     (case UserFromContext ctx of
        None \<Rightarrow> (respondError 401 ''unauthorized'', a)
      | Some user \<Rightarrow>
          (case lib_parseUUID L roomId of
             None \<Rightarrow> (respondError 400 ''invalid room id'', a)
           | Some roomID \<Rightarrow>
               (case AddRoomMember (lib_sql L) (db_now ch) roomID (user_ID user) ''member'' (app_store a) of
                  (Some _, st) \<Rightarrow> (respondError 500 ''failed to join room'', setStore st a)
                | (None, st) \<Rightarrow> (respondJSON 200 (StatusBody ''joined''), setStore st a))))"

definition Leave :: "libs \<Rightarrow> reqContext \<Rightarrow> string \<Rightarrow> App \<Rightarrow> Response \<times> App" where
  "Leave L ctx roomId a =
     (case UserFromContext ctx of
        None \<Rightarrow> (respondError 401 ''unauthorized'', a)
      | Some user \<Rightarrow>
          (case lib_parseUUID L roomId of
             None \<Rightarrow> (respondError 400 ''invalid room id'', a)
           | Some roomID \<Rightarrow>
               (case RemoveRoomMember roomID (user_ID user) (app_store a) of
                  (Some _, st) \<Rightarrow> (respondError 500 ''failed to leave room'', setStore st a)
                | (None, st) \<Rightarrow> (respondJSON 200 (StatusBody ''left''), setStore st a))))"

section \<open>Histories\<close>

definition RoomHistory :: "libs \<Rightarrow> chance \<Rightarrow> reqContext \<Rightarrow> string \<Rightarrow> Request \<Rightarrow> App \<Rightarrow> Response" where
  "RoomHistory L ch ctx roomId r a =
     (case UserFromContext ctx of
        None \<Rightarrow> respondError 401 ''unauthorized''
      | Some user \<Rightarrow>
          (case lib_parseUUID L roomId of
             None \<Rightarrow> respondError 400 ''invalid room id''
           | Some roomID \<Rightarrow>
               (case IsRoomMember roomID (user_ID user) (app_store a) of
                  Inr True \<Rightarrow>
                    (let limit = limitParam 50 r;
                         before = parseTimeParam (time_now ch) (queryGet r ''before'')
                     in case ListRoomMessages roomID limit before (app_store a) of
                          Inl _ \<Rightarrow> respondError 500 ''failed to load messages''
                        | Inr messages \<Rightarrow> respondJSON 200 (MessagesBody (slice messages)))
                | _ \<Rightarrow> respondError 403 ''not a member'')))"

definition DMHistory :: "libs \<Rightarrow> chance \<Rightarrow> reqContext \<Rightarrow> string \<Rightarrow> Request \<Rightarrow> App \<Rightarrow> Response" where
  "DMHistory L ch ctx userId r a =
     (case UserFromContext ctx of
        None \<Rightarrow> respondError 401 ''unauthorized''
      | Some user \<Rightarrow>
          (case lib_parseUUID L userId of
             None \<Rightarrow> respondError 400 ''invalid user id''
           | Some peerID \<Rightarrow>
               (let limit = limitParam 50 r;
                    before = parseTimeParam (time_now ch) (queryGet r ''before'')
                in case ListDMs (user_ID user) peerID limit before (app_store a) of
                     Inl _ \<Rightarrow> respondError 500 ''failed to load messages''
                   | Inr messages \<Rightarrow> respondJSON 200 (MessagesBody (slice messages)))))"

section \<open>Uploads\<close>

text \<open>\<open>filepath.Ext\<close>: what follows the last dot of the last path element, with the dot.\<close>

definition filepathExt :: "string \<Rightarrow> string" where
  "filepathExt path =
     (let base = rev (takeWhile (\<lambda>c. c \<noteq> CHR ''/'') (rev path)) in
      if CHR ''.'' \<in> set base then CHR ''.'' # rev (takeWhile (\<lambda>c. c \<noteq> CHR ''.'') (rev base)) else [])"

definition maxUploadBytes :: "64 word \<Rightarrow> 64 word" where
  "maxUploadBytes mb = mb * 1024 * 1024"

text \<open>\<open>http.MaxBytesReader\<close> takes a negative limit for zero. \<open>r.FormFile\<close> is the first file of the field.\<close>

definition Upload :: "libs \<Rightarrow> RouterDeps \<Rightarrow> chance \<Rightarrow> reqContext \<Rightarrow> Request \<Rightarrow> App \<Rightarrow> Response \<times> App" where
  "Upload L d ch ctx r a =
     (case UserFromContext ctx of
        None \<Rightarrow> (respondError 401 ''unauthorized'', a)
      | Some _ \<Rightarrow>
          if \<not> mkdir_ok ch then (respondError 500 ''failed to create upload dir'', a)
          else (let maxBytes = sint (maxUploadBytes (MaxUpload d)) in
            case parseForm L (max 0 maxBytes) (req_Body r) of
              None \<Rightarrow> (respondError 400 ''invalid form'', a)
            | Some form \<Rightarrow>
                (case filter (\<lambda>f. ff_Field f = ''file'') form of
                   [] \<Rightarrow> (respondError 400 ''file missing'', a)
                 | file # _ \<Rightarrow>
                     (let ext = filepathExt (ff_Filename file);
                          ext = (if ext = [] then ''.bin'' else ext);
                          filename = formatUUID L (new_ID ch) @ toLower (lib_unicode L) ext;
                          path = (UploadDir d, filename)
                      in if \<not> create_ok ch then (respondError 500 ''failed to save file'', a)
                         else case copied ch of
                           Some n \<Rightarrow> (respondError 500 ''failed to write file'',
                             a\<lparr>app_files := AList.update path (take n (ff_Content file)) (app_files a)\<rparr>)
                         | None \<Rightarrow> (respondJSON 201 (URLBody (''/uploads/'' @ filename)),
                             a\<lparr>app_files := AList.update path (ff_Content file) (app_files a)\<rparr>)))))"

section \<open>The router\<close>

definition health :: "App \<Rightarrow> Response" where
  "health a =
     (if \<not> Health (app_store a) then \<lparr>resp_Status = 503, resp_Body = PlainText ''db down''\<rparr>
      else \<lparr>resp_Status = 200, resp_Body = PlainText ''ok''\<rparr>)"

datatype endpoint =
    HealthE | RegisterE | LoginE | MeE | SearchE | ListE | CreateE | JoinE string | LeaveE string
  | RoomHistoryE string | DMHistoryE string | UploadE | WsE | FilesE

text \<open>The routes, each with its method; \<open>None\<close> is any method.\<close>

fun routes :: "string list \<Rightarrow> (string option \<times> endpoint) list" where
  "routes [p] =
     (if p = ''health'' then [(Some ''GET'', HealthE)]
      else if p = ''ws'' then [(Some ''GET'', WsE)] else [])"
| "routes (p # q # rest) =
     (if p = ''uploads'' then [(None, FilesE)]
      else if p \<noteq> ''api'' then []
      else case q # rest of
        [x] \<Rightarrow>
          if x = ''users'' then [(Some ''GET'', SearchE)]
          else if x = ''rooms'' then [(Some ''GET'', ListE), (Some ''POST'', CreateE)]
          else if x = ''uploads'' then [(Some ''POST'', UploadE)] else []
      | [x, y] \<Rightarrow>
          if x = ''auth'' \<and> y = ''register'' then [(Some ''POST'', RegisterE)]
          else if x = ''auth'' \<and> y = ''login'' then [(Some ''POST'', LoginE)]
          else if x = ''auth'' \<and> y = ''me'' then [(Some ''GET'', MeE)] else []
      | [x, y, z] \<Rightarrow>
          if x = ''rooms'' \<and> z = ''join'' then [(Some ''POST'', JoinE y)]
          else if x = ''rooms'' \<and> z = ''leave'' then [(Some ''POST'', LeaveE y)]
          else if x = ''rooms'' \<and> z = ''messages'' then [(Some ''GET'', RoomHistoryE y)]
          else if x = ''dms'' \<and> z = ''messages'' then [(Some ''GET'', DMHistoryE y)] else []
      | _ \<Rightarrow> [])"
| "routes [] = []"

text \<open>The routes inside the group that uses \<open>Require\<close>.\<close>

fun protected :: "endpoint \<Rightarrow> bool" where
  "protected HealthE = False"
| "protected RegisterE = False"
| "protected LoginE = False"
| "protected WsE = False"
| "protected FilesE = False"
| "protected _ = True"

definition endpoints :: "libs \<Rightarrow> RouterDeps \<Rightarrow> chance \<Rightarrow> reqContext \<Rightarrow> Request \<Rightarrow> endpoint \<Rightarrow> App \<Rightarrow> Response option \<times> App" where
  "endpoints L d ch ctx r ep a =
     (let reads = (\<lambda>x. (Some x, a)); writes = (\<lambda>(x, a). (Some x, a)) in
      case ep of
        HealthE \<Rightarrow> reads (health a)
      | RegisterE \<Rightarrow> writes (Register L d ch r a)
      | LoginE \<Rightarrow> reads (Login L d ch r a)
      | MeE \<Rightarrow> reads (Me ctx)
      | SearchE \<Rightarrow> reads (Search L r a)
      | ListE \<Rightarrow> reads (rooms_List ctx a)
      | CreateE \<Rightarrow> writes (Create L ch ctx r a)
      | JoinE roomId \<Rightarrow> writes (Join L ch ctx roomId a)
      | LeaveE roomId \<Rightarrow> writes (Leave L ctx roomId a)
      | RoomHistoryE roomId \<Rightarrow> reads (RoomHistory L ch ctx roomId r a)
      | DMHistoryE userId \<Rightarrow> reads (DMHistory L ch ctx userId r a)
      | UploadE \<Rightarrow> writes (Upload L d ch ctx r a)
      | WsE \<Rightarrow> (let (resp, h) = ServeWS L (Secret d) ch r (app_hub a) in (resp, a\<lparr>app_hub := h\<rparr>))
      | FilesE \<Rightarrow> reads (fileServer L (app_files a) r))"

text \<open>A request through the CORS middleware, the routes and \<open>Require\<close>. The answer \<open>None\<close> is a panic.\<close>

definition NewRouter :: "libs \<Rightarrow> RouterDeps \<Rightarrow> chance \<Rightarrow> Request \<Rightarrow> App \<Rightarrow> Response option \<times> App" where
  "NewRouter L d ch r a =
     (case corsHandler L (CORSOrigins d) r of
        Some preflight \<Rightarrow> (Some preflight, a)
      | None \<Rightarrow>
          (case routes (req_Path r) of
             [] \<Rightarrow> (Some \<lparr>resp_Status = 404, resp_Body = PlainText ''404 page not found''\<rparr>, a)
           | rs \<Rightarrow>
               (case filter (\<lambda>(m, _). m = None \<or> m = Some (req_Method r)) rs of
                  [] \<Rightarrow> (Some \<lparr>resp_Status = 405, resp_Body = NoBody\<rparr>, a)
                | (_, ep) # _ \<Rightarrow>
                    if protected ep
                    then (case Require L (Secret d) (time_now ch) r (app_store a) of
                            Authorized user \<Rightarrow> endpoints L d ch (WithUser [] user) r ep a
                          | Rejected resp \<Rightarrow> (Some resp, a)
                          | Panicked \<Rightarrow> (None, a))
                    else endpoints L d ch [] r ep a)))"

end
