(* ===== verification/Http_Wire.thy ===== *)
theory Http_Wire
  imports Http_Handlers
begin

text \<open>
  What goes over the wire: the bodies of answers, the frames the WebSocket connections write, and the
  frames they read. The structs are those of \<open>internal/store/models.go\<close> and \<open>internal/ws/messages.go\<close>, with
  the names, the order and the \<open>omitempty\<close> of their tags; \<open>zone\<close> is the local time zone, in which the
  database driver gives times. A time that has no text makes the encoder fail, and the code ignores
  its error: the body stays empty.
\<close>

type_synonym timezone = "int \<Rightarrow> int"

definition uuidJSON :: "libs \<Rightarrow> uuid \<Rightarrow> json" where
  "uuidJSON L i = JString (formatUUID L i)"

definition timeJSON :: "timezone \<Rightarrow> int \<Rightarrow> json option" where
  "timeJSON zone t = map_option JString (formatTime (zone t) t)"

text \<open>\<open>omitempty\<close> leaves out a nil pointer and an empty string.\<close>

definition optUUID :: "libs \<Rightarrow> string \<Rightarrow> uuid option \<Rightarrow> (string \<times> json) list" where
  "optUUID L k i = (case i of None \<Rightarrow> [] | Some i \<Rightarrow> [(k, uuidJSON L i)])"

definition optString :: "string \<Rightarrow> string \<Rightarrow> (string \<times> json) list" where
  "optString k s = (if s = [] then [] else [(k, JString s)])"

definition optBool :: "string \<Rightarrow> bool \<Rightarrow> (string \<times> json) list" where
  "optBool k b = (if b then [(k, JBool True)] else [])"

section \<open>Answers\<close>

definition userJSON :: "libs \<Rightarrow> timezone \<Rightarrow> User \<Rightarrow> json option" where
  "userJSON L zone u = map_option (\<lambda>t. JObject [(''id'', uuidJSON L (user_ID u)), (''email'', JString (Email u)),
     (''username'', JString (Username u)), (''avatarUrl'', JString (User.AvatarURL u)), (''createdAt'', t)])
     (timeJSON zone (user_CreatedAt u))"

definition roomJSON :: "libs \<Rightarrow> timezone \<Rightarrow> RoomRow \<Rightarrow> json option" where
  "roomJSON L zone r = map_option (\<lambda>t. JObject [(''id'', uuidJSON L (row_ID r)), (''name'', JString (row_Name r)),
     (''isPrivate'', JBool (IsPrivate r)), (''createdBy'', uuidJSON L (CreatedBy r)), (''createdAt'', t)])
     (timeJSON zone (row_CreatedAt r))"

definition messageJSON :: "libs \<Rightarrow> timezone \<Rightarrow> Message \<Rightarrow> json option" where
  "messageJSON L zone m = map_option (\<lambda>t. JObject ([(''id'', uuidJSON L (msg_ID m))]
     @ optUUID L ''roomId'' (msg_RoomID m) @ [(''senderId'', uuidJSON L (SenderID m))]
     @ optUUID L ''recipientId'' (RecipientID m)
     @ [(''body'', JString (Body m)), (''messageType'', JString (MessageType m))]
     @ optString ''attachmentUrl'' (AttachmentURL m)
     @ [(''createdAt'', t), (''senderName'', JString (SenderName m)), (''senderAvatar'', JString (SenderAvatar m))]))
     (timeJSON zone (msg_CreatedAt m))"

definition listJSON :: "('a \<Rightarrow> json option) \<Rightarrow> 'a list option \<Rightarrow> json option" where
  "listJSON f xs = (case xs of None \<Rightarrow> Some JNull | Some xs \<Rightarrow> map_option JArray (those (map f xs)))"

text \<open>A Go map is written with its keys in order.\<close>

definition payloadJSON :: "libs \<Rightarrow> timezone \<Rightarrow> Payload \<Rightarrow> json option" where
  "payloadJSON L zone p =
     (case p of
        ErrorBody m \<Rightarrow> Some (JObject [(''error'', JString m)])
      | TokenBody token user \<Rightarrow>
          map_option (\<lambda>u. JObject [(''token'', JString token), (''user'', u)]) (userJSON L zone user)
      | UserBody user \<Rightarrow> userJSON L zone user
      | UsersBody users \<Rightarrow> listJSON (userJSON L zone) users
      | RoomsBody rooms \<Rightarrow> listJSON (roomJSON L zone) rooms
      | RoomBody room \<Rightarrow> roomJSON L zone room
      | MessagesBody messages \<Rightarrow> listJSON (messageJSON L zone) messages
      | StatusBody m \<Rightarrow> Some (JObject [(''status'', JString m)])
      | URLBody url \<Rightarrow> Some (JObject [(''url'', JString url)])
      | _ \<Rightarrow> None)"

text \<open>\<open>json.NewEncoder(w).Encode(v)\<close> ends the text with a line break.\<close>

definition encodeLine :: "json option \<Rightarrow> string" where
  "encodeLine j = (case j of None \<Rightarrow> [] | Some j \<Rightarrow> encodeJSON j @ nl)"

definition bodyText :: "libs \<Rightarrow> timezone \<Rightarrow> Payload \<Rightarrow> string" where
  "bodyText L zone p =
     (case p of
        PlainError m \<Rightarrow> m @ nl
      | PlainText t \<Rightarrow> t
      | FileBody content \<Rightarrow> content
      | NoBody \<Rightarrow> []
      | p \<Rightarrow> encodeLine (payloadJSON L zone p))"

section \<open>Frames\<close>

definition messagePayloadJSON :: "libs \<Rightarrow> timezone \<Rightarrow> MessagePayload \<Rightarrow> json option" where
  "messagePayloadJSON L zone p = map_option (\<lambda>t. JObject ([(''id'', uuidJSON L (pay_ID p))]
     @ optUUID L ''roomId'' (pay_RoomID p)
     @ [(''senderId'', uuidJSON L (pay_SenderID p)), (''senderName'', JString (pay_SenderName p)),
        (''senderAvatar'', JString (pay_SenderAvatar p))]
     @ optUUID L ''recipientId'' (pay_RecipientID p) @ [(''body'', JString (pay_Body p))]
     @ optString ''attachmentUrl'' (pay_AttachmentURL p)
     @ [(''messageType'', JString (pay_MessageType p)), (''createdAt'', t)]))
     (timeJSON zone (pay_CreatedAt p))"

text \<open>\<open>LastSeen\<close> is in UTC.\<close>

definition eventDataJSON :: "libs \<Rightarrow> timezone \<Rightarrow> EventData \<Rightarrow> json option" where
  "eventDataJSON L zone d =
     (case d of
        ErrorData m \<Rightarrow> Some (JObject [(''message'', JString m)])
      | RoomJoinData p \<Rightarrow> Some (JObject [(''roomId'', uuidJSON L (join_RoomID p)), (''userId'', uuidJSON L (join_UserID p))])
      | MessageData p \<Rightarrow> messagePayloadJSON L zone p
      | PresenceData p \<Rightarrow> map_option (\<lambda>t. JObject [(''userId'', uuidJSON L (pres_UserID p)),
            (''online'', JBool (Online p)), (''lastSeen'', t)]) (timeJSON (\<lambda>_. 0) (LastSeen p))
      | TypingData p \<Rightarrow> Some (JObject (optUUID L ''roomId'' (typ_RoomID p) @ optUUID L ''recipientId'' (typ_RecipientID p)
            @ [(''userId'', uuidJSON L (typ_UserID p)), (''isTyping'', JBool (typ_IsTyping p))])))"

definition eventJSON :: "libs \<Rightarrow> timezone \<Rightarrow> Event \<Rightarrow> json option" where
  "eventJSON L zone ev = map_option (\<lambda>d. JObject [(''type'', JString (ev_Type ev)), (''data'', d)])
     (eventDataJSON L zone (ev_Data ev))"

text \<open>\<open>ReadJSON(&msg)\<close> and what a client sends.\<close>

definition zeroEvent :: ClientEvent where
  "zeroEvent = \<lparr>ce_Type = [], ce_RoomID = [], ce_RecipientID = [], ce_Body = [], ce_AttachmentURL = [], ce_IsTyping = False\<rparr>"

definition clientFields :: "ClientEvent fields" where
  "clientFields = [(''type'', stringField ce_Type_update), (''roomId'', stringField ce_RoomID_update),
     (''recipientId'', stringField ce_RecipientID_update), (''body'', stringField ce_Body_update),
     (''attachmentUrl'', stringField ce_AttachmentURL_update), (''isTyping'', boolField ce_IsTyping_update)]"

definition decodeClientEvent :: "string \<Rightarrow> ClientEvent option" where
  "decodeClientEvent = decodeJSON clientFields zeroEvent"

text \<open>What a client writes. The server has no such code: it is only used to state that the decoder above reads
  an event back.\<close>

definition clientEventJSON :: "ClientEvent \<Rightarrow> json" where
  "clientEventJSON ev = JObject ([(''type'', JString (ce_Type ev))] @ optString ''roomId'' (ce_RoomID ev)
     @ optString ''recipientId'' (ce_RecipientID ev) @ optString ''body'' (ce_Body ev)
     @ optString ''attachmentUrl'' (ce_AttachmentURL ev) @ optBool ''isTyping'' (ce_IsTyping ev))"

section \<open>Whatever is written can be read\<close>

lemma fits_simps [simp]:
  "fits (uuidJSON L i) d" "timeJSON zone t = Some j \<Longrightarrow> fits j d"
  "list_all (\<lambda>(k, j). fits j d) (optUUID L k' oi)" "list_all (\<lambda>(k, j). fits j d) (optString k' s)"
  "list_all (\<lambda>(k, j). fits j d) (optBool k' b)"
  by (auto simp: uuidJSON_def timeJSON_def optUUID_def optString_def optBool_def split: option.split)

lemma fits_object: "0 < d \<Longrightarrow> fits (JObject kvs) d \<longleftrightarrow> list_all (\<lambda>(k, j). fits j (d - 1)) kvs"
  by (simp add: fits_members)

lemma structs_fit:
  "userJSON L zone u = Some j \<Longrightarrow> fits j (Suc d)" "roomJSON L zone r = Some j \<Longrightarrow> fits j (Suc d)"
  "messageJSON L zone m = Some j \<Longrightarrow> fits j (Suc d)" "messagePayloadJSON L zone p = Some j \<Longrightarrow> fits j (Suc d)"
  by (auto simp: userJSON_def roomJSON_def messageJSON_def messagePayloadJSON_def fits_object simp del: fits.simps(6))

lemma those_mem: "those xs = Some ys \<Longrightarrow> y \<in> set ys \<Longrightarrow> Some y \<in> set xs"
  by (induction xs arbitrary: ys) (auto split: option.splits)

lemma listJSON_fit:
  assumes "listJSON f xs = Some j" "\<And>x j. f x = Some j \<Longrightarrow> fits j d"
  shows "fits j (Suc d)"
proof (cases xs)
  case (Some ys)
  then obtain js where js: "those (map f ys) = Some js" "j = JArray js" using assms(1) by (auto simp: listJSON_def)
  have "fits j' d" if "j' \<in> set js" for j'
    using those_mem [OF js(1) that] assms(2) by auto
  then show ?thesis by (simp add: js(2) list_all_iff)
qed (use assms in \<open>auto simp: listJSON_def\<close>)

lemma payload_fits: "payloadJSON L zone p = Some j \<Longrightarrow> fits j (Suc (Suc d))"
  by (cases p) (auto simp: payloadJSON_def structs_fit intro: listJSON_fit)

lemma event_fits: "eventJSON L zone ev = Some j \<Longrightarrow> fits j (Suc (Suc d))"
  by (cases "ev_Data ev")
    (auto simp: eventJSON_def eventDataJSON_def structs_fit fits_object simp del: fits.simps(6))

lemma encodeLine_fits:
  assumes "fits j maxNestingDepth"
  shows "parseValue maxNestingDepth (encodeLine (Some j)) = Some (cleanJSON j, nl)"
    "set (encodeLine (Some j)) \<inter> markup = {}"
  using parse_encode(1) [OF assms] encodeJSON_inert(1) [OF assms] by (auto simp: encodeLine_def nl_def markup_def)

end
