(* ===== verification/App_Invariant.thy ===== *)
theory App_Invariant
  imports App_Config Ws_Properties
begin

text \<open>
  The whole server as one machine: requests, turns of the WebSocket goroutines and outages of the
  database, on one state. The lemmas say that each of these changes the tables through the store's
  functions only, and leaves alone whose connection is whose; from this the invariant follows.
\<close>

section \<open>Changes of the database\<close>

definition store_steps :: "sql \<Rightarrow> Store \<Rightarrow> Store \<Rightarrow> bool" where
  "store_steps q = (\<lambda>s s'. \<exists>op. s' = store_run q op s)\<^sup>*\<^sup>*"

lemma store_steps_refl [simp]: "store_steps q st st"
  by (simp add: store_steps_def)

lemma store_steps_trans: "store_steps q a b \<Longrightarrow> store_steps q b c \<Longrightarrow> store_steps q a c"
  unfolding store_steps_def by (rule rtranclp_trans)

lemma store_steps_run: "store_steps q a b \<Longrightarrow> store_steps q a (store_run q op b)"
  unfolding store_steps_def by (rule rtranclp.rtrancl_into_rtrancl) auto

lemma store_steps_ops [simp]:
  assumes "store_steps q a st"
  shows "store_steps q a (snd (CreateUser q new now e n h av st))"
    "store_steps q a (snd (CreateRoom q new now n p u st))"
    "store_steps q a (snd (AddRoomMember q now r u role st))"
    "store_steps q a (snd (RemoveRoomMember r u st))"
    "store_steps q a (snd (UpdateRoomReadAt r u t st))"
    "store_steps q a (snd (CreateMessage q new now ro u d b at mt st))"
    "store_steps q a (snd (EnsureDefaultRoom q new u now st))"
    "store_steps q a (st\<lparr>st_up := up\<rparr>)"
  using store_steps_run [OF assms, of "OpCreateUser new now e n h av"]
    store_steps_run [OF assms, of "OpCreateRoom new now n p u"]
    store_steps_run [OF assms, of "OpAddMember now r u role"]
    store_steps_run [OF assms, of "OpRemoveMember r u"]
    store_steps_run [OF assms, of "OpReadAt r u t"]
    store_steps_run [OF assms, of "OpCreateMessage new now ro u d b at mt"]
    store_steps_run [OF assms, of "OpDefaultRoom new u now"]
    store_steps_run [OF assms, of "OpConnection up"]
  by simp_all

text \<open>The same where the code has split an operation's result.\<close>

lemma store_steps_results:
  "CreateUser q new now e n h av st = (x, st') \<Longrightarrow> store_steps q st st'"
  "CreateRoom q new now n p u st = (y, st') \<Longrightarrow> store_steps q st st'"
  "AddRoomMember q now r u role st = (z, st') \<Longrightarrow> store_steps q st st'"
  "RemoveRoomMember r u st = (z, st') \<Longrightarrow> store_steps q st st'"
  "CreateMessage q new now ro u d b at mt st = (m, st') \<Longrightarrow> store_steps q st st'"
  by (metis store_steps_ops store_steps_refl snd_conv)+

lemma store_steps_ok: "store_steps q a b \<Longrightarrow> store_ok a \<Longrightarrow> store_ok b"
  unfolding store_steps_def by (induction rule: rtranclp_induct) (auto simp: store_run_ok)

lemma store_run_users: "set (st_users st) \<subseteq> set (st_users (store_run q op st))"
proof (cases op)
  case (OpDefaultRoom new creator now)
  then show ?thesis using EnsureDefaultRoom_cases [of q new creator now st] by (auto simp: CreateRoom_def Let_def)
qed (auto simp: CreateUser_def CreateRoom_def AddRoomMember_def RemoveRoomMember_def UpdateRoomReadAt_def
    CreateMessage_def Let_def)

lemma store_steps_users: "store_steps q a b \<Longrightarrow> set (st_users a) \<subseteq> set (st_users b)"
  unfolding store_steps_def by (induction rule: rtranclp_induct) (use store_run_users in blast)+

section \<open>Turns of the WebSocket goroutines\<close>

definition turn :: "sql \<Rightarrow> Hub \<Rightarrow> Hub \<Rightarrow> bool" where
  "turn q h h' \<longleftrightarrow> store_steps q (hub_store h) (hub_store h') \<and> nextConn h' = nextConn h
     \<and> (\<forall>d. conn_user (connAt h' d) = conn_user (connAt h d))"

lemma turn_simps [simp]:
  "turn q h h"
  "turn q h (enqueueAll cs ev h') = turn q h h'"
  "turn q h (enqueueTo c ev h') = turn q h h'"
  "turn q h (ws_broadcastRoom c r ev x h') = turn q h h'"
  "turn q h (ws_broadcastUser c u ev x h') = turn q h h'"
  "turn q h (h'\<lparr>hub_rooms := rs\<rparr>) = turn q h h'"
  "turn q h (h'\<lparr>hub_users := us\<rparr>) = turn q h h'"
  "turn q h (h'\<lparr>hub_broadcast := bs\<rparr>) = turn q h h'"
  "turn q h (SubscribeRoom r c h') = turn q h h'"
  "turn q h (UnsubscribeRoom r c h') = turn q h h'"
  by (auto simp: turn_def enqueueTo_all ws_broadcastRoom_def ws_broadcastUser_def SubscribeRoom_def
      UnsubscribeRoom_takeOut)

lemma turn_modConn: "turn q h h' \<Longrightarrow> (\<And>x. conn_user (f x) = conn_user x) \<Longrightarrow> turn q h (modConn c f h')"
  by (simp add: turn_def)

lemma turn_store [simp]: "turn q h (h\<lparr>hub_store := st\<rparr>) \<longleftrightarrow> store_steps q (hub_store h) st"
  by (simp add: turn_def)

lemma turn_messages:
  "turn (ws_sql e) h (sendRoomMessage e new now c msg body h)"
  "turn (ws_sql e) h (sendDMMessage e new now c msg body h)"
  by (simp_all add: sendRoomMessage_def sendDMMessage_def Let_def split: option.split sum.split bool.split prod.split)
    (blast dest: store_steps_results(5))+

lemma turn_client: "turn (ws_sql e) h (handleClientEvent e new now c msg h)"
  by (auto simp: handleClientEvent_def ws_joinRoom_def ws_leaveRoom_def handleMessage_def handleTyping_def
      handleRead_def turn_messages Let_def intro!: turn_modConn split: option.split)

lemma turn_removeConn: "turn q h (removeConn now c h)"
  by (simp add: removeConn_def presence_all Let_def split: option.split)

lemma turn_hub_step:
  assumes "hub_inv h" "\<And>now user. ev \<noteq> Accept now user"
  shows "turn (ws_sql e) h (hub_step e ev h)"
proof (cases ev)
  case (Read c new now msg)
  then show ?thesis
    by (auto simp: ws_readLoop_def turn_client intro!: turn_modConn turn_removeConn split: option.split)
next
  case (Push c)
  then show ?thesis by (auto simp: push_def intro!: turn_modConn split: list.split)
next
  case Deliver
  then show ?thesis
  proof (cases "hub_broadcast h")
    case (Cons m ms)
    with Deliver show ?thesis by (simp add: deliver_all [OF assms(1) Cons])
  qed (simp add: deliver_def)
next
  case (Write c ok)
  then show ?thesis by (auto intro!: turn_modConn)
qed (use assms in simp)

section \<open>The invariant\<close>

definition users_known :: "Hub \<Rightarrow> bool" where
  "users_known h \<longleftrightarrow> (\<forall>c<nextConn h. conn_user (connAt h c) \<in> fst ` set (st_users (hub_store h)))"

definition app_inv :: "App \<Rightarrow> bool" where
  "app_inv a \<longleftrightarrow> hub_inv (app_hub a) \<and> store_ok (app_store a) \<and> users_known (app_hub a)"

lemma turn_known: "turn q h h' \<Longrightarrow> users_known h \<Longrightarrow> users_known h'"
  using store_steps_users by (fastforce simp: turn_def users_known_def)

lemma turn_ok: "turn q h h' \<Longrightarrow> store_ok (hub_store h) \<Longrightarrow> store_ok (hub_store h')"
  using store_steps_ok by (auto simp: turn_def)

lemma app_inv_setStore: "app_inv a \<Longrightarrow> store_steps q (app_store a) st \<Longrightarrow> app_inv (setStore st a)"
  using turn_known [of q "app_hub a" "(app_hub a)\<lparr>hub_store := st\<rparr>"] by (auto simp: app_inv_def setStore_def store_steps_ok)

lemma app_inv_files [simp]: "app_inv (a\<lparr>app_files := fs\<rparr>) = app_inv a"
  by (simp add: app_inv_def)

lemma app_inv_trivial_store [simp]: "setStore (app_store a) a = a"
  by (simp add: setStore_def)

section \<open>Every request keeps it\<close>

lemma firstRow_mem: "firstRow rows = Inr x \<Longrightarrow> x \<in> set rows"
  by (auto simp: firstRow_def split: list.splits)

lemma GetUserByID_known: "GetUserByID uid st = Inr user \<Longrightarrow> user \<in> fst ` set (st_users st) \<and> user_ID user = uid"
  unfolding GetUserByID_def by (drule sym) (auto dest!: firstRow_mem [OF sym] split: if_splits)

lemma Require_known: "Require L secret now r st = Authorized user \<Longrightarrow> user \<in> fst ` set (st_users st)"
  by (auto simp: Require_def dest!: GetUserByID_known split: option.splits sum.splits if_splits)

lemma accept_known:
  assumes "users_known h" "user \<in> fst ` set (st_users (hub_store h))"
  shows "users_known (accept now user h)"
  using assms by (auto simp: users_known_def accept_def addConn_def Let_def presence_all NewConn_def less_Suc_eq)

lemma accept_store [simp]: "hub_store (accept now user h) = hub_store h"
  by (simp add: accept_def addConn_def Let_def presence_all)

lemma ServeWS_Require:
  "ServeWS L secret ch r h =
     (case Require L secret (time_now ch) r (hub_store h) of
        Panicked \<Rightarrow> (None, h)
      | Rejected resp \<Rightarrow> (Some resp, h)
      | Authorized user \<Rightarrow>
          if \<not> upgrade_ok ch then (Some (httpError ''Bad Request'' 400), h)
          else (Some \<lparr>resp_Status = 101, resp_Body = NoBody\<rparr>, accept (time_now ch) user h))"
  by (simp add: ServeWS_def Require_def middlewareExtractToken_def extractToken_def Let_def
      split: option.split sum.split)

lemma app_inv_ServeWS:
  assumes "app_inv a"
  shows "app_inv (a\<lparr>app_hub := snd (ServeWS L secret ch r (app_hub a))\<rparr>)"
  using assms Require_known [of L secret "time_now ch" r "app_store a"]
  by (auto simp: ServeWS_Require app_inv_def accept_inv accept_known split: authResult.split)

lemma app_inv_handlers [inv_intros]:
  assumes "app_inv a"
  shows "app_inv (snd (Register L d ch r a))" "app_inv (snd (Create L ch ctx r a))"
    "app_inv (snd (Join L ch ctx roomId a))" "app_inv (snd (Leave L ctx roomId a))"
    "app_inv (snd (Upload L d ch ctx r a))"
proof -
  note set_store = app_inv_setStore [OF assms, of "lib_sql L"]
  show "app_inv (snd (Register L d ch r a))"
    using assms by (auto simp: Register_def intro!: set_store dest: store_steps_results(1) split: option.split sum.split prod.split)
  show "app_inv (snd (Create L ch ctx r a))"
    using assms by (auto simp: Create_def Let_def intro!: set_store dest: store_steps_results(2) split: option.split sum.split prod.split)
  show "app_inv (snd (Join L ch ctx roomId a))"
    using assms by (auto simp: Join_def intro!: set_store dest: store_steps_results(3) split: option.split sum.split prod.split)
  show "app_inv (snd (Leave L ctx roomId a))"
    using assms by (auto simp: Leave_def intro!: set_store dest: store_steps_results(4) split: option.split sum.split prod.split)
  show "app_inv (snd (Upload L d ch ctx r a))"
    using assms by (auto simp: Upload_def Let_def split: option.split list.split)
qed

lemma app_inv_endpoints:
  assumes "app_inv a"
  shows "app_inv (snd (endpoints L d ch ctx r ep a))"
proof (cases ep)
  case WsE
  then show ?thesis
    using app_inv_ServeWS [OF assms, of L "Secret d" ch r]
    by (cases "ServeWS L (Secret d) ch r (app_hub a)") (simp add: endpoints_def Let_def)
qed (use assms app_inv_handlers [OF assms] in \<open>auto simp: endpoints_def Let_def split_beta\<close>)

lemma app_inv_NewRouter: "app_inv a \<Longrightarrow> app_inv (snd (NewRouter L d ch r a))"
  by (auto simp: NewRouter_def app_inv_endpoints split: option.split list.split authResult.split prod.split)

lemma app_inv_turn:
  fixes L :: libs
  assumes "app_inv a" "\<And>now user. t \<noteq> Accept now user"
  shows "app_inv (a\<lparr>app_hub := hub_step (lib_ws L) t (app_hub a)\<rparr>)"
proof -
  have "turn (lib_sql L) (app_hub a) (hub_step (lib_ws L) t (app_hub a))"
    using assms by (intro turn_hub_step) (auto simp: app_inv_def)
  with assms show ?thesis by (auto simp: app_inv_def hub_step_inv intro: turn_ok turn_known)
qed

lemma app_step_inv:
  assumes "app_inv a"
  shows "app_inv (app_step L d ev a)"
proof (cases ev)
  case (Ws t)
  then show ?thesis using assms app_inv_turn [OF assms, of t L] by (cases t) auto
next
  case (Frame c new now frame)
  then show ?thesis using app_inv_turn [OF assms, of "Read c new now (Option.bind frame decodeClientEvent)" L] by simp
next
  case (Http ch r)
  with assms show ?thesis by (simp add: app_inv_NewRouter)
next
  case (Database up)
  have "store_steps (lib_sql L) (app_store a) ((app_store a)\<lparr>st_up := up\<rparr>)" by simp
  with assms Database show ?thesis by (simp add: app_inv_setStore)
qed

lemma NewHub_projs [simp]: "hub_store (NewHub st) = st" "nextConn (NewHub st) = 0"
  by (simp_all add: NewHub_def)

lemma startup_inv: "store_ok st \<Longrightarrow> app_inv (startup L new creator now st files)"
  by (simp add: startup_def app_inv_def NewHub_inv users_known_def inv_intros)

interpretation app: event_machine
  "\<lambda>a. \<exists>new creator now st files. store_ok st \<and> a = startup L new creator now st files"
  "app_step L d" app_inv for L d
  by unfold_locales (auto simp: startup_inv app_step_inv)

text \<open>C8. Whatever requests arrive, whatever the libraries answer, and however they interleave with the turns
  of the WebSocket goroutines and with outages of the database: the hub's registers stay right, the
  tables keep their keys and references, and every connection the hub has ever accepted belongs to
  an account in the table of users, with the data of its row.\<close>

theorem app_reachable_inv:
  assumes "store_ok st"
  shows "app_inv (fold (app_step L d) evs (startup L new creator now st files))"
  by (rule app.inv_reach) (use assms in blast)

lemma main_inv:
  assumes "mainServer L fr env pool new creator now st files = Some srv" "store_ok st"
  shows "app_inv (fold (app_step L (srv_Deps srv)) evs (srv_App srv))"
proof -
  have "srv_App srv = startup L new creator now st files"
    using assms(1) by (auto simp: mainServer_def Let_def split: if_splits)
  with app.inv_reach [of "srv_App srv" L "srv_Deps srv" evs] assms(2) show ?thesis by blast
qed

end
