(* ===== verification/Http_Laws.thy ===== *)
theory Http_Laws
  imports App_Invariant
begin

text \<open>
  What the program relies on in the packages outside it, as they document it (\<open>libs_ok\<close>), and a set of
  small functions that behave so (\<open>plainLibs\<close>), on which the properties are evaluated. The rest are the
  lemmas on tokens and on the routes that the properties share.
\<close>

section \<open>Documented behaviour\<close>

definition asciiPrint :: "char \<Rightarrow> bool" where
  "asciiPrint c \<longleftrightarrow> 33 \<le> byte c \<and> byte c \<le> 126"

definition uuidChar :: "char \<Rightarrow> bool" where
  "uuidChar c \<longleftrightarrow> isDecimal c \<or> 97 \<le> byte c \<and> byte c \<le> 102 \<or> c = CHR ''-''"

definition uuid_ok :: "libs \<Rightarrow> bool" where
  "uuid_ok L \<longleftrightarrow> (\<forall>u. lib_parseUUID L (formatUUID L u) = Some u
     \<and> formatUUID L u \<noteq> [] \<and> list_all uuidChar (formatUUID L u))"

text \<open>A token signed with a secret is printable, and checks with the secret until its time of expiry; what
  comes out of it has the subject it was signed with. A time in a token is cut to the second.\<close>

definition jwt_ok :: "libs \<Rightarrow> bool" where
  "jwt_ok L \<longleftrightarrow>
     (\<forall>t. newNumericDate L t \<le> t \<and> t < newNumericDate L t + second) \<and>
     (\<forall>secret claims. \<exists>tok. signedString L secret claims = Some tok \<and> tok \<noteq> [] \<and> list_all asciiPrint tok) \<and>
     (\<forall>secret claims tok u t now. signedString L secret claims = Some tok
        \<longrightarrow> claims_UserID claims = formatUUID L u \<longrightarrow> ExpiresAt claims = Some (newNumericDate L t)
        \<longrightarrow> (if now < newNumericDate L t
             then \<exists>c. parseWithClaims L now secret tok = Some (c, True) \<and> claims_UserID c = formatUUID L u
             else parseWithClaims L now secret tok = None))"

text \<open>bcrypt takes passwords of at most 72 bytes, whatever the salt.\<close>

definition bcrypt_ok :: "libs \<Rightarrow> bool" where
  "bcrypt_ok L \<longleftrightarrow> (\<forall>s pw.
     if length pw \<le> 72
     then \<exists>hash. generateFromPassword L s pw = Some hash \<and> compareHashAndPassword L hash pw
            \<and> list_all asciiPrint hash
     else generateFromPassword L s pw = None)"

text \<open>Printable ASCII is text to the database; there is no form in an empty body.\<close>

definition libs_ok :: "libs \<Rightarrow> bool" where
  "libs_ok L \<longleftrightarrow> unicode_ok (lib_unicode L) \<and> uuid_ok L \<and> jwt_ok L \<and> bcrypt_ok L
     \<and> (\<forall>s. list_all asciiPrint s \<longrightarrow> sql_text (lib_sql L) s) \<and> (\<forall>b. parseForm L 0 b = None)"

lemma libs_okD:
  assumes "libs_ok L"
  shows "unicode_ok (lib_unicode L)" "uuid_ok L" "jwt_ok L" "bcrypt_ok L"
    "list_all asciiPrint s \<Longrightarrow> sql_text (lib_sql L) s" "parseForm L 0 b = None"
  using assms by (simp_all add: libs_ok_def)

section \<open>A set of libraries\<close>

fun encChar :: "char \<Rightarrow> string" where
  "encChar (Char a b c d e f g h) = map (\<lambda>x. if x then CHR ''1'' else CHR ''0'') [a, b, c, d, e, f, g, h]"

fun decString :: "string \<Rightarrow> string" where
  "decString (a # b # c # d # e # f # g # h # s) =
     Char (a = CHR ''1'') (b = CHR ''1'') (c = CHR ''1'') (d = CHR ''1'') (e = CHR ''1'') (f = CHR ''1'')
       (g = CHR ''1'') (h = CHR ''1'') # decString s"
| "decString _ = []"

definition encString :: "string \<Rightarrow> string" where
  "encString s = concat (map encChar s)"

definition encInt :: "int \<Rightarrow> string" where
  "encInt i = (if i < 0 then CHR ''-'' else CHR ''+'') # itoa (nat \<bar>i\<bar>)"

definition decInt :: "string \<Rightarrow> int" where
  "decInt s = (if prefix ''-'' s then - int (digitsVal (tl s)) else int (digitsVal (tl s)))"

lemma decString_enc [simp]: "decString (encString s) = s"
proof (induction s)
  case (Cons c s)
  then show ?case by (cases c) (simp add: encString_def)
qed (simp add: encString_def)

lemma decInt_enc [simp]: "decInt (encInt i) = i"
  by (simp add: decInt_def encInt_def digitsVal_itoa)

lemma encString_chars: "set (encString s) \<subseteq> {CHR ''0'', CHR ''1''}"
proof (induction s)
  case (Cons c s)
  then show ?case by (cases c) (auto simp: encString_def)
qed (simp add: encString_def)

lemma encInt_chars: "c \<in> set (encInt i) \<Longrightarrow> isDecimal c \<or> c = CHR ''-'' \<or> c = CHR ''+''"
  using itoa_decimal [of "nat \<bar>i\<bar>"] by (auto simp: encInt_def list_all_iff split: if_splits)

definition plainSign :: "string \<Rightarrow> Claims \<Rightarrow> string option" where
  "plainSign secret c = Some (encString secret @ CHR ''.'' # encString (claims_UserID c) @ CHR ''.'' #
     (case ExpiresAt c of None \<Rightarrow> [] | Some t \<Rightarrow> encInt t))"

definition plainCheck :: "int \<Rightarrow> string \<Rightarrow> string \<Rightarrow> (Claims \<times> bool) option" where
  "plainCheck now secret tok =
     (case splitOn tok (CHR ''.'') of
        [s, u, t] \<Rightarrow>
          if s = encString secret \<and> (t = [] \<or> now < decInt t)
          then Some (\<lparr>claims_UserID = decString u, claims_Username = [],
                      ExpiresAt = (if t = [] then None else Some (decInt t)), IssuedAt = None, Subject = []\<rparr>, True)
          else None
      | _ \<Rightarrow> None)"

definition plainHash :: "string \<Rightarrow> string \<Rightarrow> string option" where
  "plainHash s pw = (if length pw \<le> 72 then Some (encString pw) else None)"

definition plainFields :: "string \<Rightarrow> string list" where
  "plainFields s = splitOn s (CHR ''|'')"

definition plainLibs :: libs where
  "plainLibs = \<lparr>lib_ws = plainEnv, lib_unicode = ascii_unicode, formatUUID = (\<lambda>u. itoa (unat u)),
     newNumericDate = (\<lambda>t. t), signedString = plainSign, parseWithClaims = plainCheck,
     generateFromPassword = plainHash, compareHashAndPassword = (\<lambda>h pw. h = encString pw),
     parseForm = (\<lambda>limit s. if int (length s) \<le> limit
       then (case plainFields s of [f, n, c] \<Rightarrow> Some [\<lparr>ff_Field = f, ff_Filename = n, ff_Content = c\<rparr>] | _ \<Rightarrow> None)
       else None),
     corsHandler = (\<lambda>_ _. None),
     fileServer = (\<lambda>fs r. case filter (\<lambda>((_, n), _). n = last (req_Path r)) fs of
       [] \<Rightarrow> \<lparr>resp_Status = 404, resp_Body = NoBody\<rparr> | (_, c) # _ \<Rightarrow> \<lparr>resp_Status = 200, resp_Body = FileBody c\<rparr>)\<rparr>"

lemma splitOn_append: "sep \<notin> set a \<Longrightarrow> splitOn (a @ sep # b) sep = a # splitOn b sep"
  by (induction a) auto

lemma splitOn_free: "sep \<notin> set a \<Longrightarrow> splitOn a sep = [a]"
  by (induction a) auto

lemma dot_free: "CHR ''.'' \<notin> set (encString s)" "CHR ''.'' \<notin> set (encInt i)"
  using encString_chars [of s] encInt_chars [of "CHR ''.''" i] by (auto simp: isDecimal_def byte_def)

lemma plainCheck_sign:
  assumes "plainSign secret c = Some tok" "ExpiresAt c = Some t"
  shows "plainCheck now secret tok = (if now < t then Some (\<lparr>claims_UserID = claims_UserID c, claims_Username = [],
    ExpiresAt = Some t, IssuedAt = None, Subject = []\<rparr>, True) else None)"
proof -
  have "tok = encString secret @ CHR ''.'' # encString (claims_UserID c) @ CHR ''.'' # encInt t"
    using assms by (simp add: plainSign_def)
  then have "splitOn tok (CHR ''.'') = [encString secret, encString (claims_UserID c), encInt t]"
    by (simp add: splitOn_append splitOn_free dot_free)
  moreover have "encInt t \<noteq> []" by (simp add: encInt_def)
  ultimately show ?thesis by (simp add: plainCheck_def)
qed

lemma encChars_print: "c \<in> set (encString s) \<Longrightarrow> asciiPrint c" "c \<in> set (encInt i) \<Longrightarrow> asciiPrint c"
  using encString_chars [of s] encInt_chars [of c i] by (auto simp: asciiPrint_def isDecimal_def byte_def)

lemma plainLibs_ok: "libs_ok plainLibs"
  unfolding libs_ok_def
proof (intro conjI)
  show "unicode_ok (lib_unicode plainLibs)" by (simp add: plainLibs_def)
  show "uuid_ok plainLibs"
    using itoa_decimal by (auto simp: uuid_ok_def plainLibs_def plainEnv_def plainParse_def digitsVal_itoa
        list_all_iff uuidChar_def)
  show "bcrypt_ok plainLibs"
    by (auto simp: bcrypt_ok_def plainLibs_def plainHash_def list_all_iff encChars_print)
  show "jwt_ok plainLibs"
    unfolding jwt_ok_def
  proof (intro conjI allI)
    show "\<exists>tok. signedString plainLibs secret c = Some tok \<and> tok \<noteq> [] \<and> list_all asciiPrint tok" for secret c
      using encChars_print by (auto simp: plainLibs_def plainSign_def list_all_iff asciiPrint_def byte_def split: option.split)
  qed (auto simp: plainLibs_def plainCheck_sign second_def)
  show "\<forall>s. list_all asciiPrint s \<longrightarrow> sql_text (lib_sql plainLibs) s"
    by (auto simp: plainLibs_def plainEnv_def plainSql_def asciiPrint_def byte_def list_all_iff)
  show "\<forall>b. parseForm plainLibs 0 b = None"
    by (simp add: plainLibs_def plainFields_def split: list.split)
qed

end
