(* ===== verification/Http_Properties.thy ===== *)
theory Http_Properties
  imports Http_Laws
begin

text \<open>
  The properties of the HTTP part: which token a request carries, what the protected routes do without
  one, accounts from registration to the first request, who reads what, and uploads.
\<close>

section \<open>The token of a request\<close>

definition lowerByte :: "char \<Rightarrow> char" where
  "lowerByte c = (if 65 \<le> byte c \<and> byte c \<le> 90 then chr (byte c + 32) else c)"

lemma decodeRune_small:
  assumes "decodeRune (c # cs) = (r, n)" "r < 0x80"
  shows "r = byte c \<and> n = 1"
proof -
  have "r = byte c"
    using assms by (auto simp: Let_def RuneError_def isCont_def inRange_def split: list.splits if_splits)
  then have "byte c < 0x80" using assms(2) by simp
  then show ?thesis using assms(1) decodeRune_ascii [of c cs] by simp
qed

lemma prefix_toLower:
  assumes "list_all (\<lambda>c. byte c < 0x80 \<and> (\<forall>r\<ge>0x80. lowerRune u r \<noteq> byte c)) p"
  shows "prefix p (toLower u s) \<longleftrightarrow> map lowerByte (take (length p) s) = p"
  using assms
proof (induction p arbitrary: s)
  case (Cons p0 p)
  show ?case
  proof (cases s)
    case s: (Cons c cs)
    obtain r n where d: "decodeRune (c # cs) = (r, n)" by (metis surj_pair)
    then have low: "toLower u s = encodeRune (lowerRune u r) @ toLower u (drop (n - 1) cs)"
      by (simp add: s toLower_def del: decodeRune.simps)
    show ?thesis
    proof (cases "r < 0x80")
      case True
      with decodeRune_small [OF d] have r: "r = byte c" "n = 1" "byte c < 0x80" by simp_all
      then have "lowerRune u r < 0x80" "chr (lowerRune u r) = lowerByte c"
        by (auto simp: lowerRune_def lowerByte_def)
      then have "toLower u s = lowerByte c # toLower u cs"
        unfolding low by (simp add: r(2) encodeRune_ascii)
      with Cons show ?thesis by (auto simp: s)
    next
      case False
      then have "\<not> byte c < 0x80" using d decodeRune_ascii by fastforce
      then have "lowerByte c \<noteq> p0" using Cons.prems by (auto simp: lowerByte_def)
      moreover have "\<not> prefix [p0] (encodeRune (lowerRune u r) @ t)" for t
      proof
        assume "prefix [p0] (encodeRune (lowerRune u r) @ t)"
        then have "p0 \<in> set (encodeRune (lowerRune u r))"
          by (cases "encodeRune (lowerRune u r)") simp_all
        with byte_in_encodeRune [of p0 "lowerRune u r"] Cons.prems False show False by simp
      qed
      then have "\<not> prefix (p0 # p) (toLower u s)" unfolding low by (metis append_Cons append_Nil prefix_def append.assoc)
      ultimately show ?thesis by (simp add: s)
    qed
  qed (simp add: toLower_def)
qed simp

lemma bearer_prefix:
  assumes "unicode_ok u"
  shows "prefix ''bearer '' (toLower u s) \<longleftrightarrow> map lowerByte (take 7 s) = ''bearer ''"
proof -
  have "\<forall>r\<ge>0x80. lowerRune u r \<noteq> k" if "k \<in> {98, 101, 97, 114, 32}" for k
  proof (intro allI impI notI)
    fix r assume "128 \<le> r" "lowerRune u r = k"
    with assms that show False unfolding unicode_ok_def by force
  qed
  then have "list_all (\<lambda>c. byte c < 0x80 \<and> (\<forall>r\<ge>0x80. lowerRune u r \<noteq> byte c)) ''bearer ''"
    by (simp add: byte_def)
  from prefix_toLower [OF this, of s] show ?thesis by (simp add: eval_nat_numeral)
qed

text \<open>Both copies of the function that finds a request's token agree and never panic: seven bytes that
  spell \<open>bearer\<close> and a blank, in any case, make the rest of the header the token, without the white
  space around it; otherwise it is the query's \<open>token\<close>.\<close>

theorem token_of_request:
  assumes "unicode_ok u"
  shows "extractToken u r = middlewareExtractToken u r \<and>
    extractToken u r = Some (if map lowerByte (take 7 (req_Authorization r)) = ''bearer ''
      then trimSpace (drop 7 (req_Authorization r)) else queryGet r ''token'')"
proof -
  have "7 \<le> length s" if "map lowerByte (take 7 s) = ''bearer ''" for s
    using arg_cong [OF that, of length] by simp
  then show ?thesis
    by (fastforce simp: extractToken_def middlewareExtractToken_def bearer_prefix [OF assms] Let_def)
qed

definition tokenRequest :: Request where
  "tokenRequest = \<lparr>req_Method = ''GET'', req_Path = [''ws''], req_Authorization = ''BeaReR  a.b.c '',
     req_Query = [(''token'', ''other'')], req_Body = []\<rparr>"

theorem token_of_request_witness: "extractToken ascii_unicode tokenRequest = Some ''a.b.c''"
proof -
  have "map lowerByte (take 7 (req_Authorization tokenRequest)) = ''bearer ''"
    "trimSpace (drop 7 (req_Authorization tokenRequest)) = ''a.b.c''" by code_simp+
  with conjunct2 [OF token_of_request [OF unicode_ok_ascii, of tokenRequest]] show ?thesis by (simp only: if_True simp_thms)
qed

section \<open>Routes behind a token\<close>

definition errorPayload :: "Payload \<Rightarrow> bool" where
  "errorPayload p \<longleftrightarrow> (case p of ErrorBody _ \<Rightarrow> True | PlainError _ \<Rightarrow> True | PlainText _ \<Rightarrow> True | NoBody \<Rightarrow> True | _ \<Rightarrow> False)"

lemma errorPayload_simps [simp]:
  "errorPayload (ErrorBody t)" "errorPayload (PlainError t)" "errorPayload (PlainText t)" "errorPayload NoBody"
  "\<not> errorPayload (TokenBody t u)" "\<not> errorPayload (UserBody u)" "\<not> errorPayload (UsersBody us)"
  "\<not> errorPayload (RoomsBody rs)" "\<not> errorPayload (RoomBody rr)" "\<not> errorPayload (MessagesBody ms)"
  "\<not> errorPayload (StatusBody t)" "\<not> errorPayload (URLBody t)" "\<not> errorPayload (FileBody t)"
  by (simp_all add: errorPayload_def)

lemma api_routes:
  assumes "(m, ep) \<in> set (routes (''api'' # p))"
  shows "protected ep \<or> ep = RegisterE \<and> p = [''auth'', ''register''] \<or> ep = LoginE \<and> p = [''auth'', ''login'']"
proof -
  consider "p = []" | x where "p = [x]" | x y where "p = [x, y]" | x y z where "p = [x, y, z]"
    | x y z w ws where "p = x # y # z # w # ws"
    by (metis remdups_adj.cases)
  then show ?thesis using assms by cases (auto split: if_splits)
qed

abbreviation matching :: "Request \<Rightarrow> (string option \<times> endpoint) list" where
  "matching r \<equiv> filter (\<lambda>(m, _). m = None \<or> m = Some (req_Method r)) (routes (req_Path r))"

lemma NewRouter_none:
  assumes "corsHandler L (CORSOrigins d) r = None" "matching r = []"
  shows "\<exists>resp. NewRouter L d ch r a = (Some resp, a) \<and> resp_Status resp \<in> {404, 405} \<and> errorPayload (resp_Body resp)"
proof (cases "routes (req_Path r)")
  case (Cons x xs)
  have "filter (\<lambda>(m, _). m = None \<or> m = Some (req_Method r)) (x # xs) = []" using assms(2) Cons by simp
  with assms(1) Cons show ?thesis by (simp add: NewRouter_def del: filter.simps)
qed (use assms in \<open>simp add: NewRouter_def\<close>)

lemma NewRouter_some:
  assumes "corsHandler L (CORSOrigins d) r = None" "matching r = (m, ep) # rs"
  shows "NewRouter L d ch r a =
    (if protected ep
     then case Require L (Secret d) (time_now ch) r (app_store a) of
            Authorized user \<Rightarrow> endpoints L d ch (WithUser [] user) r ep a
          | Rejected resp \<Rightarrow> (Some resp, a) | Panicked \<Rightarrow> (None, a)
     else endpoints L d ch [] r ep a)"
proof (cases "routes (req_Path r)")
  case (Cons x xs)
  have "filter (\<lambda>(m, _). m = None \<or> m = Some (req_Method r)) (x # xs) = (m, ep) # rs" using assms(2) Cons by simp
  with assms(1) Cons show ?thesis by (simp add: NewRouter_def del: filter.simps)
qed (use assms in simp)

lemma matching_mem: "matching r = (m, ep) # rs \<Longrightarrow> (m, ep) \<in> set (routes (req_Path r))"
  by (metis (no_types, lifting) filter_is_subset list.set_intros(1) subsetD)

lemma Require_rejects: "Require L secret now r st = Rejected resp \<Longrightarrow> resp_Status resp = 401 \<and> (\<exists>t. resp_Body resp = PlainError t)"
  by (auto simp: Require_def httpError_def split: option.splits sum.splits if_splits)

lemma Require_authorized:
  "Require L secret now r st = Authorized user \<longleftrightarrow> (\<exists>token claims uid. extractToken (lib_unicode L) r = Some token
     \<and> token \<noteq> [] \<and> ParseToken L now token secret = Some claims \<and> lib_parseUUID L (claims_UserID claims) = Some uid
     \<and> GetUserByID uid st = Inr user)"
  by (auto simp: Require_def split: option.splits sum.splits)

text \<open>C6. Under \<open>/api\<close>, registration and login apart, a request changes the state or gets an answer other
  than 401, 404 and 405 only if it carries a token that checks with the secret and names an account
  that is in the table of users at that moment.\<close>

theorem api_needs_token:
  assumes "req_Path r = ''api'' # p" "p \<notin> {[''auth'', ''register''], [''auth'', ''login'']}"
    and "corsHandler L (CORSOrigins d) r = None"
  shows "snd (NewRouter L d ch r a) = a \<and>
      pred_option (\<lambda>resp. resp_Status resp \<in> {401, 404, 405}) (fst (NewRouter L d ch r a))
    \<or> (\<exists>token claims user. extractToken (lib_unicode L) r = Some token
        \<and> ParseToken L (time_now ch) token (Secret d) = Some claims
        \<and> lib_parseUUID L (claims_UserID claims) = Some (user_ID user)
        \<and> user \<in> fst ` set (st_users (app_store a)))"
proof -
  show ?thesis
  proof (cases "matching r")
    case Nil
    from NewRouter_none [OF assms(3) Nil, of ch a] show ?thesis by auto
  next
    case (Cons x rs)
    then obtain m ep where m: "matching r = (m, ep) # rs" by (metis surj_pair)
    then have "protected ep" using api_routes matching_mem [OF m] assms(1,2) by fastforce
    then have run: "NewRouter L d ch r a = (case Require L (Secret d) (time_now ch) r (app_store a) of
            Authorized user \<Rightarrow> endpoints L d ch (WithUser [] user) r ep a
          | Rejected resp \<Rightarrow> (Some resp, a) | Panicked \<Rightarrow> (None, a))"
      by (simp add: NewRouter_some [OF assms(3) m])
    show ?thesis
    proof (cases "Require L (Secret d) (time_now ch) r (app_store a)")
      case (Authorized user)
      then obtain token claims where "extractToken (lib_unicode L) r = Some token"
        "ParseToken L (time_now ch) token (Secret d) = Some claims"
        "lib_parseUUID L (claims_UserID claims) = Some (user_ID user)" "user \<in> fst ` set (st_users (app_store a))"
        unfolding Require_authorized using GetUserByID_known by blast
      then show ?thesis by blast
    next
      case (Rejected resp)
      with run Require_rejects [OF Rejected] show ?thesis by simp
    qed (use run in simp)
  qed
qed

section \<open>Refused requests\<close>

text \<open>What a handler may answer: a status below 400 with a result, or one from 400 with an error and the state
  as it was, but for the exceptions \<open>exc\<close>.\<close>

definition answers :: "(Response \<Rightarrow> App \<Rightarrow> bool) \<Rightarrow> App \<Rightarrow> Response \<times> App \<Rightarrow> bool" where
  "answers exc a x \<longleftrightarrow> (errorPayload (resp_Body (fst x)) \<longleftrightarrow> 400 \<le> resp_Status (fst x))
     \<and> (400 \<le> resp_Status (fst x) \<longrightarrow> snd x = a \<or> exc (fst x) (snd x))"

lemma answers_simps [simp]:
  "answers exc a (respondError st t, a') \<longleftrightarrow> 400 \<le> st \<and> (a' = a \<or> exc (respondError st t) a')"
  "st < 400 \<Longrightarrow> \<not> errorPayload p \<Longrightarrow> answers exc a (respondJSON st p, a')"
  by (auto simp: answers_def respondError_def respondJSON_def)

text \<open>The two exceptions: an upload that could be copied only in part leaves that part behind, and a registration
  whose token could not be signed leaves the account.\<close>

definition halfDone :: "RouterDeps \<Rightarrow> chance \<Rightarrow> App \<Rightarrow> Response \<Rightarrow> App \<Rightarrow> bool" where
  "halfDone d ch a resp a' \<longleftrightarrow>
     (\<exists>n name content. copied ch = Some n \<and> resp = respondError 500 ''failed to write file''
        \<and> a' = a\<lparr>app_files := AList.update (UploadDir d, name) (take n content) (app_files a)\<rparr>)
   \<or> (\<exists>user hash. resp = respondError 500 ''could not sign token''
        \<and> a' = setStore ((app_store a)\<lparr>st_users := st_users (app_store a) @ [(user, hash)]\<rparr>) a)"

lemma failed_ops:
  "CreateUser q new now e n h av st = (Inl x, st') \<Longrightarrow> st' = st"
  "CreateRoom q new now n p u st = (Inl x, st') \<Longrightarrow> st' = st"
  "AddRoomMember q now r u role st = (Some x, st') \<Longrightarrow> st' = st"
  "RemoveRoomMember r u st = (Some x, st') \<Longrightarrow> st' = st"
  by (auto simp: CreateUser_def CreateRoom_def AddRoomMember_def RemoveRoomMember_def Let_def split: if_splits)

lemma CreateUser_appends:
  "CreateUser q new now e n h av st = (Inr user, st') \<Longrightarrow> st' = st\<lparr>st_users := st_users st @ [(user, h)]\<rparr>"
  by (auto simp: CreateUser_def Let_def split: if_splits)

lemma Register_answers: "answers (halfDone d ch a) a (Register L d ch r a)"
proof -
  have "halfDone d ch a (respondError 500 ''could not sign token'') (setStore st' a)"
    if "CreateUser q new now e n h av (app_store a) = (Inr user, st')" for q new now e n h av user st'
    using CreateUser_appends [OF that] unfolding halfDone_def by blast
  then show ?thesis
    by (auto simp: Register_def dest: failed_ops split: option.split sum.split prod.split)
qed

lemma Upload_answers: "answers (halfDone d ch a) a (Upload L d ch ctx r a)"
  by (auto simp: Upload_def Let_def halfDone_def split: option.split list.split)

lemma handlers_answer:
  "answers exc a (Login L d ch r a, a)" "answers exc a (Me ctx, a)" "answers exc a (Search L r a, a)"
  "answers exc a (rooms_List ctx a, a)" "answers exc a (Create L ch ctx r a)"
  "answers exc a (Join L ch ctx roomId a)" "answers exc a (Leave L ctx roomId a)"
  "answers exc a (RoomHistory L ch ctx roomId r a, a)" "answers exc a (DMHistory L ch ctx roomId r a, a)"
  subgoal by (auto simp: Login_def split: option.split sum.split prod.split)
  subgoal by (auto simp: Me_def split: option.split)
  subgoal by (auto simp: Search_def Let_def split: sum.split)
  subgoal by (auto simp: rooms_List_def split: option.split sum.split)
  subgoal by (auto simp: Create_def Let_def dest!: failed_ops split: option.split sum.split prod.split)
  subgoal by (auto simp: Join_def dest!: failed_ops split: option.split prod.split)
  subgoal by (auto simp: Leave_def dest!: failed_ops split: option.split prod.split)
  subgoal by (auto simp: RoomHistory_def Let_def split: option.split sum.split bool.split)
  subgoal by (auto simp: DMHistory_def Let_def split: option.split sum.split)
  done

lemma api_endpoints_answer:
  assumes "(m, ep) \<in> set (routes (''api'' # p))"
  shows "\<exists>resp. fst (endpoints L d ch ctx r ep a) = Some resp
    \<and> answers (halfDone d ch a) a (resp, snd (endpoints L d ch ctx r ep a))"
proof -
  have w: "answers exc a x \<Longrightarrow> \<exists>resp. fst (case x of (y, a) \<Rightarrow> (Some y, a)) = Some resp
      \<and> answers exc a (resp, snd (case x of (y, a) \<Rightarrow> (Some y, a)))" for exc and x :: "Response \<times> App"
    by (cases x) simp
  have "ep \<noteq> HealthE" "ep \<noteq> WsE" "ep \<noteq> FilesE" using api_routes [OF assms] by auto
  then show ?thesis
    by (cases ep) (auto simp: endpoints_def Let_def intro!: w handlers_answer Register_answers Upload_answers)
qed

text \<open>C15. Every answer under \<open>/api\<close> is of one of two kinds: a status below 400 with the result, or one from
  400 with an error; and a request that is refused leaves the accounts, rooms, memberships, messages,
  files and connections as they were, with two exceptions, both answered 500: an upload whose file
  could be copied only in part leaves that part in the upload directory, and a registration whose
  token could not be signed leaves the new account.\<close>

theorem refused_requests_change_nothing:
  assumes "req_Path r = ''api'' # p" "corsHandler L (CORSOrigins d) r = None"
    and run: "NewRouter L d ch r a = (Some resp, a')"
  shows "(400 \<le> resp_Status resp \<longleftrightarrow> errorPayload (resp_Body resp))
    \<and> (400 \<le> resp_Status resp \<longrightarrow> a' = a \<or> halfDone d ch a resp a')"
proof (cases "matching r")
  case Nil
  from NewRouter_none [OF assms(2) Nil, of ch a] run show ?thesis by auto
next
  case (Cons x rs)
  then obtain m ep where m: "matching r = (m, ep) # rs" by (metis surj_pair)
  note ep = matching_mem [OF m, unfolded assms(1)] and run' = run [unfolded NewRouter_some [OF assms(2) m]]
  have done': ?thesis if "endpoints L d ch ctx r ep a = (Some resp, a')" for ctx
    using api_endpoints_answer [OF ep, of L d ch ctx r a] that by (auto simp: answers_def)
  show ?thesis
  proof (cases "protected ep")
    case True
    with run' show ?thesis
      by (cases "Require L (Secret d) (time_now ch) r (app_store a)") (auto dest: done' Require_rejects)
  qed (use run' done' in auto)
qed

section \<open>A sample server\<close>

definition jsonStrings :: "(string \<times> string) list \<Rightarrow> json" where
  "jsonStrings kvs = JObject (map (\<lambda>(k, v). (k, JString v)) kvs)"

definition registerBody :: "string \<Rightarrow> string \<Rightarrow> string \<Rightarrow> string" where
  "registerBody e u p = encodeJSON (jsonStrings [(''email'', e), (''username'', u), (''password'', p)])"

definition sampleDeps :: RouterDeps where
  "sampleDeps = \<lparr>Secret = ''k'', TokenTTL = 1000, UploadDir = ''up'', MaxUpload = 1, CORSOrigins = []\<rparr>"

definition sampleChance :: "int \<Rightarrow> chance" where
  "sampleChance now = \<lparr>new_ID = 77, db_now = now, time_now = now, salt = [], mkdir_ok = True, create_ok = True,
     copied = None, upgrade_ok = True\<rparr>"

definition sampleApp :: App where
  "sampleApp = \<lparr>app_hub = sampleHub, app_files = []\<rparr>"

definition tokenOf :: "string \<Rightarrow> int \<Rightarrow> string" where
  "tokenOf uid t = the (plainSign ''k'' \<lparr>claims_UserID = uid, claims_Username = [], ExpiresAt = Some t,
     IssuedAt = None, Subject = []\<rparr>)"

definition request :: "string \<Rightarrow> string list \<Rightarrow> string \<Rightarrow> (string \<times> string) list \<Rightarrow> string \<Rightarrow> Request" where
  "request m path auth q b = \<lparr>req_Method = m, req_Path = path, req_Authorization = auth, req_Query = q, req_Body = b\<rparr>"

lemma sample_facts:
  "corsHandler plainLibs os r = None" "lib_unicode plainLibs = ascii_unicode" "lib_ws plainLibs = plainEnv"
  "req_Path (request m p au q b) = p" "\<forall>secret c. signedString plainLibs secret c \<noteq> None"
  "hub_store (app_hub sampleApp) = hub_store sampleHub" "time_now (sampleChance n) = n" "copied (sampleChance n) = None"
  by (simp_all add: plainLibs_def request_def plainSign_def sampleApp_def sampleChance_def)

theorem api_needs_token_witness:
  "NewRouter plainLibs sampleDeps (sampleChance 50) (request ''POST'' [''api'', ''rooms''] [] [] ''den'') sampleApp
   = (Some (httpError ''missing token'' 401), sampleApp)"
proof -
  let ?r = "request ''POST'' [''api'', ''rooms''] [] [] ''den''"
  have none: "extractToken ascii_unicode ?r = Some []" "ParseToken plainLibs 50 [] (Secret sampleDeps) = None" by code_simp+
  have "fst (NewRouter plainLibs sampleDeps (sampleChance 50) ?r sampleApp) = Some (httpError ''missing token'' 401)"
    by code_simp
  moreover have "snd (NewRouter plainLibs sampleDeps (sampleChance 50) ?r sampleApp) = sampleApp"
    using api_needs_token [of ?r "[''rooms'']" plainLibs sampleDeps "sampleChance 50" sampleApp] none
    by (simp add: sample_facts)
  ultimately show ?thesis by (metis prod.collapse)
qed

theorem refused_requests_change_nothing_witness:
  "NewRouter plainLibs sampleDeps (sampleChance 50)
     (request ''GET'' [''api'', ''users''] (''Bearer '' @ tokenOf ''1'' 100) [(''limit'', ''-1'')] []) sampleApp
   = (Some (respondError 500 ''failed to load users''), sampleApp)"
proof -
  let ?r = "request ''GET'' [''api'', ''users''] (''Bearer '' @ tokenOf ''1'' 100) [(''limit'', ''-1'')] []"
  obtain resp a' where run: "NewRouter plainLibs sampleDeps (sampleChance 50) ?r sampleApp = (resp, a')" by (metis surj_pair)
  have "fst (NewRouter plainLibs sampleDeps (sampleChance 50) ?r sampleApp) = Some (respondError 500 ''failed to load users'')"
    by code_simp
  with run have resp: "resp = Some (respondError 500 ''failed to load users'')" by simp
  from refused_requests_change_nothing [OF sample_facts(4,1) run [unfolded resp]] have "a' = sampleApp"
    by (simp add: halfDone_def respondError_def respondJSON_def)
  then show ?thesis using run resp by simp
qed

end
