(* ===== verification/Http_Accounts.thy ===== *)
theory Http_Accounts
  imports Http_Properties
begin

text \<open>
  Accounts from registration to the first request: what \<open>Register\<close> answers to which input, and the round
  trip through \<open>Login\<close> and \<open>Require\<close>.
\<close>

section \<open>Printable strings\<close>

lemma asciiPrint_space: "asciiPrint c \<Longrightarrow> byte c < 0x80 \<and> \<not> isSpace (byte c)"
  by (auto simp: asciiPrint_def isSpace_def)

lemma trimSpace_print:
  assumes "list_all asciiPrint s"
  shows "trimSpace s = s"
proof (cases s)
  case (Cons c cs)
  have "trimLeft s = s"
    using assms asciiPrint_space [of c] unfolding trimLeft_fix_iff by (simp add: Cons decodeRune_ascii del: decodeRune.simps)
  moreover have "trimRight s = s"
  proof -
    obtain d ds where rev: "rev s = d # ds" using Cons by (cases "rev s") simp_all
    then have "d \<in> set s" by (metis list.set_intros(1) set_rev)
    then have "byte d < 0x80 \<and> \<not> isSpace (byte d)" using assms asciiPrint_space by (auto simp: list_all_iff)
    then show ?thesis using Cons rev by (subst trimRight.simps) (simp add: decodeLastRune_def)
  qed
  ultimately show ?thesis by (simp add: trimSpace_def)
qed simp

lemma bearer_token:
  assumes "unicode_ok u" "req_Authorization r = ''Bearer '' @ tok" "list_all asciiPrint tok"
  shows "extractToken u r = Some tok"
proof -
  have "prefix ''bearer '' (toLower u (''Bearer '' @ tok))"
  proof -
    have "take 7 (''Bearer '' @ tok) = ''Bearer ''" by simp
    moreover have "map lowerByte ''Bearer '' = ''bearer ''" by code_simp
    ultimately show ?thesis unfolding bearer_prefix [OF assms(1)] by (simp only:)
  qed
  then show ?thesis
    using assms(2) trimSpace_print [OF assms(3)] by (simp add: extractToken_def Let_def)
qed

section \<open>Registration\<close>

definition freshAccount :: "libs \<Rightarrow> chance \<Rightarrow> registerRequest \<Rightarrow> Store \<Rightarrow> bool" where
  "freshAccount L ch req st \<longleftrightarrow> st_up st \<and> \<not> isUser st (new_ID ch)
     \<and> list_all (sql_text (lib_sql L)) (map trimSpace [reg_Email req, reg_Username req, reg_Avatar req])
     \<and> trimSpace (reg_Email req) \<notin> (Email \<circ> fst) ` set (st_users st)
     \<and> trimSpace (reg_Username req) \<notin> (Username \<circ> fst) ` set (st_users st)"

definition newAccount :: "chance \<Rightarrow> registerRequest \<Rightarrow> User" where
  "newAccount ch req = \<lparr>user_ID = new_ID ch, Email = trimSpace (reg_Email req),
     Username = trimSpace (reg_Username req), AvatarURL = trimSpace (reg_Avatar req), user_CreatedAt = db_now ch\<rparr>"

lemma NewToken_ok:
  assumes "libs_ok L"
  obtains tok where "NewToken L now u name secret ttl = Some tok" "tok \<noteq> []" "list_all asciiPrint tok"
    "\<And>now'. now' < newNumericDate L (now + ttl) \<Longrightarrow> \<exists>c. ParseToken L now' tok secret = Some c \<and> claims_UserID c = formatUUID L u"
    "\<And>now'. \<not> now' < newNumericDate L (now + ttl) \<Longrightarrow> ParseToken L now' tok secret = None"
proof -
  let ?c = "\<lparr>claims_UserID = formatUUID L u, claims_Username = name, ExpiresAt = Some (newNumericDate L (now + ttl)),
    IssuedAt = Some (newNumericDate L now), Subject = formatUUID L u\<rparr>"
  have jwt: "jwt_ok L" using assms by (rule libs_okD)
  then obtain tok where tok: "signedString L secret ?c = Some tok" "tok \<noteq> []" "list_all asciiPrint tok"
    unfolding jwt_ok_def by blast
  have parse: "if now' < newNumericDate L (now + ttl)
      then \<exists>c. parseWithClaims L now' secret tok = Some (c, True) \<and> claims_UserID c = formatUUID L u
      else parseWithClaims L now' secret tok = None" for now'
    using jwt tok(1) unfolding jwt_ok_def by (metis Claims.select_convs(1,3))
  show ?thesis
  proof (rule that [OF _ tok(2,3)])
    show "NewToken L now u name secret ttl = Some tok" using tok(1) by (simp add: NewToken_def Let_def)
    show "\<exists>c. ParseToken L now' tok secret = Some c \<and> claims_UserID c = formatUUID L u"
      if "now' < newNumericDate L (now + ttl)" for now'
      using parse [of now'] that by (auto simp: ParseToken_def)
    show "ParseToken L now' tok secret = None" if "\<not> now' < newNumericDate L (now + ttl)" for now'
      using parse [of now'] that by (simp add: ParseToken_def)
  qed
qed

lemma CreateUser_fresh:
  assumes "freshAccount L ch req st" "sql_text (lib_sql L) hash"
  shows "CreateUser (lib_sql L) (new_ID ch) (db_now ch) (trimSpace (reg_Email req)) (trimSpace (reg_Username req)) hash
      (trimSpace (reg_Avatar req)) st = (Inr (newAccount ch req), st\<lparr>st_users := st_users st @ [(newAccount ch req, hash)]\<rparr>)"
  using assms by (simp add: CreateUser_def freshAccount_def newAccount_def Let_def)

lemma CreateUser_stale:
  assumes "\<not> freshAccount L ch req st" "sql_text (lib_sql L) hash"
  shows "CreateUser (lib_sql L) (new_ID ch) (db_now ch) (trimSpace (reg_Email req)) (trimSpace (reg_Username req)) hash
      (trimSpace (reg_Avatar req)) st = (Inl DbError, st)"
  using assms by (auto simp: CreateUser_def freshAccount_def Let_def)

lemma bcrypt_hash:
  assumes "libs_ok L"
  shows "if length pw \<le> 72
    then \<exists>hash. generateFromPassword L s pw = Some hash \<and> compareHashAndPassword L hash pw \<and> sql_text (lib_sql L) hash
    else generateFromPassword L s pw = None"
  using libs_okD(4,5) [OF assms] unfolding bcrypt_ok_def by (metis (full_types))

lemma Register_created:
  assumes "libs_ok L" "decodeRegister (req_Body r) = Some req" "Register L d ch r a = (resp, a')" "resp_Status resp = 201"
  obtains hash where "compareHashAndPassword L hash (reg_Password req)" "freshAccount L ch req (app_store a)"
    "app_store a' = (app_store a)\<lparr>st_users := st_users (app_store a) @ [(newAccount ch req, hash)]\<rparr>"
proof -
  note status = assms(3,4) and simps = Register_def assms(2) respondError_def respondJSON_def
  have long: "\<not> (length (reg_Password req) < 6 \<or> length (reg_Username req) < 3 \<or> length (reg_Email req) < 5)"
    using status by (cases "length (reg_Password req) < 6 \<or> length (reg_Username req) < 3 \<or> length (reg_Email req) < 5")
      (auto simp: simps)
  obtain hash where h: "generateFromPassword L (salt ch) (reg_Password req) = Some hash"
    using status long by (cases "generateFromPassword L (salt ch) (reg_Password req)") (auto simp: simps)
  obtain x st where c: "CreateUser (lib_sql L) (new_ID ch) (db_now ch) (trimSpace (reg_Email req)) (trimSpace (reg_Username req)) hash
      (trimSpace (reg_Avatar req)) (app_store a) = (x, st)" by (metis surj_pair)
  obtain user where "x = Inr user" using status long by (cases x) (auto simp: simps h c)
  note c = c [unfolded this]
  have a': "a' = setStore st a" using status long by (auto simp: simps h c split: option.splits)
  have hash: "compareHashAndPassword L hash (reg_Password req)" "sql_text (lib_sql L) hash"
    using h bcrypt_hash [OF assms(1), of "reg_Password req" "salt ch"] by (auto split: if_splits)
  have fresh: "freshAccount L ch req (app_store a)" using CreateUser_stale [OF _ hash(2)] c by fastforce
  have "app_store a' = (app_store a)\<lparr>st_users := st_users (app_store a) @ [(newAccount ch req, hash)]\<rparr>"
    using c a' CreateUser_fresh [OF fresh hash(2)] by (auto simp: setStore_def)
  with that hash(1) fresh show ?thesis .
qed

text \<open>C31. Registration answers each input with one status: 400 for a body that does not decode and for a
  password, name or address below its least length, which is measured before the blanks around it are
  dropped; 500 for a password above 72 bytes; 409 when the database cannot take the account, also
  because it is down; and 201 otherwise, with the new row, whose name may be empty.\<close>

theorem registration_outcome:
  assumes "libs_ok L"
  shows "resp_Status (fst (Register L d ch r a)) =
    (case decodeRegister (req_Body r) of
       None \<Rightarrow> 400
     | Some req \<Rightarrow>
         if length (reg_Password req) < 6 \<or> length (reg_Username req) < 3 \<or> length (reg_Email req) < 5 then 400
         else if 72 < length (reg_Password req) then 500
         else if freshAccount L ch req (app_store a) then 201 else 409)"
proof (cases "decodeRegister (req_Body r)")
  case (Some req)
  note bc = bcrypt_hash [OF assms, of "reg_Password req" "salt ch"]
  obtain tok where tok: "NewToken L (time_now ch) (new_ID ch) (trimSpace (reg_Username req)) (Secret d)
      (timeSecondsToDuration (TokenTTL d)) = Some tok" using NewToken_ok [OF assms] by metis
  show ?thesis
  proof (cases "length (reg_Password req) \<le> 72")
    case True
    with bc obtain hash where h: "generateFromPassword L (salt ch) (reg_Password req) = Some hash" "sql_text (lib_sql L) hash"
      by auto
    show ?thesis
      using CreateUser_fresh [OF _ h(2)] CreateUser_stale [OF _ h(2)] True tok
      by (cases "freshAccount L ch req (app_store a)")
        (simp_all add: Register_def Some h newAccount_def respondError_def respondJSON_def)
  qed (use bc in \<open>simp add: Register_def Some respondError_def respondJSON_def\<close>)
qed (simp add: Register_def respondError_def respondJSON_def)

theorem registration_outcome_witness:
  "resp_Status (fst (Register plainLibs sampleDeps (sampleChance 50) (request ''POST'' [] [] [] (registerBody ''c@x.y'' ''   '' ''secret'')) sampleApp)) = 201
   \<and> resp_Status (fst (Register plainLibs sampleDeps (sampleChance 50) (request ''POST'' [] [] [] (registerBody ''c@x.y'' ''cat'' ''short'')) sampleApp)) = 400"
proof -
  have "decodeRegister (req_Body (request ''POST'' [] [] [] (registerBody ''c@x.y'' ''   '' ''secret''))) =
      Some \<lparr>reg_Email = ''c@x.y'', reg_Username = ''   '', reg_Password = ''secret'', reg_Avatar = []\<rparr>"
    "decodeRegister (req_Body (request ''POST'' [] [] [] (registerBody ''c@x.y'' ''cat'' ''short''))) =
      Some \<lparr>reg_Email = ''c@x.y'', reg_Username = ''cat'', reg_Password = ''short'', reg_Avatar = []\<rparr>"
    "freshAccount plainLibs (sampleChance 50) \<lparr>reg_Email = ''c@x.y'', reg_Username = ''   '', reg_Password = ''secret'',
      reg_Avatar = []\<rparr> (app_store sampleApp)"
    by code_simp+
  then show ?thesis by (simp add: registration_outcome [OF plainLibs_ok])
qed

section \<open>The round trip\<close>

text \<open>C4. An account just registered, under an address nobody has in any case, can log in with the same
  password and the address in any case, and the token it gets is the account's until it expires, and
  nobody's from then on.\<close>

theorem register_login_require:
  assumes ok: "libs_ok L"
    and reg: "decodeRegister (req_Body r) = Some req" "Register L d ch r a = (resp, a')" "resp_Status resp = 201"
    and new: "GetUserByEmail (lib_sql L) (trimSpace (reg_Email req)) (app_store a) = Inl ErrNotFound"
    and login: "decodeLogin (req_Body r2) = Some \<lparr>log_Email = e, log_Password = reg_Password req\<rparr>"
      "sql_text (lib_sql L) (trimSpace e)" "sql_lower (lib_sql L) (trimSpace e) = sql_lower (lib_sql L) (trimSpace (reg_Email req))"
  shows "\<exists>tok. Login L d ch2 r2 a' = respondJSON 200 (TokenBody tok (newAccount ch req))
    \<and> (\<forall>r3 now. req_Authorization r3 = ''Bearer '' @ tok \<longrightarrow>
         Require L (Secret d) now r3 (app_store a') =
           (if now < newNumericDate L (time_now ch2 + timeSecondsToDuration (TokenTTL d))
            then Authorized (newAccount ch req) else Rejected (httpError ''invalid token'' 401)))"
proof -
  from Register_created [OF ok reg] obtain hash where h: "compareHashAndPassword L hash (reg_Password req)"
    and fresh: "freshAccount L ch req (app_store a)"
    and a': "app_store a' = (app_store a)\<lparr>st_users := st_users (app_store a) @ [(newAccount ch req, hash)]\<rparr>" .
  let ?user = "newAccount ch req"
  have found: "GetUserByEmail (lib_sql L) (trimSpace e) (app_store a') = Inr (?user, hash)"
    using new login(2,3) fresh
    by (auto simp: GetUserByEmail_def a' firstRow_def newAccount_def freshAccount_def filter_empty_conv split: if_splits list.splits)
  have known: "GetUserByID (new_ID ch) (app_store a') = Inr ?user"
  proof -
    have "filter (\<lambda>u. user_ID u = new_ID ch) (map fst (st_users (app_store a))) = []"
      using fresh unfolding freshAccount_def isUser_def by (force simp: filter_empty_conv)
    then show ?thesis using fresh by (simp add: GetUserByID_def a' firstRow_def newAccount_def freshAccount_def)
  qed
  obtain tok where tok: "NewToken L (time_now ch2) (new_ID ch) (trimSpace (reg_Username req)) (Secret d)
      (timeSecondsToDuration (TokenTTL d)) = Some tok" "tok \<noteq> []" "list_all asciiPrint tok"
    and valid: "\<And>now. now < newNumericDate L (time_now ch2 + timeSecondsToDuration (TokenTTL d)) \<Longrightarrow>
        \<exists>c. ParseToken L now tok (Secret d) = Some c \<and> claims_UserID c = formatUUID L (new_ID ch)"
      "\<And>now. \<not> now < newNumericDate L (time_now ch2 + timeSecondsToDuration (TokenTTL d)) \<Longrightarrow>
        ParseToken L now tok (Secret d) = None"
    using NewToken_ok [OF ok, of "time_now ch2" "new_ID ch" "trimSpace (reg_Username req)" "Secret d"
        "timeSecondsToDuration (TokenTTL d)"] by metis
  have "Login L d ch2 r2 a' = respondJSON 200 (TokenBody tok ?user)"
    using tok(1) by (simp add: Login_def login(1) found h newAccount_def)
  moreover have "Require L (Secret d) now r3 (app_store a') =
      (if now < newNumericDate L (time_now ch2 + timeSecondsToDuration (TokenTTL d))
       then Authorized ?user else Rejected (httpError ''invalid token'' 401))"
    if "req_Authorization r3 = ''Bearer '' @ tok" for r3 now
  proof -
    have "extractToken (lib_unicode L) r3 = Some tok" by (rule bearer_token [OF libs_okD(1) [OF ok] that tok(3)])
    moreover have "lib_parseUUID L (formatUUID L (new_ID ch)) = Some (new_ID ch)"
      using libs_okD(2) [OF ok] by (simp add: uuid_ok_def)
    ultimately show ?thesis
      using valid(1) [of now] valid(2) [of now] tok(2) known by (auto simp: Require_def)
  qed
  ultimately show ?thesis by blast
qed

definition catRequest :: registerRequest where
  "catRequest = \<lparr>reg_Email = ''c@x.y'', reg_Username = ''cat'', reg_Password = ''secret'', reg_Avatar = []\<rparr>"

theorem register_login_require_witness:
  "\<exists>a' tok. snd (Register plainLibs sampleDeps (sampleChance 50) (request ''POST'' [] [] [] (registerBody ''c@x.y'' ''cat'' ''secret'')) sampleApp) = a'
    \<and> Login plainLibs sampleDeps (sampleChance 60) (request ''POST'' [] [] [] (encodeJSON (jsonStrings [(''email'', ''C@X.Y''), (''password'', ''secret'')]))) a' =
        respondJSON 200 (TokenBody tok (newAccount (sampleChance 50) catRequest))
    \<and> Require plainLibs ''k'' 1059 (request ''GET'' [] (''Bearer '' @ tok) [] []) (app_store a') =
        Authorized (newAccount (sampleChance 50) catRequest)
    \<and> Require plainLibs ''k'' 1060 (request ''GET'' [] (''Bearer '' @ tok) [] []) (app_store a') =
        Rejected (httpError ''invalid token'' 401)"
proof -
  let ?r = "request ''POST'' [] [] [] (registerBody ''c@x.y'' ''cat'' ''secret'')" and ?r2 = "request ''POST'' [] [] [] (encodeJSON (jsonStrings [(''email'', ''C@X.Y''), (''password'', ''secret'')]))"
  obtain resp a' where run: "Register plainLibs sampleDeps (sampleChance 50) ?r sampleApp = (resp, a')" by (metis surj_pair)
  have "decodeRegister (req_Body ?r) = Some catRequest"
    "resp_Status (fst (Register plainLibs sampleDeps (sampleChance 50) ?r sampleApp)) = 201"
    "GetUserByEmail (lib_sql plainLibs) (trimSpace (reg_Email catRequest)) (app_store sampleApp) = Inl ErrNotFound"
    "decodeLogin (req_Body ?r2) = Some \<lparr>log_Email = ''C@X.Y'', log_Password = reg_Password catRequest\<rparr>"
    "sql_text (lib_sql plainLibs) (trimSpace ''C@X.Y'')"
    "sql_lower (lib_sql plainLibs) (trimSpace ''C@X.Y'') = sql_lower (lib_sql plainLibs) (trimSpace (reg_Email catRequest))"
    by code_simp+
  note facts = this(1) run this(2) [unfolded run fst_conv] this(3-6)
  have "newNumericDate plainLibs (time_now (sampleChance 60) + timeSecondsToDuration (TokenTTL sampleDeps)) = 1060"
    by (simp add: plainLibs_def sampleChance_def timeSecondsToDuration_def sampleDeps_def)
  with register_login_require [OF plainLibs_ok facts, of "sampleChance 60"] run show ?thesis
    by (fastforce simp: request_def sampleDeps_def)
qed

end
