(* ===== verification/Http_Data.thy ===== *)
theory Http_Data
  imports Http_Properties
begin

text \<open>
  Who reads a room's history, what leaving a room over HTTP does and does not, and uploads.
\<close>

section \<open>Room histories\<close>

lemma ListRoomMessages_sound:
  assumes "ListRoomMessages roomID limit before st = Inr ms"
  shows "list_all (\<lambda>m. msg_RoomID m = Some roomID \<and> msg_CreatedAt m < before) ms
    \<and> int (length ms) \<le> (if limit \<le> 0 then 50 else limit)"
proof -
  define log where "log = orderBy newestFirst (joinSender st
    (filter (\<lambda>m. msg_RoomID m = Some roomID \<and> msg_CreatedAt m < before) (st_messages st)))"
  have ms: "ms = take (nat (if limit \<le> 0 then 50 else limit)) log"
    using assms unfolding log_def by (simp add: ListRoomMessages_def Let_def limitRows_def split: if_splits)
  have "\<forall>m\<in>set log. msg_RoomID m = Some roomID \<and> msg_CreatedAt m < before"
    by (auto simp: log_def joinSender_def)
  then have "list_all (\<lambda>m. msg_RoomID m = Some roomID \<and> msg_CreatedAt m < before) ms"
    unfolding ms list_all_iff using set_take_subset by fastforce
  moreover have "int (length ms) \<le> (if limit \<le> 0 then 50 else limit)" by (cases "limit \<le> 0") (simp_all add: ms min_def le_nat_iff)
  ultimately show ?thesis ..
qed

text \<open>C17. The history of a room is given only to a request whose token's account is a member of the room at
  that moment; it holds messages of this room only, from before the time asked for, and no more than
  asked for, or 50.\<close>

theorem history_needs_membership:
  assumes "req_Path r = [''api'', ''rooms'', roomId, ''messages'']" "req_Method r = ''GET''"
    and "corsHandler L (CORSOrigins d) r = None"
    and run: "NewRouter L d ch r a = (Some resp, a')" "resp_Status resp = 200"
  shows "\<exists>user roomID ms. Require L (Secret d) (time_now ch) r (app_store a) = Authorized user
    \<and> lib_parseUUID L roomId = Some roomID \<and> isMember (app_store a) roomID (user_ID user)
    \<and> resp_Body resp = MessagesBody (slice ms)
    \<and> list_all (\<lambda>m. msg_RoomID m = Some roomID
        \<and> msg_CreatedAt m < parseTimeParam (time_now ch) (queryGet r ''before'')) ms
    \<and> int (length ms) \<le> (if limitParam 50 r \<le> 0 then 50 else limitParam 50 r) \<and> a' = a"
proof -
  have m: "matching r = [(Some ''GET'', RoomHistoryE roomId)]" using assms(1,2) by simp
  note route = run(1) [unfolded NewRouter_some [OF assms(3) m]]
  obtain user where user: "Require L (Secret d) (time_now ch) r (app_store a) = Authorized user"
    using route run(2) Require_rejects by (cases "Require L (Secret d) (time_now ch) r (app_store a)") fastforce+
  then have resp: "RoomHistory L ch (WithUser [] user) roomId r a = resp" "a' = a"
    using route by (auto simp: endpoints_def Let_def)
  note ok = resp(1) [symmetric, unfolded RoomHistory_def respondError_def respondJSON_def]
  obtain roomID where roomID: "lib_parseUUID L roomId = Some roomID"
    using ok run(2) by (cases "lib_parseUUID L roomId") auto
  have "IsRoomMember roomID (user_ID user) (app_store a) = Inr True"
    using ok run(2) roomID by (auto split: sum.splits bool.splits)
  moreover obtain ms where "ListRoomMessages roomID (limitParam 50 r) (parseTimeParam (time_now ch) (queryGet r ''before''))
      (app_store a) = Inr ms" "resp_Body resp = MessagesBody (slice ms)"
    using ok run(2) roomID calculation by (auto simp: Let_def split: sum.splits)
  ultimately show ?thesis
    using user roomID resp(2) ListRoomMessages_sound by (fastforce simp: IsRoomMember_def split: if_splits)
qed

section \<open>Leaving over HTTP\<close>

text \<open>C37. Leaving a room over HTTP ends the membership, and nothing else: a WebSocket connection that has
  joined the room stays subscribed, and the next event for the room still goes to it.\<close>

theorem http_leave_keeps_subscription:
  assumes "hub_inv (app_hub a)" "lib_parseUUID L roomId = Some r"
    and run: "Leave L (WithUser ctx user) roomId a = (resp, a')" "resp_Status resp = 200"
    and c: "conn_reading (connAt (app_hub a) c)" "r \<in> set (conn_rooms (connAt (app_hub a) c))"
      "length (conn_send (connAt (app_hub a) c)) < 64"
    and q: "hub_broadcast (app_hub a) = m # ms" "out_roomID m = Some r" "out_exclude m \<noteq> Some c"
  shows "\<not> isMember (app_store a') r (user_ID user) \<and> subscriptions (app_hub a') = subscriptions (app_hub a)
    \<and> conn_send (connAt (deliver (app_hub a')) c) = conn_send (connAt (app_hub a) c) @ [out_event m]"
proof -
  obtain x st where rm: "RemoveRoomMember r (user_ID user) (app_store a) = (x, st)" by (metis surj_pair)
  have a': "a' = setStore st a" "x = None"
    using run rm by (auto simp: Leave_def assms(2) respondError_def respondJSON_def split: option.splits)
  have "\<not> isMember st r (user_ID user)"
    using rm a'(2) by (auto simp: RemoveRoomMember_def isMember_def split: if_splits)
  moreover have "hub_inv (app_hub a')" "hub_broadcast (app_hub a') = m # ms" "connAt (app_hub a') = connAt (app_hub a)"
    using assms(1) q(1) by (simp_all add: a'(1) setStore_def)
  ultimately show ?thesis
    using c q deliver_all [of "app_hub a'" m ms]
    by (simp add: enqueue_def sendBuffer_def a'(1) setStore_def subscriptions_def userOf_def)
qed

section \<open>Uploads\<close>

lemma maxUploadBytes_sint: "maxUploadBytes (word_of_int m) = word_of_int (m * 1048576)"
  by (simp add: maxUploadBytes_def mult.assoc flip: wi_hom_mult)

lemma sint_mib:
  "sint (word_of_int (m * 1048576) :: 64 word) =
    (m * 1048576 + 9223372036854775808) mod 18446744073709551616 - 9223372036854775808"
  unfolding int_word_sint by simp

text \<open>Mebibytes as the product counts them: modulo 2^44, as a signed number.\<close>

definition wrappedMiB :: "64 word \<Rightarrow> int" where
  "wrappedMiB m = (sint m + 8796093022208) mod 17592186044416 - 8796093022208"

lemma maxUploadBytes_wraps: "sint (maxUploadBytes m) = wrappedMiB m * 1048576"
proof -
  have "(sint m * 1048576 + 9223372036854775808) mod 18446744073709551616
      = ((sint m + 8796093022208) * 1048576) mod (17592186044416 * 1048576)" by (simp add: algebra_simps)
  also have "\<dots> = (sint m + 8796093022208) mod 17592186044416 * 1048576" by (rule mod_mult_mult2)
  finally show ?thesis
    using maxUploadBytes_sint [of "sint m"] sint_mib [of "sint m"] by (simp add: wrappedMiB_def algebra_simps)
qed

text \<open>C38. The limit on an upload is \<open>MAX_UPLOAD_MB\<close> mebibytes, computed on 64 bits: it is what the number says
  from -2^43 up to 2^43 - 1 and goes round every 2^44 beyond, so that 2^43 means a negative limit and 2^44 + 1
  one mebibyte. With a limit that is not positive every upload is refused; otherwise one is refused as
  an invalid form exactly when the form does not parse within the limit.\<close>

theorem upload_limit_wraps:
  assumes "libs_ok L" "mkdir_ok ch"
  shows "(wrappedMiB (MaxUpload d) \<le> 0 \<longrightarrow>
       Upload L d ch (WithUser ctx user) r a = (respondError 400 ''invalid form'', a))
    \<and> (0 < wrappedMiB (MaxUpload d) \<longrightarrow>
      (fst (Upload L d ch (WithUser ctx user) r a) = respondError 400 ''invalid form'' \<longleftrightarrow>
       parseForm L (wrappedMiB (MaxUpload d) * 1048576) (req_Body r) = None))
    \<and> (- 8796093022208 \<le> sint (MaxUpload d) \<and> sint (MaxUpload d) < 8796093022208 \<longrightarrow>
       wrappedMiB (MaxUpload d) = sint (MaxUpload d))"
proof (intro conjI impI)
  assume "wrappedMiB (MaxUpload d) \<le> 0"
  then have "max 0 (sint (maxUploadBytes (MaxUpload d))) = 0" unfolding maxUploadBytes_wraps by simp
  then show "Upload L d ch (WithUser ctx user) r a = (respondError 400 ''invalid form'', a)"
    using assms(2) libs_okD(6) [OF assms(1)] by (simp add: Upload_def Let_def)
next
  assume "0 < wrappedMiB (MaxUpload d)"
  then have "max 0 (sint (maxUploadBytes (MaxUpload d))) = wrappedMiB (MaxUpload d) * 1048576"
    unfolding maxUploadBytes_wraps by simp
  then show "fst (Upload L d ch (WithUser ctx user) r a) = respondError 400 ''invalid form'' \<longleftrightarrow>
      parseForm L (wrappedMiB (MaxUpload d) * 1048576) (req_Body r) = None"
    using assms(2) by (auto simp: Upload_def Let_def respondError_def respondJSON_def split: option.split list.split)
qed (simp add: wrappedMiB_def)

lemma slash_free_lower:
  assumes "unicode_ok u" "CHR ''/'' \<notin> set s"
  shows "CHR ''/'' \<notin> set (toLower u s)"
proof
  assume "CHR ''/'' \<in> set (toLower u s)"
  then obtain r where r: "r \<in> set (runes s)" "lowerRune u r = 47"
    using toLower_ascii_mem [of "CHR ''/''" u s] by (auto simp: byte_def)
  have "r < 0x80"
  proof (rule ccontr)
    assume "\<not> r < 0x80"
    then have "0x80 \<le> r" by simp
    then have "lowerRune u r < 0x80 \<longrightarrow> 97 \<le> lowerRune u r" using assms(1) unfolding unicode_ok_def by blast
    with r(2) show False by simp
  qed
  then have "r = 47" using r(2) by (auto simp: lowerRune_def split: if_splits)
  with runes_ascii_mem [OF r(1)] have "chr 47 \<in> set s" by simp
  moreover have "chr 47 = CHR ''/''" by code_simp
  ultimately show False using assms(2) by simp
qed

lemma slash_free_ext: "CHR ''/'' \<notin> set (filepathExt path)"
  by (auto simp: filepathExt_def Let_def dest: set_takeWhileD)

text \<open>C30. An upload writes one file, whose name is the fresh id and the extension of the name it was sent
  under, lower-cased: one path element in the upload directory, whatever the client has sent. No
  other file changes, and the answer is the address of a file with the content sent.\<close>

theorem upload_stays_inside:
  assumes "libs_ok L" and run: "Upload L d ch (WithUser ctx user) r a = (resp, a')"
  shows "a' = a \<or> (\<exists>name upl form. CHR ''/'' \<notin> set name \<and> name \<notin> {[], ''.'', ''..''}
    \<and> prefix (formatUUID L (new_ID ch)) name
    \<and> (\<forall>path. path \<noteq> (UploadDir d, name) \<longrightarrow> map_of (app_files a') path = map_of (app_files a) path)
    \<and> parseForm L (max 0 (sint (maxUploadBytes (MaxUpload d)))) (req_Body r) = Some form \<and> upl \<in> set form
    \<and> (resp_Status resp = 201 \<longrightarrow> resp_Body resp = URLBody (''/uploads/'' @ name)
         \<and> map_of (app_files a') (UploadDir d, name) = Some (ff_Content upl)))"
proof (cases "a' = a")
  case False
  let ?limit = "max 0 (sint (maxUploadBytes (MaxUpload d)))"
  obtain form where form: "parseForm L ?limit (req_Body r) = Some form"
    using run False by (auto simp: Upload_def Let_def split: if_splits option.splits)
  obtain upl fs where upl: "filter (\<lambda>f. ff_Field f = ''file'') form = upl # fs"
    using run False form by (auto simp: Upload_def Let_def split: if_splits list.splits)
  define ext where "ext = (if filepathExt (ff_Filename upl) = [] then ''.bin'' else filepathExt (ff_Filename upl))"
  define name where "name = formatUUID L (new_ID ch) @ toLower (lib_unicode L) ext"
  have a': "a' = a\<lparr>app_files := AList.update (UploadDir d, name)
      (case copied ch of Some n \<Rightarrow> take n (ff_Content upl) | None \<Rightarrow> ff_Content upl) (app_files a)\<rparr>"
    "resp = (case copied ch of Some n \<Rightarrow> respondError 500 ''failed to write file'' | None \<Rightarrow> respondJSON 201 (URLBody (''/uploads/'' @ name)))"
    using run False form upl unfolding Upload_def name_def ext_def
    by (auto simp: Let_def split: if_splits option.splits)
  have id: "formatUUID L (new_ID ch) \<noteq> []" "list_all uuidChar (formatUUID L (new_ID ch))"
    using libs_okD(2) [OF assms(1)] by (simp_all add: uuid_ok_def)
  have "CHR ''/'' \<notin> set (toLower (lib_unicode L) ext)"
    by (rule slash_free_lower [OF libs_okD(1) [OF assms(1)]]) (simp add: ext_def slash_free_ext)
  moreover have "\<not> uuidChar (CHR ''/'')" "\<not> uuidChar (CHR ''.'')" by (simp_all add: uuidChar_def isDecimal_def byte_def)
  ultimately have "CHR ''/'' \<notin> set name" "name \<notin> {[], ''.'', ''..''}"
    using id by (cases "formatUUID L (new_ID ch)"; auto simp: name_def list_all_iff)+
  moreover have "upl \<in> set form" using upl by (metis filter_is_subset list.set_intros(1) subsetD)
  ultimately show ?thesis
    using form by (intro disjI2 exI [of _ name] exI [of _ upl] exI [of _ form])
      (auto simp: a' name_def respondError_def respondJSON_def split: option.split)
qed simp

section \<open>On the sample server\<close>

definition historyRequest :: Request where
  "historyRequest = request ''GET'' [''api'', ''rooms'', ''10'', ''messages''] (''Bearer '' @ tokenOf ''1'' 100) [(''limit'', ''2'')] []"

theorem history_needs_membership_witness:
  "\<exists>resp ms. NewRouter plainLibs sampleDeps (sampleChance 50) historyRequest sampleApp = (Some resp, sampleApp)
    \<and> resp_Body resp = MessagesBody (slice ms) \<and> list_all (\<lambda>m. msg_RoomID m = Some 10) ms \<and> length ms \<le> 2"
proof -
  obtain x a' where run: "NewRouter plainLibs sampleDeps (sampleChance 50) historyRequest sampleApp = (x, a')" by (metis surj_pair)
  have "map_option resp_Status (fst (NewRouter plainLibs sampleDeps (sampleChance 50) historyRequest sampleApp)) = Some 200"
    "limitParam 50 historyRequest = 2" "lib_parseUUID plainLibs ''10'' = Some 10" by code_simp+
  with run obtain resp where resp: "x = Some resp" "resp_Status resp = 200" and facts: "limitParam 50 historyRequest = 2"
    "lib_parseUUID plainLibs ''10'' = Some 10" by auto
  have r: "req_Path historyRequest = [''api'', ''rooms'', ''10'', ''messages'']" "req_Method historyRequest = ''GET''"
    by (simp_all add: historyRequest_def request_def)
  from history_needs_membership [OF r sample_facts(1) run [unfolded resp(1)] resp(2)]
  obtain ms where "resp_Body resp = MessagesBody (slice ms)" "list_all (\<lambda>m. msg_RoomID m = Some 10) ms" "int (length ms) \<le> 2" "a' = sampleApp"
    by (auto simp: facts list_all_iff)
  with run resp show ?thesis by (intro exI [of _ resp] exI [of _ ms]) simp
qed

theorem http_leave_keeps_subscription_witness:
  "\<exists>a a'. Leave plainLibs (WithUser [] (sampleUser 0)) ''10'' a = (respondJSON 200 (StatusBody ''left''), a')
    \<and> \<not> isMember (app_store a') 10 (user_ID (sampleUser 0))
    \<and> conn_send (connAt (deliver (app_hub a')) 0) = conn_send (connAt (app_hub a) 0) @ [errorEvent ''x'']"
proof -
  define m where "m = \<lparr>out_roomID = Some 10, out_userID = None, out_event = errorEvent ''x'', out_exclude = None\<rparr>"
  define a where "a = \<lparr>app_hub = sampleHub\<lparr>hub_broadcast := [m]\<rparr>, app_files = []\<rparr>"
  obtain resp a' where run: "Leave plainLibs (WithUser [] (sampleUser 0)) ''10'' a = (resp, a')" by (metis surj_pair)
  have parse: "lib_parseUUID plainLibs ''10'' = Some 10" by code_simp
  have inv: "hub_inv (app_hub a)"
    using sampleHub_inv by (simp add: a_def hub_inv_def conns_inv_def userOf_def broadcastBuffer_def)
  have resp: "resp = respondJSON 200 (StatusBody ''left'')"
    using run by (simp add: Leave_def parse a_def RemoveRoomMember_def sampleHub_facts)
  have "conn_reading (connAt (app_hub a) 0)" "10 \<in> set (conn_rooms (connAt (app_hub a) 0))"
    "length (conn_send (connAt (app_hub a) 0)) < 64" "hub_broadcast (app_hub a) = [m]" "out_roomID m = Some 10" "out_exclude m \<noteq> Some 0"
    by (simp_all add: a_def m_def sampleHub_facts)
  from http_leave_keeps_subscription [OF inv parse run _ this] resp run show ?thesis
    by (intro exI [of _ a] exI [of _ a']) (simp add: respondJSON_def m_def)
qed

theorem upload_limit_wraps_witness:
  "Upload plainLibs (sampleDeps\<lparr>MaxUpload := 8796093022208\<rparr>) (sampleChance 5) (WithUser [] (sampleUser 0))
     (request ''POST'' [] [] [] ''file|a.txt|abc'') sampleApp = (respondError 400 ''invalid form'', sampleApp)
   \<and> fst (Upload plainLibs (sampleDeps\<lparr>MaxUpload := 17592186044417\<rparr>) (sampleChance 5) (WithUser [] (sampleUser 0))
     (request ''POST'' [] [] [] ''file|a.txt|abc'') sampleApp) \<noteq> respondError 400 ''invalid form''"
proof -
  let ?r = "request ''POST'' [] [] [] ''file|a.txt|abc''"
  have "parseForm plainLibs 1048576 (req_Body ?r) \<noteq> None"
    "wrappedMiB 8796093022208 = - 8796093022208" "wrappedMiB 17592186044417 = 1" by code_simp+
  moreover have "mkdir_ok (sampleChance 5)" by (simp add: sampleChance_def)
  ultimately show ?thesis
    using upload_limit_wraps [OF plainLibs_ok, of "sampleChance 5" "sampleDeps\<lparr>MaxUpload := 8796093022208\<rparr>" "[]" "sampleUser 0" ?r sampleApp]
      upload_limit_wraps [OF plainLibs_ok, of "sampleChance 5" "sampleDeps\<lparr>MaxUpload := 17592186044417\<rparr>" "[]" "sampleUser 0" ?r sampleApp]
    by simp
qed

theorem upload_stays_inside_witness:
  "\<exists>name. CHR ''/'' \<notin> set name \<and> prefix ''77'' name
    \<and> resp_Body (fst (Upload plainLibs sampleDeps (sampleChance 5) (WithUser [] (sampleUser 0))
        (request ''POST'' [] [] [] ''file|../../x/evil.PNG|abc'') sampleApp)) = URLBody (''/uploads/'' @ name)"
proof -
  let ?r = "request ''POST'' [] [] [] ''file|../../x/evil.PNG|abc''"
  obtain resp a' where run: "Upload plainLibs sampleDeps (sampleChance 5) (WithUser [] (sampleUser 0)) ?r sampleApp = (resp, a')" by (metis surj_pair)
  have "resp_Status (fst (Upload plainLibs sampleDeps (sampleChance 5) (WithUser [] (sampleUser 0)) ?r sampleApp)) = 201"
    "length (app_files (snd (Upload plainLibs sampleDeps (sampleChance 5) (WithUser [] (sampleUser 0)) ?r sampleApp))) = 1"
    "formatUUID plainLibs (new_ID (sampleChance 5)) = ''77''" by code_simp+
  then have facts: "resp_Status resp = 201" "a' \<noteq> sampleApp" "formatUUID plainLibs (new_ID (sampleChance 5)) = ''77''"
    using run by (auto simp: sampleApp_def)
  from upload_stays_inside [OF plainLibs_ok run] facts run show ?thesis by auto
qed

end
