(* ===== verification/App_Properties.thy ===== *)
theory App_Properties
  imports App_Invariant Http_Accounts Http_Data
begin

text \<open>
  The configuration's parsers and the start of the server.
\<close>

section \<open>Durations\<close>

lemma leadingInt_digits:
  assumes "list_all isDecimal ds" "rest = [] \<or> \<not> isDecimal (hd rest)" "x \<le> pow63"
  shows "leadingInt x (ds @ rest) =
    (let n = foldl (\<lambda>n c. n * 10 + (byte c - 48)) x ds in if n \<le> pow63 then Some (n, rest) else None)"
  using assms
proof (induction ds arbitrary: x)
  case Nil
  then show ?case by (cases rest) (simp_all add: Let_def)
next
  case (Cons d ds)
  let ?f = "\<lambda>n c. n * 10 + (byte c - 48)"
  have mono: "x \<le> foldl ?f x es" for x es
  proof (induction es arbitrary: x)
    case (Cons e es)
    have "x \<le> ?f x e" by simp
    also have "\<dots> \<le> foldl ?f (?f x e) es" by (rule Cons)
    finally show ?case by simp
  qed simp
  obtain k where k: "byte d = 48 + k" using Cons.prems(1) le_Suc_ex [of 48 "byte d"] by (auto simp: isDecimal_def)
  define y where "y = ?f x d"
  have step: "leadingInt x ((d # ds) @ rest) =
      (if pow63 div 10 < x then None else if pow63 < y then None else leadingInt y (ds @ rest))"
    "foldl ?f x (d # ds) = foldl ?f y ds" "x * 10 \<le> y"
    using Cons.prems by (simp_all add: y_def k Let_def)
  show ?case
  proof (cases "y \<le> pow63")
    case True
    then have "\<not> pow63 div 10 < x" using step(3) by (simp add: pow63_def)
    with True Cons show ?thesis unfolding step(1,2) by (simp add: Let_def)
  next
    case False
    with mono [of y ds] have "\<not> foldl ?f y ds \<le> pow63" by linarith
    with False show ?thesis unfolding step(1,2) by (simp add: Let_def)
  qed
qed

lemma unitMap_units:
  assumes "map_of unitMap u = Some unit"
  shows "0 < unit" "u \<noteq> []" "takeWhile (\<lambda>c. c \<noteq> CHR ''.'' \<and> \<not> isDecimal c) u = u" "\<not> prefix ''.'' u" "\<not> isDecimal (hd u)"
proof -
  have "list_all (\<lambda>(u, unit). 0 < unit \<and> u \<noteq> [] \<and> takeWhile (\<lambda>c. c \<noteq> CHR ''.'' \<and> \<not> isDecimal c) u = u
      \<and> \<not> prefix ''.'' u \<and> \<not> isDecimal (hd u)) unitMap" by code_simp
  with map_of_SomeD [OF assms] show "0 < unit" "u \<noteq> []" "takeWhile (\<lambda>c. c \<noteq> CHR ''.'' \<and> \<not> isDecimal c) u = u"
    "\<not> prefix ''.'' u" "\<not> isDecimal (hd u)"
    by (auto simp: list_all_iff)
qed

lemma durationPart_number:
  assumes "map_of unitMap u = Some unit"
  shows "durationPart fr (itoa n @ u) = (if n * unit \<le> pow63 then Some (n * unit, []) else None)"
proof -
  note u = unitMap_units [OF assms]
  have hd: "isDecimal (hd (itoa n @ u))" "itoa n @ u \<noteq> []" "length (itoa n @ u) \<noteq> length u"
    using itoa_decimal [of n] by (cases "itoa n"; simp)+
  have fold: "foldl (\<lambda>n c. n * 10 + (byte c - 48)) 0 (itoa n) = n" using digitsVal_itoa by (simp add: digitsVal_def)
  have lead: "leadingInt 0 (itoa n @ u) = (if n \<le> pow63 then Some (n, u) else None)"
    using leadingInt_digits [OF itoa_decimal, of u 0 n] u(2,5) by (simp add: fold)
  have "n > pow63 div unit \<longleftrightarrow> \<not> n * unit \<le> pow63" using u(1) by (simp add: div_less_iff_less_mult not_le)
  moreover have "n * unit \<le> pow63 \<longrightarrow> n \<le> pow63"
  proof
    assume le: "n * unit \<le> pow63"
    have "n * 1 \<le> n * unit" by (rule mult_le_mono2) (use u(1) in simp)
    then show "n \<le> pow63" using le by linarith
  qed
  ultimately show ?thesis
    unfolding durationPart_def lead using u(1,2,4,5) assms hd by (simp add: Let_def u(3))
qed

lemma ParseDuration_number:
  assumes "map_of unitMap u = Some unit"
  shows "ParseDuration fr (itoa n @ u) = (if n * unit < 9223372036854775808 then Some (int (n * unit)) else None)"
proof -
  have s: "\<not> prefix ''-'' (itoa n @ u)" "\<not> prefix ''+'' (itoa n @ u)"
    using hd_itoa_no_sign [of n] by (cases "itoa n"; simp)+
  have ne: "itoa n @ u \<noteq> ''0''" "itoa n @ u \<noteq> []"
    using unitMap_units(2) [OF assms] by (auto simp: append_eq_Cons_conv)
  have "durationLoop fr 0 (itoa n @ u) = (if n * unit \<le> pow63 then Some (n * unit) else None)"
    using ne(2) durationPart_number [OF assms, of fr n]
    by (subst durationLoop.simps) (auto simp: durationLoop.simps [of _ _ "[]"] pow63_def Let_def)
  then show ?thesis using s ne by (auto simp: ParseDuration_def pow63_def)
qed

text \<open>\<open>TOKEN_TTL\<close> given as a number with a unit is that many nanoseconds, exactly, as long as they fit in 63
  bits; beyond, and for a token life that is not positive, a day.\<close>

theorem token_ttl_of_env:
  assumes "trimSpace (Getenv env ''TOKEN_TTL'') = itoa n @ u" "map_of unitMap u = Some unit"
  shows "timeSecondsToDuration (TokenTTL (routerDeps (Load fr env))) =
    (if 0 < n * unit \<and> n * unit < 9223372036854775808 then int (n * unit) else 86400000000000)"
proof -
  have "itoa n @ u \<noteq> []" using unitMap_units(2) [OF assms(2)] by simp
  then show ?thesis
    by (simp add: Load_def routerDeps_def getenvDuration_def assms(1) ParseDuration_number [OF assms(2)]
        timeSecondsToDuration_def hour_def second_def Let_def del: of_nat_mult)
qed

definition exactFraction :: fraction where
  "exactFraction f unit k = f * unit div 10 ^ k"

theorem token_ttl_of_env_witness:
  "timeSecondsToDuration (TokenTTL (routerDeps (Load exactFraction [(''TOKEN_TTL'', '' 90m'')]))) = 5400000000000"
proof -
  have "trimSpace (Getenv [(''TOKEN_TTL'', '' 90m'')] ''TOKEN_TTL'') = itoa 90 @ ''m''" "map_of unitMap ''m'' = Some 60000000000"
    by code_simp+
  from token_ttl_of_env [OF this] show ?thesis by simp
qed

section \<open>Origins\<close>

lemma set_trimSpace: "set (trimSpace s) \<subseteq> set s"
  unfolding trimSpace_def using set_mono_prefix [OF trimRight_prefix] set_mono_suffix [OF trimLeft_suffix] by blast

lemma splitOn_join:
  "xs \<noteq> [] \<Longrightarrow> list_all (\<lambda>x. sep \<notin> set x) xs \<Longrightarrow> splitOn (join xs [sep]) sep = xs"
  by (induction xs "[sep]" rule: join.induct) (simp_all add: splitOn_append splitOn_free)

text \<open>The list of origins holds trimmed, non-empty strings without a comma, and a list of such strings
  written with commas is read back as it was.\<close>

theorem origins_roundtrip:
  "list_all (\<lambda>p. p \<noteq> [] \<and> trimSpace p = p \<and> CHR '','' \<notin> set p) (splitAndTrim value)
   \<and> (list_all (\<lambda>p. p \<noteq> [] \<and> trimSpace p = p \<and> CHR '','' \<notin> set p) ps \<longrightarrow> splitAndTrim (join ps '','') = ps)"
proof
  show "list_all (\<lambda>p. p \<noteq> [] \<and> trimSpace p = p \<and> CHR '','' \<notin> set p) (splitAndTrim value)"
    using set_trimSpace splitOn_no_sep by (fastforce simp: splitAndTrim_def list_all_iff)
  show "list_all (\<lambda>p. p \<noteq> [] \<and> trimSpace p = p \<and> CHR '','' \<notin> set p) ps \<longrightarrow> splitAndTrim (join ps '','') = ps"
  proof
    assume ps: "list_all (\<lambda>p. p \<noteq> [] \<and> trimSpace p = p \<and> CHR '','' \<notin> set p) ps"
    show "splitAndTrim (join ps '','') = ps"
    proof (cases "ps = []")
      case False
      have "list_all (\<lambda>x. CHR '','' \<notin> set x) ps" using ps by (simp add: list_all_iff)
      from splitOn_join [OF False this] have "splitAndTrim (join ps '','') = filter (\<lambda>p. p \<noteq> []) (map trimSpace ps)"
        by (simp add: splitAndTrim_def)
      also have "map trimSpace ps = ps" using ps by (simp add: list_all_iff map_idI)
      also have "filter (\<lambda>p. p \<noteq> []) ps = ps" using ps by (simp add: list_all_iff filter_id_conv)
      finally show ?thesis .
    qed (simp add: splitAndTrim_def)
  qed
qed

theorem origins_roundtrip_witness: "splitAndTrim (join [''a'', ''b c''] '','') = [''a'', ''b c'']"
proof -
  have "list_all (\<lambda>p. p \<noteq> [] \<and> trimSpace p = p \<and> CHR '','' \<notin> set p) [''a'', ''b c'']" by code_simp
  with origins_roundtrip [of "[]" "[''a'', ''b c'']"] show ?thesis by blast
qed

section \<open>The default room\<close>

text \<open>After a start with a database that answers there is a room called general, in some case; a start
  after that finds it and changes nothing.\<close>

theorem startup_seeds_room:
  assumes "st_up st" "sql_text (lib_sql L) ''general''" "\<not> isRoom st new"
  shows "\<exists>room\<in>set (st_rooms (app_store (startup L new creator now st files))).
      sql_lower (lib_sql L) (row_Name room) = sql_lower (lib_sql L) ''general''
    \<and> app_store (startup L new' creator' now' (app_store (startup L new creator now st files)) files) =
      app_store (startup L new creator now st files)"
proof (cases "filter (\<lambda>r. sql_lower (lib_sql L) (row_Name r) = sql_lower (lib_sql L) ''general'') (st_rooms st)")
  case (Cons room rooms)
  have "room \<in> set (filter (\<lambda>r. sql_lower (lib_sql L) (row_Name r) = sql_lower (lib_sql L) ''general'') (st_rooms st))"
    unfolding Cons by simp
  then have "room \<in> set (st_rooms st) \<and> sql_lower (lib_sql L) (row_Name room) = sql_lower (lib_sql L) ''general''" by simp
  with Cons assms(1) show ?thesis
    by (auto simp: startup_def EnsureDefaultRoom_def firstRow_def)
next
  case Nil
  then have "''general'' \<notin> row_Name ` set (st_rooms st)" by (auto simp: filter_empty_conv)
  with Nil assms show ?thesis
    by (simp add: startup_def EnsureDefaultRoom_def firstRow_def CreateRoom_def Let_def)
qed

theorem startup_seeds_room_witness:
  "\<exists>room\<in>set (st_rooms (app_store (startup plainLibs 5 6 7 emptyStore []))).
     sql_lower (lib_sql plainLibs) (row_Name room) = ''general''"
proof -
  have "sql_text (lib_sql plainLibs) ''general''" "sql_lower (lib_sql plainLibs) ''general'' = ''general''" by code_simp+
  with startup_seeds_room [of emptyStore plainLibs 5 6 7 "[]"] show ?thesis
    by (simp add: emptyStore_def isRoom_def)
qed

theorem app_reachable_inv_witness:
  "app_inv (fold (app_step plainLibs sampleDeps)
     [Http (sampleChance 50) (request ''POST'' [''api'', ''auth'', ''register''] [] [] (registerBody ''c@x.y'' ''cat'' ''secret'')), Database False]
     (startup plainLibs 5 6 7 sampleStore []))"
  by (rule app_reachable_inv [OF sampleStore_ok])

end
