(* ===== verification/App_Lifecycle.thy ===== *)
theory App_Lifecycle
  imports App_Properties
begin

text \<open>
  The life of the process, from the end of the set-up in \<open>main\<close> to its exit: \<open>ListenAndServe\<close>, the goroutine
  that waits for the signal and calls \<open>Shutdown\<close>, and the deferred calls. \<open>net/http\<close> documents that
  \<open>ListenAndServe\<close> returns \<open>ErrServerClosed\<close> as soon as \<open>Shutdown\<close> is called, while \<open>Shutdown\<close> itself waits for
  the active requests; connections taken over by the WebSocket upgrade are no part of that.
\<close>

section \<open>The process\<close>

text \<open>Where \<open>main\<close> is: before the listener is open, inside \<open>ListenAndServe\<close>, behind it with its deferred calls to
  run, or gone with an exit status. The goroutine waits for the signal, is inside \<open>Shutdown\<close>, or is done.\<close>

datatype mainState = Starting | Serving | Returned | Exited nat
datatype drainState = Waiting | Draining | Drained

record Process =
  proc_app :: App
  proc_signalled :: bool
  proc_listening :: bool
  proc_drain :: drainState
  proc_main :: mainState
  proc_active :: "(chance \<times> Request) list"
  proc_answers :: "(Request \<times> Response option) list"

definition startProcess :: "HTTPServer \<Rightarrow> Process" where
  "startProcess srv = \<lparr>proc_app = srv_App srv, proc_signalled = False, proc_listening = False, proc_drain = Waiting,
     proc_main = Starting, proc_active = [], proc_answers = []\<rparr>"

definition running :: "Process \<Rightarrow> bool" where
  "running p \<longleftrightarrow> (\<forall>code. proc_main p \<noteq> Exited code)"

text \<open>\<open>Shutdown\<close> closes the listener first.\<close>

definition beginShutdown :: "Process \<Rightarrow> Process" where
  "beginShutdown p = p\<lparr>proc_listening := False, proc_drain := Draining\<rparr>"

text \<open>The deferred calls close the pool of database connections; then the process is gone.\<close>

definition leaveMain :: "Process \<Rightarrow> Process" where
  "leaveMain p = p\<lparr>proc_app := setStore ((app_store (proc_app p))\<lparr>st_up := False\<rparr>) (proc_app p), proc_main := Exited 0\<rparr>"

definition answerRequest :: "libs \<Rightarrow> RouterDeps \<Rightarrow> chance \<Rightarrow> Request \<Rightarrow> (chance \<times> Request) list \<Rightarrow> Process \<Rightarrow> Process" where
  "answerRequest L d ch r rest p = p\<lparr>proc_app := app_step L d (Http ch r) (proc_app p), proc_active := rest,
     proc_answers := proc_answers p @ [(r, fst (NewRouter L d ch r (proc_app p)))]\<rparr>"

inductive proc_step :: "libs \<Rightarrow> RouterDeps \<Rightarrow> Process \<Rightarrow> Process \<Rightarrow> bool" for L d where
  Listen: "proc_main p = Starting \<Longrightarrow> proc_drain p = Waiting \<Longrightarrow>
    proc_step L d p (p\<lparr>proc_main := Serving, proc_listening := True\<rparr>)"
| ListenFails: "proc_main p = Starting \<Longrightarrow> proc_step L d p (p\<lparr>proc_main := Exited 1\<rparr>)"
| Arrive: "running p \<Longrightarrow> proc_listening p \<Longrightarrow> proc_step L d p (p\<lparr>proc_active := proc_active p @ [(ch, r)]\<rparr>)"
| Answer: "running p \<Longrightarrow> proc_active p = xs @ (ch, r) # ys \<Longrightarrow> proc_step L d p (answerRequest L d ch r (xs @ ys) p)"
| Turn: "running p \<Longrightarrow> (\<And>ch r. ev \<noteq> Http ch r) \<Longrightarrow> proc_step L d p (p\<lparr>proc_app := app_step L d ev (proc_app p)\<rparr>)"
| Signal: "running p \<Longrightarrow> proc_step L d p (p\<lparr>proc_signalled := True\<rparr>)"
| Shutdown: "running p \<Longrightarrow> proc_signalled p \<Longrightarrow> proc_drain p = Waiting \<Longrightarrow> proc_step L d p (beginShutdown p)"
| Drain: "running p \<Longrightarrow> proc_drain p = Draining \<Longrightarrow> proc_active p = [] \<Longrightarrow> proc_step L d p (p\<lparr>proc_drain := Drained\<rparr>)"
| Timeout: "running p \<Longrightarrow> proc_drain p = Draining \<Longrightarrow> proc_step L d p (p\<lparr>proc_drain := Drained\<rparr>)"
| ServerClosed: "proc_main p \<in> {Starting, Serving} \<Longrightarrow> proc_drain p \<noteq> Waiting \<Longrightarrow>
    proc_step L d p (p\<lparr>proc_main := Returned\<rparr>)"
| ServeFails: "proc_main p = Serving \<Longrightarrow> proc_listening p \<Longrightarrow>
    proc_step L d p (p\<lparr>proc_listening := False, proc_main := Exited 1\<rparr>)"
| Leave: "proc_main p = Returned \<Longrightarrow> proc_step L d p (leaveMain p)"

inductive_cases proc_stepE: "proc_step L d p p'"

lemmas proc_changes = answerRequest_def beginShutdown_def leaveMain_def

section \<open>What holds throughout\<close>

definition proc_inv :: "Process \<Rightarrow> bool" where
  "proc_inv p \<longleftrightarrow> app_inv (proc_app p)
     \<and> (proc_listening p \<longrightarrow> proc_main p = Serving \<and> proc_drain p = Waiting)
     \<and> (proc_drain p \<noteq> Waiting \<longrightarrow> proc_signalled p)
     \<and> (proc_main p \<in> {Returned, Exited 0} \<longrightarrow> proc_drain p \<noteq> Waiting)
     \<and> (proc_main p = Exited 0 \<longrightarrow> \<not> st_up (app_store (proc_app p)))"

lemma app_step_database: "app_step L d (Database False) a = setStore ((app_store a)\<lparr>st_up := False\<rparr>) a"
  by simp

lemma proc_step_inv:
  assumes "proc_step L d p p'" "proc_inv p"
  shows "proc_inv p'"
  using assms
proof (induction rule: proc_step.induct)
  case (Leave p)
  then show ?case
    using app_step_inv [of "proc_app p" L d "Database False"]
    by (auto simp: proc_inv_def leaveMain_def setStore_def)
qed (auto simp: proc_inv_def running_def beginShutdown_def answerRequest_def app_step_inv simp del: app_step.simps)

lemma proc_run_inv: "(proc_step L d)\<^sup>*\<^sup>* p p' \<Longrightarrow> proc_inv p \<Longrightarrow> proc_inv p'"
  by (induction rule: rtranclp_induct) (auto intro: proc_step_inv)

text \<open>C20. From the start of the process to its end, through a signal, the shutdown and the exit: the data stay
  consistent; requests are taken only while \<open>main\<close> serves and no shutdown has begun; the shutdown needs a
  signal; and \<open>main\<close> returns with status 0 only after a shutdown has begun, with the pool closed.\<close>

theorem process_reachable_inv:
  assumes "mainServer L fr env pool new creator now st files = Some srv" "store_ok st"
    and "(proc_step L d)\<^sup>*\<^sup>* (startProcess srv) p"
  shows "proc_inv p"
proof -
  have "app_inv (srv_App srv)" using main_inv [OF assms(1,2), of "[]"] by simp
  then have "proc_inv (startProcess srv)" by (simp add: proc_inv_def startProcess_def)
  with assms(3) show ?thesis by (rule proc_run_inv)
qed

section \<open>The end\<close>

lemma exited_is_final: "proc_main p = Exited code \<Longrightarrow> \<not> proc_step L d p p'"
  by (auto elim!: proc_stepE simp: running_def)

text \<open>C36. A shutdown does not wait for the requests it has promised to: whatever is being served when the signal
  comes, the process can run to its exit with status 0 with none of it answered, because \<open>main\<close> returns when
  \<open>ListenAndServe\<close> does and not when \<open>Shutdown\<close> does; and an exited process answers nothing.\<close>

theorem shutdown_drops_requests:
  assumes "proc_main p = Serving" "proc_drain p = Waiting" "proc_signalled p"
  shows "\<exists>p'. (proc_step L d)\<^sup>*\<^sup>* p p' \<and> proc_main p' = Exited 0 \<and> proc_drain p' = Draining
    \<and> proc_active p' = proc_active p \<and> proc_answers p' = proc_answers p \<and> (\<forall>q. \<not> proc_step L d p' q)"
proof -
  let ?q = "(beginShutdown p)\<lparr>proc_main := Returned\<rparr>"
  have "proc_step L d p (beginShutdown p)" using assms by (intro proc_step.Shutdown) (simp_all add: running_def)
  moreover have "proc_step L d (beginShutdown p) ?q" using assms by (intro ServerClosed) (simp_all add: beginShutdown_def)
  moreover have "proc_step L d ?q (leaveMain ?q)" by (intro Leave) simp
  ultimately have "(proc_step L d)\<^sup>*\<^sup>* p (leaveMain ?q)"
    by (blast intro: converse_rtranclp_into_rtranclp)
  then show ?thesis
    using exited_is_final [of "leaveMain ?q" 0 L d] by (intro exI [of _ "leaveMain ?q"]) (simp add: proc_changes)
qed













section \<open>A sample process\<close>

definition sampleServer :: HTTPServer where
  "sampleServer = the (mainServer plainLibs exactFraction [] True 5 6 7 sampleStore [])"

definition servingProcess :: Process where
  "servingProcess = (startProcess sampleServer)\<lparr>proc_main := Serving, proc_listening := True,
     proc_active := [(sampleChance 5, tokenRequest)], proc_signalled := True\<rparr>"

lemma sampleServer_main: "mainServer plainLibs exactFraction [] True 5 6 7 sampleStore [] = Some sampleServer"
  by (simp add: sampleServer_def mainServer_def Let_def)

lemma servingProcess_run: "(proc_step plainLibs d)\<^sup>*\<^sup>* (startProcess sampleServer) servingProcess"
proof -
  let ?p = "startProcess sampleServer"
  let ?q = "?p\<lparr>proc_main := Serving, proc_listening := True\<rparr>"
  let ?r = "?q\<lparr>proc_active := [(sampleChance 5, tokenRequest)]\<rparr>"
  have "proc_step plainLibs d ?p ?q" by (rule Listen) (simp_all add: startProcess_def)
  moreover have "proc_step plainLibs d ?q ?r"
    using Arrive [of ?q plainLibs d "sampleChance 5" tokenRequest] by (simp add: running_def startProcess_def)
  moreover have "proc_step plainLibs d ?r servingProcess"
    using Signal [of ?r plainLibs d] by (simp add: running_def servingProcess_def)
  ultimately show ?thesis by (blast intro: converse_rtranclp_into_rtranclp)
qed

lemma servingProcess_state: "proc_main servingProcess = Serving" "proc_drain servingProcess = Waiting"
  "proc_signalled servingProcess" "proc_active servingProcess = [(sampleChance 5, tokenRequest)]"
  by (simp_all add: servingProcess_def startProcess_def)

theorem process_reachable_inv_witness: "proc_inv servingProcess"
  by (rule process_reachable_inv [OF sampleServer_main sampleStore_ok servingProcess_run])

theorem shutdown_drops_requests_witness:
  "\<exists>p'. (proc_step plainLibs sampleDeps)\<^sup>*\<^sup>* servingProcess p' \<and> proc_main p' = Exited 0
     \<and> proc_active p' = [(sampleChance 5, tokenRequest)] \<and> (\<forall>q. \<not> proc_step plainLibs sampleDeps p' q)"
  using shutdown_drops_requests [OF servingProcess_state(1-3), of plainLibs sampleDeps]
  unfolding servingProcess_state(4) by blast


end
