(* ===== verification/Go_Threads.thy ===== *)
theory Go_Threads
  imports Prelude
begin

text \<open>
  Goroutines that share a state. What is left of a goroutine is a \<open>prog\<close>: it has returned, or it does its
  next atomic action -- one statement of the database, one critical section -- and goes on with what the
  action's result decides. Others may act in between. The locale \<open>goroutines\<close> is a rely-guarantee argument:
  when every action keeps the invariant and what the others rely on, any interleaving keeps the invariant.
\<close>

datatype ('r, 's) prog = Return 'r | Atomic "'s \<Rightarrow> ('r, 's) prog \<times> 's"

text \<open>\<open>atomic f k\<close> does \<open>f\<close> in one action and goes on as \<open>k\<close> says of its result.\<close>

definition atomic :: "('s \<Rightarrow> 'x \<times> 's) \<Rightarrow> ('x \<Rightarrow> ('r, 's) prog) \<Rightarrow> ('r, 's) prog" where
  "atomic f k = Atomic (\<lambda>s. let (x, s') = f s in (k x, s'))"

text \<open>A goroutine that runs alone.\<close>

primrec run :: "('r, 's) prog \<Rightarrow> 's \<Rightarrow> 'r \<times> 's" where
  "run (Return r) = (\<lambda>s. (r, s))"
| "run (Atomic g) = (\<lambda>s. let (k, s') = map_prod run id (g s) in k s')"

lemma run_simps [simp]:
  "run (Return r) s = (r, s)"
  "run (atomic f k) s = run (k (fst (f s))) (snd (f s))"
  by (simp_all add: atomic_def split_beta)

declare run.simps [simp del]

text \<open>A goroutine among others: it finds the given states, one for each of its actions, whatever the others
  have made of what it left. The result is what is left of it.\<close>

fun amid :: "'s list \<Rightarrow> ('r, 's) prog \<Rightarrow> ('r, 's) prog" where
  "amid (s # ss) (Atomic g) = amid ss (fst (g s))"
| "amid ss p = p"

lemma amid_simps [simp]:
  "amid ss (Return r) = Return r" "amid [] p = p"
  "amid (s # ss) (atomic f k) = amid ss (k (fst (f s)))"
  by (simp_all add: atomic_def split_beta)

lemma atomic_not_Return [simp]: "atomic f k \<noteq> Return r" "Return r \<noteq> atomic f k"
  by (simp_all add: atomic_def)

lemma amid_atomic:
  "amid ss (atomic f k) = Return r \<longleftrightarrow> (\<exists>s ss'. ss = s # ss' \<and> amid ss' (k (fst (f s))) = Return r)"
  by (cases ss) auto

definition within :: "nat \<Rightarrow> ('r, 's) prog \<Rightarrow> bool" where
  "within n p \<longleftrightarrow> (\<forall>ss. n \<le> length ss \<longrightarrow> (\<exists>r. amid ss p = Return r))"

lemma within_Return: "within n (Return r)"
  by (simp add: within_def)

lemma within_atomic: "(\<And>x. within n (c x)) \<Longrightarrow> within (Suc n) (atomic f c)"
  unfolding within_def by (intro allI impI) (metis Suc_le_length_iff amid_simps(3))

lemma within_mono: "within m p \<Longrightarrow> m \<le> n \<Longrightarrow> within n p"
  by (auto simp: within_def)

text \<open>A pool of goroutines, each with its owner: \<open>Some k\<close> has at most one goroutine at a time that has not
  returned, \<open>None\<close> any number.\<close>

type_synonym ('k, 'r, 's) pool = "('k option \<times> ('r, 's) prog) list"

fun busy :: "('r, 's) prog \<Rightarrow> bool" where
  "busy (Return _) = False"
| "busy (Atomic _) = True"

lemma busy_atomic [simp]: "busy (atomic f k)"
  by (simp add: atomic_def)

definition idle :: "'k option \<Rightarrow> ('k, 'r, 's) pool \<Rightarrow> bool" where
  "idle k ts \<longleftrightarrow> list_all (\<lambda>(k', p). k' = k \<longrightarrow> \<not> busy p) ts"

text \<open>No owner has two goroutines under way.\<close>

definition apart :: "('k, 'r, 's) pool \<Rightarrow> bool" where
  "apart ts \<longleftrightarrow> (\<forall>i<length ts. \<forall>j<length ts. i \<noteq> j \<longrightarrow> busy (snd (ts ! i)) \<longrightarrow> busy (snd (ts ! j)) \<longrightarrow>
     fst (ts ! i) = None \<or> fst (ts ! i) \<noteq> fst (ts ! j))"

lemma apartD:
  "apart ts \<Longrightarrow> i < length ts \<Longrightarrow> j < length ts \<Longrightarrow> i \<noteq> j \<Longrightarrow> busy (snd (ts ! i)) \<Longrightarrow> busy (snd (ts ! j)) \<Longrightarrow>
    fst (ts ! i) = None \<or> fst (ts ! i) \<noteq> fst (ts ! j)"
  by (simp add: apart_def)

lemma apart_append:
  assumes "apart ts" "k \<noteq> None \<Longrightarrow> idle k ts"
  shows "apart (ts @ [(k, p)])"
proof -
  have "k = None" if "i < length ts" "busy (snd (ts ! i))" "fst (ts ! i) = k" for i
    using assms(2) that nth_mem [OF that(1)] by (cases k) (fastforce simp: idle_def list_all_iff split_beta)+
  then show ?thesis using assms(1) by (fastforce simp: apart_def nth_append less_Suc_eq)
qed

lemma apart_update:
  assumes "apart ts" "i < length ts" "busy (snd (ts ! i))"
  shows "apart (ts[i := (fst (ts ! i), p)])"
proof -
  have "busy (snd (ts[i := (fst (ts ! i), p)] ! j)) \<longrightarrow> busy (snd (ts ! j))"
    "fst (ts[i := (fst (ts ! i), p)] ! j) = fst (ts ! j)" if "j < length ts" for j
    using assms(2,3) that by (auto simp: nth_list_update)
  then show ?thesis using assms(1) unfolding apart_def by simp
qed

definition resume :: "nat \<Rightarrow> ('k, 'r, 's) pool \<times> 's \<Rightarrow> ('k, 'r, 's) pool \<times> 's" where
  "resume i = (\<lambda>(ts, s).
     if i < length ts
     then (case ts ! i of
             (k, Return r) \<Rightarrow> (ts, s)
           | (k, Atomic g) \<Rightarrow> let (p, s') = g s in (ts[i := (k, p)], s'))
     else (ts, s))"

lemma run_Atomic: "run (Atomic g) s = run (fst (g s)) (snd (g s))"
  by (simp add: run.simps split_beta)

text \<open>A goroutine that is left alone returns, with what \<open>run\<close> says.\<close>

lemma resume_alone:
  "i < length ts \<Longrightarrow> ts ! i = (k, p) \<Longrightarrow>
    \<exists>n. (resume i ^^ n) (ts, s) = (ts[i := (k, Return (fst (run p s)))], snd (run p s))"
proof (induction p arbitrary: ts s)
  case (Return r)
  then have "(resume i ^^ 0) (ts, s) = (ts[i := (k, Return (fst (run (Return r) s)))], snd (run (Return r) s))"
    using list_update_id [of ts i] by simp
  then show ?case by blast
next
  case (Atomic g)
  let ?ts = "ts[i := (k, fst (g s))]"
  have "i < length ?ts" "?ts ! i = (k, fst (g s))" using Atomic.prems(1) by simp_all
  moreover have "g s \<in> range g" "fst (g s) \<in> Basic_BNFs.fsts (g s)" by (auto intro: fsts.intros)
  ultimately obtain n where "(resume i ^^ n) (?ts, snd (g s)) =
      (?ts[i := (k, Return (fst (run (fst (g s)) (snd (g s)))))], snd (run (fst (g s)) (snd (g s))))"
    using Atomic.IH by blast
  moreover have "resume i (ts, s) = (?ts, snd (g s))" using Atomic.prems by (simp add: resume_def split_beta)
  ultimately have "(resume i ^^ Suc n) (ts, s) =
      (ts[i := (k, Return (fst (run (Atomic g) s)))], snd (run (Atomic g) s))"
    by (simp add: funpow_Suc_right run_Atomic del: funpow.simps)
  then show ?case by blast
qed

text \<open>What has returned stays as it is.\<close>

lemma resume_keeps: "(k, Return r) \<in> set ts \<Longrightarrow> (k, Return r) \<in> set (fst (resume i (ts, s)))"
proof (cases "i < length ts")
  case True
  assume m: "(k, Return r) \<in> set ts"
  then obtain j where j: "j < length ts" "ts ! j = (k, Return r)" by (auto simp: in_set_conv_nth)
  show ?thesis
  proof (cases "snd (ts ! i)")
    case (Atomic g)
    then have "ts[i := x] ! j = (k, Return r)" for x using j by (cases "j = i") auto
    then show ?thesis using Atomic True j(1)
      by (auto simp: resume_def split_beta in_set_conv_nth intro!: exI [of _ j] split: prod.splits)
  qed (use m True in \<open>auto simp: resume_def split: prod.splits\<close>)
qed (simp add: resume_def)

section \<open>Rely and guarantee\<close>

text \<open>\<open>guar k\<close> is what the actions of a goroutine with owner \<open>k\<close> promise; those without owner, and what else
  happens to the state, promise \<open>guar None\<close>. \<open>post r\<close> is what a goroutine that returns \<open>r\<close> says of the state; no
  action makes it false.\<close>

locale goroutines =
  fixes inv :: "'s \<Rightarrow> bool"
    and guar :: "'k option \<Rightarrow> 's \<Rightarrow> 's \<Rightarrow> bool"
    and post :: "'r \<Rightarrow> 's \<Rightarrow> bool"
  assumes guar_refl: "guar k s s"
    and post_stable: "inv s \<Longrightarrow> guar k s s' \<Longrightarrow> post r s \<Longrightarrow> post r s'"
begin

definition stable :: "'k option \<Rightarrow> ('s \<Rightarrow> bool) \<Rightarrow> bool" where
  "stable k P \<longleftrightarrow> (\<forall>k' s s'. (k' = None \<or> k' \<noteq> k) \<longrightarrow> inv s \<longrightarrow> guar k' s s' \<longrightarrow> P s \<longrightarrow> P s')"

lemma stable_True: "stable k (\<lambda>_. True)"
  by (simp add: stable_def)

inductive sound :: "'k option \<Rightarrow> ('s \<Rightarrow> bool) \<Rightarrow> ('r, 's) prog \<Rightarrow> bool" for k where
  Return: "(\<And>s. inv s \<Longrightarrow> P s \<Longrightarrow> post r s) \<Longrightarrow> sound k P (Return r)"
| Atomic: "(\<And>s. inv s \<Longrightarrow> P s \<Longrightarrow> inv (snd (g s)) \<and> guar k s (snd (g s))
      \<and> (\<exists>Q. stable k Q \<and> Q (snd (g s)) \<and> sound k Q (fst (g s)))) \<Longrightarrow> sound k P (Atomic g)"

text \<open>What is left of a goroutine is sound for something that holds now and that the others keep.\<close>

definition assured :: "'k option \<Rightarrow> ('r, 's) prog \<Rightarrow> 's \<Rightarrow> bool" where
  "assured k p s \<longleftrightarrow> (\<exists>P. stable k P \<and> P s \<and> sound k P p)"

lemma assuredI: "stable k P \<Longrightarrow> sound k P p \<Longrightarrow> P s \<Longrightarrow> assured k p s"
  unfolding assured_def by blast

lemma sound_always: "sound k (\<lambda>_. True) p \<Longrightarrow> assured k p s"
  using stable_True unfolding assured_def by blast

lemma assured_Return: "inv s \<Longrightarrow> assured k (Return r) s \<longleftrightarrow> post r s"
proof
  assume "inv s" "assured k (Return r) s"
  then show "post r s" unfolding assured_def by (auto elim: sound.cases)
next
  assume "post r s"
  moreover have "sound k (post r) (Return r)" by (rule sound.Return)
  moreover have "stable k (post r)" using post_stable unfolding stable_def by blast
  ultimately show "assured k (Return r) s" by (intro assuredI)
qed

lemma sound_atomic:
  assumes "\<And>s. inv s \<Longrightarrow> P s \<Longrightarrow> inv (snd (f s))" "\<And>s. inv s \<Longrightarrow> P s \<Longrightarrow> guar k s (snd (f s))"
    "\<And>s. inv s \<Longrightarrow> P s \<Longrightarrow> assured k (c (fst (f s))) (snd (f s))"
  shows "sound k P (atomic f c)"
  unfolding atomic_def using assms by (intro sound.Atomic) (simp add: split_beta assured_def)

text \<open>An action that only looks.\<close>

lemma sound_look:
  assumes "\<And>s. inv s \<Longrightarrow> P s \<Longrightarrow> assured k (c (f s)) s"
  shows "sound k P (atomic (\<lambda>s. (f s, s)) c)"
  by (rule sound_atomic) (simp_all add: assms guar_refl)

lemma sound_weaken: "sound k (\<lambda>_. True) p \<Longrightarrow> sound k P p"
  by (erule sound.cases) (auto intro: sound.intros)

definition holdsFor :: "'k option \<Rightarrow> ('r, 's) prog \<Rightarrow> 's \<Rightarrow> bool" where
  "holdsFor k p s \<longleftrightarrow> (case p of Return r \<Rightarrow> post r s | Atomic g \<Rightarrow> assured k p s)"

lemma holdsFor_assured: "inv s \<Longrightarrow> holdsFor k p s \<longleftrightarrow> assured k p s"
  by (simp add: holdsFor_def assured_Return split: prog.split)

definition pool_inv :: "('k, 'r, 's) pool \<Rightarrow> 's \<Rightarrow> bool" where
  "pool_inv ts s \<longleftrightarrow> inv s \<and> (\<forall>(k, p) \<in> set ts. holdsFor k p s) \<and> apart ts"

lemma pool_inv_inv: "pool_inv ts s \<Longrightarrow> inv s" and pool_inv_apart: "pool_inv ts s \<Longrightarrow> apart ts"
  by (simp_all add: pool_inv_def)

lemma assured_other:
  "assured k p s \<Longrightarrow> inv s \<Longrightarrow> guar k' s s' \<Longrightarrow> k' = None \<or> k' \<noteq> k \<Longrightarrow> assured k p s'"
  unfolding assured_def stable_def by blast

lemma assured_act:
  assumes "assured k (Atomic g) s" "inv s"
  shows "inv (snd (g s)) \<and> guar k s (snd (g s)) \<and> assured k (fst (g s)) (snd (g s))"
  using assms unfolding assured_def by (blast elim: sound.cases)

lemma holdsFor_other:
  assumes "holdsFor k p s" "inv s" "guar k' s s'" "busy p \<Longrightarrow> k' = None \<or> k' \<noteq> k"
  shows "holdsFor k p s'"
  using assms assured_other [of k p s k' s'] post_stable [of s k' s']
  by (cases p) (auto simp: holdsFor_def)

lemma pool_inv_Nil: "inv s \<Longrightarrow> pool_inv [] s"
  by (simp add: pool_inv_def apart_def)

lemma pool_env: "pool_inv ts s \<Longrightarrow> inv s' \<Longrightarrow> guar None s s' \<Longrightarrow> pool_inv ts s'"
  unfolding pool_inv_def using holdsFor_other by blast

lemma pool_spawn:
  assumes "pool_inv ts s" "assured k p s" "k \<noteq> None \<Longrightarrow> idle k ts"
  shows "pool_inv (ts @ [(k, p)]) s"
  using assms apart_append [of ts k p] unfolding pool_inv_def by (auto simp: holdsFor_assured)

lemma pool_resume:
  assumes inv: "pool_inv ts s" and i: "i < length ts" "ts ! i = (k, Atomic g)"
  shows "pool_inv (ts[i := (k, fst (g s))]) (snd (g s))"
proof -
  have parts: "inv s" "\<forall>(k, p) \<in> set ts. holdsFor k p s" "apart ts"
    using inv by (simp_all add: pool_inv_def)
  have "assured k (Atomic g) s" using parts(1,2) nth_mem [OF i(1)] i(2) holdsFor_assured by auto
  note act = assured_act [OF this parts(1)]
  have "holdsFor k' p (snd (g s))" if j: "j < length ts" "ts[i := (k, fst (g s))] ! j = (k', p)" for j k' p
  proof (cases "j = i")
    case True
    with j act i(1) show ?thesis by (simp add: holdsFor_assured)
  next
    case False
    then have tsj: "ts ! j = (k', p)" using j by simp
    then have "busy p \<Longrightarrow> k = None \<or> k \<noteq> k'"
      using apartD [OF parts(3) i(1) j(1)] i(2) False by auto
    moreover have "holdsFor k' p s" using parts(2) nth_mem [OF j(1)] tsj by auto
    ultimately show ?thesis using holdsFor_other parts(1) act by blast
  qed
  then have "\<forall>(k, p) \<in> set (ts[i := (k, fst (g s))]). holdsFor k p (snd (g s))"
    by (auto simp: in_set_conv_nth)
  then show ?thesis using act apart_update [OF parts(3) i(1), of "fst (g s)"] i(2) by (simp add: pool_inv_def)
qed

lemma pool_answers: "pool_inv ts s \<Longrightarrow> (k, Return r) \<in> set ts \<Longrightarrow> post r s"
  unfolding pool_inv_def holdsFor_def by fastforce

lemma pool_resume_step: "pool_inv ts s \<Longrightarrow> pool_inv (fst (resume i (ts, s))) (snd (resume i (ts, s)))"
proof (cases "i < length ts")
  case True
  moreover assume "pool_inv ts s"
  moreover obtain k p where "ts ! i = (k, p)" by fastforce
  ultimately show ?thesis using pool_resume [of ts s i k] by (cases p) (simp_all add: resume_def split_beta)
qed (simp add: resume_def)

end

end
