(* ===== verification/App_Threads.thy ===== *)
theory App_Threads
  imports Go_Threads App_Invariant
begin

text \<open>
  Requests and frames statement by statement. The definitions of Http\_Handlers and Ws\_Hub take a handler
  as one step; here a handler is a goroutine whose actions are the single statements it sends to the
  database and its single accesses to the hub, with whatever the other goroutines do in between. Run alone
  it is the handler as it was.
\<close>

section \<open>Actions\<close>

definition query :: "(Store \<Rightarrow> 'x) \<Rightarrow> ('x \<Rightarrow> ('r, App) prog) \<Rightarrow> ('r, App) prog" where
  "query f = atomic (\<lambda>a. (f (app_store a), a))"

definition exec :: "(Store \<Rightarrow> 'x \<times> Store) \<Rightarrow> ('x \<Rightarrow> ('r, App) prog) \<Rightarrow> ('r, App) prog" where
  "exec f = atomic (\<lambda>a. let (x, st) = f (app_store a) in (x, setStore st a))"

definition onHub :: "(Hub \<Rightarrow> Hub) \<Rightarrow> ('r, App) prog \<Rightarrow> ('r, App) prog" where
  "onHub f p = atomic (\<lambda>a. ((), a\<lparr>app_hub := f (app_hub a)\<rparr>)) (\<lambda>_. p)"

text \<open>The user of a connection never changes, so a statement may read it when it is sent.\<close>

definition queryAs :: "connref \<Rightarrow> (uuid \<Rightarrow> Store \<Rightarrow> 'x) \<Rightarrow> ('x \<Rightarrow> ('r, App) prog) \<Rightarrow> ('r, App) prog" where
  "queryAs c f = atomic (\<lambda>a. (f (userOf (app_hub a) c) (app_store a), a))"

definition execAs :: "connref \<Rightarrow> (uuid \<Rightarrow> Store \<Rightarrow> 'x \<times> Store) \<Rightarrow> ('x \<Rightarrow> ('r, App) prog) \<Rightarrow> ('r, App) prog" where
  "execAs c f = atomic (\<lambda>a. let (x, st) = f (userOf (app_hub a) c) (app_store a) in (x, setStore st a))"

lemmas actions = query_def exec_def onHub_def queryAs_def execAs_def

section \<open>Requests\<close>

type_synonym handler = "(Response option, App) prog"

abbreviation answer :: "Response \<Rightarrow> handler" where
  "answer resp \<equiv> Return (Some resp)"

definition authenticate :: "libs \<Rightarrow> string option \<Rightarrow> string \<Rightarrow> int \<Rightarrow> (User \<Rightarrow> handler) \<Rightarrow> handler" where
  "authenticate L tok secret now next =
     (case tok of
        None \<Rightarrow> Return None
      | Some token \<Rightarrow>
          if token = [] then answer (httpError ''missing token'' 401)
          else case ParseToken L now token secret of
            None \<Rightarrow> answer (httpError ''invalid token'' 401)
          | Some claims \<Rightarrow>
              (case lib_parseUUID L (claims_UserID claims) of
                 None \<Rightarrow> answer (httpError ''invalid token'' 401)
               | Some userID \<Rightarrow>
                   query (GetUserByID userID) (\<lambda>res. case res of
                      Inl _ \<Rightarrow> answer (httpError ''user not found'' 401)
                    | Inr user \<Rightarrow> next user)))"

definition createProg :: "libs \<Rightarrow> chance \<Rightarrow> reqContext \<Rightarrow> Request \<Rightarrow> handler" where
  "createProg L ch ctx r =
     (case UserFromContext ctx of
        None \<Rightarrow> answer (respondError 401 ''unauthorized'')
      | Some user \<Rightarrow>
          (case decodeRoom (req_Body r) of
             None \<Rightarrow> answer (respondError 400 ''invalid payload'')
           | Some req \<Rightarrow>
               if length (cr_Name req) < 2 then answer (respondError 400 ''room name too short'')
               else exec (CreateRoom (lib_sql L) (new_ID ch) (db_now ch) (cr_Name req) (cr_IsPrivate req) (user_ID user))
                 (\<lambda>res. case res of
                    Inl _ \<Rightarrow> answer (respondError 409 ''room already exists'')
                  | Inr room \<Rightarrow>
                      exec (AddRoomMember (lib_sql L) (db_now ch) (row_ID room) (user_ID user) ''owner'')
                        (\<lambda>_. answer (respondJSON 201 (RoomBody room))))))"

definition historyProg :: "libs \<Rightarrow> chance \<Rightarrow> reqContext \<Rightarrow> string \<Rightarrow> Request \<Rightarrow> handler" where
  "historyProg L ch ctx roomId r =
     (case UserFromContext ctx of
        None \<Rightarrow> answer (respondError 401 ''unauthorized'')
      | Some user \<Rightarrow>
          (case lib_parseUUID L roomId of
             None \<Rightarrow> answer (respondError 400 ''invalid room id'')
           | Some roomID \<Rightarrow>
               query (IsRoomMember roomID (user_ID user)) (\<lambda>member. case member of
                 Inr True \<Rightarrow>
                   query (ListRoomMessages roomID (limitParam 50 r) (parseTimeParam (time_now ch) (queryGet r ''before'')))
                     (\<lambda>res. case res of
                        Inl _ \<Rightarrow> answer (respondError 500 ''failed to load messages'')
                      | Inr messages \<Rightarrow> answer (respondJSON 200 (MessagesBody (slice messages))))
               | _ \<Rightarrow> answer (respondError 403 ''not a member''))))"

definition serveProg :: "libs \<Rightarrow> string \<Rightarrow> chance \<Rightarrow> Request \<Rightarrow> handler" where
  "serveProg L secret ch r =
     authenticate L (middlewareExtractToken (lib_unicode L) r) secret (time_now ch) (\<lambda>user.
       if \<not> upgrade_ok ch then answer (httpError ''Bad Request'' 400)
       else onHub (accept (time_now ch) user) (answer \<lparr>resp_Status = 101, resp_Body = NoBody\<rparr>))"

text \<open>The other handlers send at most one statement.\<close>

fun endpointProg :: "libs \<Rightarrow> RouterDeps \<Rightarrow> chance \<Rightarrow> reqContext \<Rightarrow> Request \<Rightarrow> endpoint \<Rightarrow> handler" where
  "endpointProg L d ch ctx r CreateE = createProg L ch ctx r"
| "endpointProg L d ch ctx r (RoomHistoryE roomId) = historyProg L ch ctx roomId r"
| "endpointProg L d ch ctx r WsE = serveProg L (Secret d) ch r"
| "endpointProg L d ch ctx r ep = atomic (endpoints L d ch ctx r ep) Return"

definition requestProg :: "libs \<Rightarrow> RouterDeps \<Rightarrow> chance \<Rightarrow> Request \<Rightarrow> handler" where
  "requestProg L d ch r =
     (case corsHandler L (CORSOrigins d) r of
        Some preflight \<Rightarrow> answer preflight
      | None \<Rightarrow>
          (case routes (req_Path r) of
             [] \<Rightarrow> answer \<lparr>resp_Status = 404, resp_Body = PlainText ''404 page not found''\<rparr>
           | rs \<Rightarrow>
               (case filter (\<lambda>(m, _). m = None \<or> m = Some (req_Method r)) rs of
                  [] \<Rightarrow> answer \<lparr>resp_Status = 405, resp_Body = NoBody\<rparr>
                | (_, ep) # _ \<Rightarrow>
                    if protected ep
                    then authenticate L (extractToken (lib_unicode L) r) (Secret d) (time_now ch)
                           (\<lambda>user. endpointProg L d ch (WithUser [] user) r ep)
                    else endpointProg L d ch [] r ep)))"

section \<open>Frames\<close>

text \<open>A frame has no answer. Its sends to \<open>broadcast\<close>, which block while the channel is full, are again left in
  \<open>conn_pending\<close>: the reader's goroutine is not through with the frame until \<open>push\<close> has moved them all, and no
  frame of the connection begins before (\<open>own\<close> asks for it). A program below that has returned has made its
  last access to database and hub but for these sends.\<close>

abbreviation finished :: handler where
  "finished \<equiv> Return None"

definition joinProg :: "wsenv \<Rightarrow> int \<Rightarrow> connref \<Rightarrow> string \<Rightarrow> handler" where
  "joinProg e now c roomID =
     (case parseUUID e roomID of
        None \<Rightarrow> onHub (enqueueTo c (errorEvent ''invalid room'')) finished
      | Some parsed \<Rightarrow>
          execAs c (\<lambda>u. AddRoomMember (ws_sql e) now parsed u ''member'') (\<lambda>_.
            onHub (\<lambda>h. modConn c (\<lambda>cn. cn\<lparr>conn_rooms := List.insert parsed (conn_rooms cn)\<rparr>) (SubscribeRoom parsed c h))
              (onHub (\<lambda>h. enqueueTo c \<lparr>ev_Type = ''room_joined'', ev_Data = RoomJoinData
                 \<lparr>join_RoomID = parsed, join_UserID = userOf h c\<rparr>\<rparr> h) finished)))"

definition leaveProg :: "wsenv \<Rightarrow> connref \<Rightarrow> string \<Rightarrow> handler" where
  "leaveProg e c roomID =
     (case parseUUID e roomID of
        None \<Rightarrow> finished
      | Some parsed \<Rightarrow>
          execAs c (RemoveRoomMember parsed) (\<lambda>_.
            onHub (\<lambda>h. UnsubscribeRoom parsed c (modConn c (\<lambda>cn. cn\<lparr>conn_rooms := removeAll parsed (conn_rooms cn)\<rparr>) h))
              finished))"

definition roomMessageProg :: "wsenv \<Rightarrow> uuid \<Rightarrow> int \<Rightarrow> connref \<Rightarrow> ClientEvent \<Rightarrow> string \<Rightarrow> handler" where
  "roomMessageProg e new now c msg body =
     (case parseUUID e (ce_RoomID msg) of
        None \<Rightarrow> finished
      | Some roomID \<Rightarrow>
          queryAs c (IsRoomMember roomID) (\<lambda>member. case member of
            Inr True \<Rightarrow>
              execAs c (\<lambda>u. CreateMessage (ws_sql e) new now (Some roomID) u None body (ce_AttachmentURL msg) MessageTypeText)
                (\<lambda>res. case res of
                   Inl _ \<Rightarrow> finished
                 | Inr message \<Rightarrow>
                     onHub (\<lambda>h. ws_broadcastRoom c roomID
                       (messageEvent (payloadOf (conn_user (connAt h c)) (Some roomID) None message)) None h) finished)
          | _ \<Rightarrow> onHub (enqueueTo c (errorEvent ''not a member'')) finished))"

definition dmProg :: "wsenv \<Rightarrow> uuid \<Rightarrow> int \<Rightarrow> connref \<Rightarrow> ClientEvent \<Rightarrow> string \<Rightarrow> handler" where
  "dmProg e new now c msg body =
     (case parseUUID e (ce_RecipientID msg) of
        None \<Rightarrow> finished
      | Some recipientID \<Rightarrow>
          execAs c (\<lambda>u. CreateMessage (ws_sql e) new now None u (Some recipientID) body (ce_AttachmentURL msg) MessageTypeText)
            (\<lambda>res. case res of
               Inl _ \<Rightarrow> finished
             | Inr message \<Rightarrow>
                 onHub (\<lambda>h. let event = messageEvent (payloadOf (conn_user (connAt h c)) None (Some recipientID) message)
                   in ws_broadcastUser c (userOf h c) event None (ws_broadcastUser c recipientID event None h)) finished))"

definition messageProg :: "wsenv \<Rightarrow> uuid \<Rightarrow> int \<Rightarrow> connref \<Rightarrow> ClientEvent \<Rightarrow> handler" where
  "messageProg e new now c msg =
     (let body = trimSpace (ce_Body msg) in
      if body = [] \<and> ce_AttachmentURL msg = [] then finished
      else if ce_RoomID msg \<noteq> [] then roomMessageProg e new now c msg body
      else if ce_RecipientID msg \<noteq> [] then dmProg e new now c msg body
      else finished)"

definition eventProg :: "wsenv \<Rightarrow> uuid \<Rightarrow> int \<Rightarrow> connref \<Rightarrow> ClientEvent \<Rightarrow> handler" where
  "eventProg e new now c msg =
     (if ce_Type msg = ''join_room'' then joinProg e now c (ce_RoomID msg)
      else if ce_Type msg = ''leave_room'' then leaveProg e c (ce_RoomID msg)
      else if ce_Type msg = ''message'' then messageProg e new now c msg
      else if ce_Type msg = ''typing'' then onHub (handleTyping e c msg) finished
      else if ce_Type msg = ''read'' then onHub (handleRead e now c msg) finished
      else finished)"

definition hangup :: "int \<Rightarrow> connref \<Rightarrow> Hub \<Rightarrow> Hub" where
  "hangup now c h = modConn c (\<lambda>cn. cn\<lparr>conn_reading := False, conn_open := False\<rparr>) (removeConn now c h)"

definition frameProg :: "wsenv \<Rightarrow> uuid \<Rightarrow> int \<Rightarrow> connref \<Rightarrow> ClientEvent option \<Rightarrow> handler" where
  "frameProg e new now c frame =
     atomic (\<lambda>a. (conn_open (connAt (app_hub a) c), a)) (\<lambda>opened. case (if opened then frame else None) of
       Some msg \<Rightarrow> eventProg e new now c msg
     | None \<Rightarrow> onHub (hangup now c) finished)"

section \<open>Run alone, a goroutine is the handler as one step\<close>

lemma run_actions [simp]:
  "run (query f k) a = run (k (f (app_store a))) a"
  "run (exec w j) a = run (j (fst (w (app_store a)))) (setStore (snd (w (app_store a))) a)"
  "run (onHub g p) a = run p (a\<lparr>app_hub := g (app_hub a)\<rparr>)"
  "run (queryAs c f' k') a = run (k' (f' (userOf (app_hub a) c) (app_store a))) a"
  "run (execAs c w' j') a = run (j' (fst (w' (userOf (app_hub a) c) (app_store a))))
     (setStore (snd (w' (userOf (app_hub a) c) (app_store a))) a)"
  by (simp_all add: actions split_beta)

lemma run_authenticate:
  "run (authenticate L (extractToken (lib_unicode L) r) secret now next) a =
     (case Require L secret now r (app_store a) of
        Panicked \<Rightarrow> (None, a) | Rejected resp \<Rightarrow> (Some resp, a) | Authorized user \<Rightarrow> run (next user) a)"
  by (simp add: authenticate_def Require_def split: option.split sum.split)

lemma run_create: "run (createProg L ch ctx r) a = (let (x, a') = Create L ch ctx r a in (Some x, a'))"
  by (simp add: createProg_def Create_def Let_def setStore_def split: option.split sum.split prod.split)

lemma run_history: "run (historyProg L ch ctx roomId r) a = (Some (RoomHistory L ch ctx roomId r a), a)"
  by (simp add: historyProg_def RoomHistory_def Let_def split: option.split sum.split bool.split)

lemma same_extractor: "middlewareExtractToken u r = extractToken u r"
  by (simp add: middlewareExtractToken_def extractToken_def)

lemma run_serve: "run (serveProg L secret ch r) a =
    (let (resp, h) = ServeWS L secret ch r (app_hub a) in (resp, a\<lparr>app_hub := h\<rparr>))"
  by (simp add: serveProg_def same_extractor run_authenticate ServeWS_Require split: authResult.split)

lemma run_endpoint: "run (endpointProg L d ch ctx r ep) a = endpoints L d ch ctx r ep a"
  by (cases ep) (simp_all add: run_create run_history run_serve endpoints_def split_beta Let_def)

lemma run_requestProg: "run (requestProg L d ch r) a = NewRouter L d ch r a"
  by (simp add: requestProg_def NewRouter_def run_authenticate run_endpoint
      split: option.split list.split authResult.split prod.split)

lemma run_events:
  "run (joinProg e now c roomID) a = (None, a\<lparr>app_hub := ws_joinRoom e now c roomID (app_hub a)\<rparr>)"
  "run (leaveProg e c roomID) a = (None, a\<lparr>app_hub := ws_leaveRoom e c roomID (app_hub a)\<rparr>)"
  "run (roomMessageProg e new now c msg body) a = (None, a\<lparr>app_hub := sendRoomMessage e new now c msg body (app_hub a)\<rparr>)"
  "run (dmProg e new now c msg body) a = (None, a\<lparr>app_hub := sendDMMessage e new now c msg body (app_hub a)\<rparr>)"
  by (simp_all add: joinProg_def ws_joinRoom_def leaveProg_def ws_leaveRoom_def roomMessageProg_def sendRoomMessage_def
      dmProg_def sendDMMessage_def setStore_def Let_def split: option.split sum.split bool.split prod.split)

lemma run_eventProg:
  "run (eventProg e new now c msg) a = (None, a\<lparr>app_hub := handleClientEvent e new now c msg (app_hub a)\<rparr>)"
  by (simp add: eventProg_def handleClientEvent_def messageProg_def handleMessage_def run_events Let_def)

lemma run_frameProg:
  assumes "conn_reading (connAt (app_hub a) c)" "conn_pending (connAt (app_hub a) c) = []"
  shows "run (frameProg e new now c frame) a = (None, a\<lparr>app_hub := ws_readLoop e new now c frame (app_hub a)\<rparr>)"
  using assms by (simp add: frameProg_def ws_readLoop_def run_eventProg hangup_def split: option.split)

end
