(* ===== verification/App_Answers.thy ===== *)
theory App_Answers
  imports App_Invariant
begin

text \<open>
  Accounts, rooms and messages are never deleted and never changed, and what a handler shows of them in its
  answer are rows of the tables.
\<close>

section \<open>Tables that only grow\<close>

definition grown :: "Store \<Rightarrow> Store \<Rightarrow> bool" where
  "grown st st' \<longleftrightarrow> set (st_users st) \<subseteq> set (st_users st') \<and> set (st_rooms st) \<subseteq> set (st_rooms st')
     \<and> set (st_messages st) \<subseteq> set (st_messages st')"

lemma grown_refl [simp]: "grown st st"
  by (simp add: grown_def)

lemma grown_trans: "grown a b \<Longrightarrow> grown b c \<Longrightarrow> grown a c"
  by (auto simp: grown_def)

lemma store_run_grown: "grown st (store_run q op st)"
proof (cases op)
  case (OpDefaultRoom new creator now)
  then show ?thesis using EnsureDefaultRoom_cases [of q new creator now st] by (auto simp: CreateRoom_def Let_def grown_def)
qed (auto simp: CreateUser_def CreateRoom_def AddRoomMember_def RemoveRoomMember_def UpdateRoomReadAt_def
    CreateMessage_def Let_def grown_def)

lemma store_steps_grown: "store_steps q a b \<Longrightarrow> grown a b"
  unfolding store_steps_def
  by (induction rule: rtranclp_induct) (use store_run_grown grown_trans in fastforce)+

section \<open>Rows in answers\<close>

text \<open>A message is shown with the name and the avatar of its sender, which its row does not hold.\<close>

definition storedMessage :: "Store \<Rightarrow> Message \<Rightarrow> bool" where
  "storedMessage st m \<longleftrightarrow> m\<lparr>SenderName := [], SenderAvatar := []\<rparr> \<in>
     (\<lambda>row. row\<lparr>SenderName := [], SenderAvatar := []\<rparr>) ` set (st_messages st)"

definition rowsOf :: "'a list option \<Rightarrow> 'a set" where
  "rowsOf xs = (case xs of None \<Rightarrow> {} | Some xs \<Rightarrow> set xs)"

fun rowsIn :: "Payload \<Rightarrow> Store \<Rightarrow> bool" where
  "rowsIn (TokenBody token user) st \<longleftrightarrow> user \<in> fst ` set (st_users st)"
| "rowsIn (UserBody user) st \<longleftrightarrow> user \<in> fst ` set (st_users st)"
| "rowsIn (UsersBody users) st \<longleftrightarrow> rowsOf users \<subseteq> fst ` set (st_users st)"
| "rowsIn (RoomsBody rooms) st \<longleftrightarrow> rowsOf rooms \<subseteq> set (st_rooms st)"
| "rowsIn (RoomBody room) st \<longleftrightarrow> room \<in> set (st_rooms st)"
| "rowsIn (MessagesBody messages) st \<longleftrightarrow> (\<forall>m\<in>rowsOf messages. storedMessage st m)"
| "rowsIn _ st \<longleftrightarrow> True"

lemma storedMessage_grown: "grown st st' \<Longrightarrow> storedMessage st m \<Longrightarrow> storedMessage st' m"
  unfolding grown_def storedMessage_def by blast

lemma rowsIn_grown: "grown st st' \<Longrightarrow> rowsIn p st \<Longrightarrow> rowsIn p st'"
  using storedMessage_grown [of st st'] by (cases p) (simp_all add: grown_def, blast+)

lemma rowsOf_slice [simp]: "rowsOf (slice xs) = set xs"
  by (simp add: rowsOf_def slice_def)

text \<open>The answers of the packages outside the repository: the CORS middleware and the file server.\<close>

definition foreign :: "libs \<Rightarrow> Response \<Rightarrow> bool" where
  "foreign L resp \<longleftrightarrow> (\<exists>origins r. corsHandler L origins r = Some resp) \<or> (\<exists>files r. resp = fileServer L files r)"

definition trueAnswer :: "libs \<Rightarrow> Response option \<Rightarrow> App \<Rightarrow> bool" where
  "trueAnswer L answer a = (case answer of None \<Rightarrow> True | Some resp \<Rightarrow> foreign L resp \<or> rowsIn (resp_Body resp) (app_store a))"

lemma trueAnswer_simps [simp]:
  "trueAnswer L None a"
  "trueAnswer L (Some (respondError status m)) a"
  "trueAnswer L (Some (httpError m status)) a"
  "trueAnswer L (Some \<lparr>resp_Status = status, resp_Body = PlainText t\<rparr>) a"
  "trueAnswer L (Some \<lparr>resp_Status = status, resp_Body = NoBody\<rparr>) a"
  "trueAnswer L (Some (respondJSON status (StatusBody m))) a"
  "trueAnswer L (Some (respondJSON status (URLBody m))) a"
  by (simp_all add: trueAnswer_def respondError_def respondJSON_def httpError_def)

lemma trueAnswer_rows: "rowsIn p (app_store a) \<Longrightarrow> trueAnswer L (Some (respondJSON status p)) a"
  by (simp add: trueAnswer_def respondJSON_def)

lemma trueAnswer_grown: "grown (app_store a) (app_store a') \<Longrightarrow> trueAnswer L answer a \<Longrightarrow> trueAnswer L answer a'"
  using rowsIn_grown by (auto simp: trueAnswer_def split: option.splits)

section \<open>Queries answer with rows\<close>

lemma limitRows_set: "limitRows n xs = Inr ys \<Longrightarrow> set ys \<subseteq> set xs"
  by (auto simp: limitRows_def dest: in_set_takeD split: if_splits)

lemma listed_messages:
  assumes "\<And>m. m \<in> set ms \<Longrightarrow> m \<in> set (st_messages st)" "limitRows n (orderBy newestFirst (joinSender st ms)) = Inr out"
    "m \<in> set out"
  shows "storedMessage st m"
proof -
  have "m \<in> set (joinSender st ms)" using limitRows_set [OF assms(2)] assms(3) by auto
  then obtain row and u :: User where "row \<in> set ms" "m = row\<lparr>SenderName := Username u, SenderAvatar := User.AvatarURL u\<rparr>"
    by (auto simp: joinSender_def)
  then show ?thesis using assms(1) by (auto simp: storedMessage_def)
qed

lemma query_rows:
  "GetUserByEmail q email st = Inr (user, h) \<Longrightarrow> user \<in> fst ` set (st_users st)"
  "SearchUsers q term n st = Inr users \<Longrightarrow> set users \<subseteq> fst ` set (st_users st)"
  "ListRooms uid st = Inr rooms \<Longrightarrow> set rooms \<subseteq> set (st_rooms st)"
  "ListRoomMessages rid n before st = Inr messages \<Longrightarrow> m \<in> set messages \<Longrightarrow> storedMessage st m"
  "ListDMs uid peer n before st = Inr messages \<Longrightarrow> m \<in> set messages \<Longrightarrow> storedMessage st m"
proof -
  show "GetUserByEmail q email st = Inr (user, h) \<Longrightarrow> user \<in> fst ` set (st_users st)"
    by (force simp: GetUserByEmail_def dest: firstRow_mem split: if_splits)
  show "SearchUsers q term n st = Inr users \<Longrightarrow> set users \<subseteq> fst ` set (st_users st)"
    by (fastforce simp: SearchUsers_def Let_def dest: limitRows_set split: if_splits)
  show "ListRooms uid st = Inr rooms \<Longrightarrow> set rooms \<subseteq> set (st_rooms st)"
    by (auto simp: ListRooms_def split: if_splits)
  show "ListRoomMessages rid n before st = Inr messages \<Longrightarrow> m \<in> set messages \<Longrightarrow> storedMessage st m"
    by (auto simp: ListRoomMessages_def Let_def intro: listed_messages [rotated] split: if_splits)
  show "ListDMs uid peer n before st = Inr messages \<Longrightarrow> m \<in> set messages \<Longrightarrow> storedMessage st m"
    by (auto simp: ListDMs_def Let_def intro: listed_messages [rotated] split: if_splits)
qed

lemma created_rows:
  "CreateUser q new now e n h av st = (Inr user, st') \<Longrightarrow> user \<in> fst ` set (st_users st')"
  "CreateRoom q new now n p u st = (Inr room, st') \<Longrightarrow> room \<in> set (st_rooms st')"
  by (auto simp: CreateUser_def CreateRoom_def Let_def split: if_splits)

section \<open>Handlers of one statement\<close>

lemma handlers_true:
  "trueAnswer L (Some (fst (Register L d ch r a))) (snd (Register L d ch r a))"
  "trueAnswer L (Some (Login L d ch r a)) a"
  "trueAnswer L (Some (Search L r a)) a"
  "trueAnswer L (Some (rooms_List ctx a)) a"
  "trueAnswer L (Some (fst (Join L ch ctx roomId a))) (snd (Join L ch ctx roomId a))"
  "trueAnswer L (Some (fst (Leave L ctx roomId a))) (snd (Leave L ctx roomId a))"
  "trueAnswer L (Some (DMHistory L ch ctx userId r a)) a"
  "trueAnswer L (Some (fst (Upload L d ch ctx r a))) (snd (Upload L d ch ctx r a))"
proof -
  show "trueAnswer L (Some (fst (Register L d ch r a))) (snd (Register L d ch r a))"
    by (auto simp: Register_def setStore_def intro!: trueAnswer_rows dest: created_rows split: option.split sum.split prod.split)
  show "trueAnswer L (Some (Login L d ch r a)) a"
    by (auto simp: Login_def intro!: trueAnswer_rows dest: query_rows(1) split: option.split sum.split prod.split)
  show "trueAnswer L (Some (Search L r a)) a"
    by (auto simp: Search_def Let_def intro!: trueAnswer_rows dest: query_rows(2) split: sum.split)
  show "trueAnswer L (Some (rooms_List ctx a)) a"
    by (auto simp: rooms_List_def intro!: trueAnswer_rows dest: query_rows(3) split: option.split sum.split)
  show "trueAnswer L (Some (fst (Join L ch ctx roomId a))) (snd (Join L ch ctx roomId a))"
    by (auto simp: Join_def split: option.split prod.split)
  show "trueAnswer L (Some (fst (Leave L ctx roomId a))) (snd (Leave L ctx roomId a))"
    by (auto simp: Leave_def split: option.split prod.split)
  show "trueAnswer L (Some (DMHistory L ch ctx userId r a)) a"
    by (auto simp: DMHistory_def Let_def intro!: trueAnswer_rows dest: query_rows(5) split: option.split sum.split)
  show "trueAnswer L (Some (fst (Upload L d ch ctx r a))) (snd (Upload L d ch ctx r a))"
    by (auto simp: Upload_def Let_def split: option.split list.split)
qed

lemma served_file: "trueAnswer L (Some (fileServer L files r)) a"
  by (auto simp: trueAnswer_def foreign_def)

lemma preflight_answer: "corsHandler L origins r = Some resp \<Longrightarrow> trueAnswer L (Some resp) a"
  by (auto simp: trueAnswer_def foreign_def)

end
