(* ===== verification/App_Sound.thy ===== *)
theory App_Sound
  imports App_Threads App_Answers Ws_Progress
begin

text \<open>
  The rely-guarantee argument for requests and frames: every action of every goroutine keeps the invariant,
  the rows that others have read, and the readers of other connections; and what a request answers is true of
  the tables when it answers, and stays so.
\<close>

section \<open>What an action keeps\<close>

text \<open>A reader relies on being a reader with nothing to send; everyone on the accounts to stay.\<close>

definition mine :: "connref \<Rightarrow> Hub \<Rightarrow> bool" where
  "mine c h \<longleftrightarrow> conn_reading (connAt h c) \<and> conn_pending (connAt h c) = []"

definition accounts :: "App \<Rightarrow> User set" where
  "accounts a = fst ` set (st_users (app_store a))"

definition guarantee :: "connref option \<Rightarrow> App \<Rightarrow> App \<Rightarrow> bool" where
  "guarantee k a a' \<longleftrightarrow> grown (app_store a) (app_store a')
     \<and> (\<forall>c. k \<noteq> Some c \<longrightarrow> mine c (app_hub a) \<longrightarrow> mine c (app_hub a'))"

interpretation gs: goroutines app_inv guarantee "trueAnswer L" for L
  by unfold_locales (auto simp: guarantee_def intro: trueAnswer_grown)

lemma mine_simps [simp]:
  "mine c (h\<lparr>hub_store := st\<rparr>) = mine c h"
  "mine c (h\<lparr>hub_users := us\<rparr>) = mine c h"
  "mine c (h\<lparr>hub_rooms := rs\<rparr>) = mine c h"
  "mine c (h\<lparr>hub_broadcast := bs\<rparr>) = mine c h"
  "mine c (enqueueTo d ev h) = mine c h"
  "mine c (enqueueAll cs ev h) = mine c h"
  "mine c (SubscribeRoom r d h) = mine c h"
  "mine c (UnsubscribeRoom r d h) = mine c h"
  by (simp_all add: mine_def enqueueTo_def modConn_def enqueue_def SubscribeRoom_def UnsubscribeRoom_takeOut)

lemma mine_modConn:
  "(\<And>x. conn_reading (f x) = conn_reading x) \<Longrightarrow> (\<And>x. conn_pending (f x) = conn_pending x) \<Longrightarrow>
    mine d (modConn c f h) = mine d h"
  by (simp add: mine_def modConn_def)

lemma mine_reading: "mine c h \<Longrightarrow> conn_reading (connAt h c)"
  by (simp add: mine_def)

lemma guarantee_store: "store_steps q (app_store a) st \<Longrightarrow> guarantee k a (setStore st a)"
  using store_steps_grown by (auto simp: guarantee_def setStore_def)

lemma stable_facts:
  "gs.stable (Some c) (\<lambda>a. mine c (app_hub a))" "gs.stable k (\<lambda>a. user \<in> accounts a)"
  "gs.stable k (\<lambda>a. room \<in> set (st_rooms (app_store a)))"
  unfolding gs.stable_def guarantee_def accounts_def grown_def by blast+

section \<open>Requests are sound\<close>

lemma app_inv_hub: "app_inv a \<Longrightarrow> hub_inv h \<Longrightarrow> turn q (app_hub a) h \<Longrightarrow> app_inv (a\<lparr>app_hub := h\<rparr>)"
  using turn_known [of q "app_hub a" h] turn_ok [of q "app_hub a" h] by (simp add: app_inv_def)

lemma sound_answer: "(\<And>a. P a \<Longrightarrow> trueAnswer L x a) \<Longrightarrow> gs.sound L k P (Return x)"
  by (rule gs.sound.Return)

lemma sound_exec:
  assumes "\<And>st. store_steps q st (snd (f st))"
    "\<And>a. app_inv (setStore (snd (f (app_store a))) a) \<Longrightarrow> P a \<Longrightarrow>
       gs.assured L None (c (fst (f (app_store a)))) (setStore (snd (f (app_store a))) a)"
  shows "gs.sound L None P (exec f c)"
  unfolding exec_def
proof (rule gs.sound_atomic; simp add: split_beta)
  fix a assume a: "app_inv a" "P a"
  note steps = assms(1) [of "app_store a"]
  show inv: "app_inv (setStore (snd (f (app_store a))) a)" by (rule app_inv_setStore [OF a(1) steps])
  show "guarantee None a (setStore (snd (f (app_store a))) a)" by (rule guarantee_store [OF steps])
  show "gs.assured L None (c (fst (f (app_store a)))) (setStore (snd (f (app_store a))) a)"
    by (rule assms(2) [OF inv a(2)])
qed

lemma sound_query:
  "(\<And>a. app_inv a \<Longrightarrow> gs.assured L None (c (f (app_store a))) a) \<Longrightarrow> gs.sound L None P (query f c)"
  unfolding query_def by (rule gs.sound_look)

lemma sound_authenticate:
  assumes "\<And>user. gs.sound L None (\<lambda>a. user \<in> accounts a) (next user)"
  shows "gs.sound L None (\<lambda>_. True) (authenticate L tok secret now next)"
proof -
  have "gs.assured L None (next user) a" if "GetUserByID uid (app_store a) = Inr user" for uid user a
    using GetUserByID_known [OF that] by (intro gs.assuredI [OF stable_facts(2) assms]) (simp add: accounts_def)
  then show ?thesis
    by (auto simp: authenticate_def gs.assured_Return intro!: sound_answer sound_query split: option.split sum.split)
qed

lemma sound_createProg: "gs.sound L None P (createProg L ch ctx r)"
proof -
  have member: "gs.sound L None (\<lambda>a. room \<in> set (st_rooms (app_store a)))
      (exec (AddRoomMember (lib_sql L) now rid uid role) (\<lambda>_. answer (respondJSON 201 (RoomBody room))))" for room now rid uid role
  proof (rule sound_exec [where q = "lib_sql L"])
    fix a assume "app_inv (setStore (snd (AddRoomMember (lib_sql L) now rid uid role (app_store a))) a)"
      "room \<in> set (st_rooms (app_store a))"
    moreover have "grown (app_store a) (snd (AddRoomMember (lib_sql L) now rid uid role (app_store a)))"
      by (rule store_steps_grown [of "lib_sql L"]) simp
    ultimately show "gs.assured L None (answer (respondJSON 201 (RoomBody room)))
        (setStore (snd (AddRoomMember (lib_sql L) now rid uid role (app_store a))) a)"
      by (auto simp: gs.assured_Return grown_def setStore_def intro!: trueAnswer_rows)
  qed simp
  have "gs.assured L None (case fst (CreateRoom (lib_sql L) new now n p u (app_store a)) of
         Inl _ \<Rightarrow> answer (respondError 409 ''room already exists'')
       | Inr room \<Rightarrow> exec (AddRoomMember (lib_sql L) now' (row_ID room) uid role) (\<lambda>_. answer (respondJSON 201 (RoomBody room))))
      (setStore (snd (CreateRoom (lib_sql L) new now n p u (app_store a))) a)"
    if inv: "app_inv (setStore (snd (CreateRoom (lib_sql L) new now n p u (app_store a))) a)" for a new now n p u now' uid role
  proof (cases "CreateRoom (lib_sql L) new now n p u (app_store a)")
    case (Pair x st)
    show ?thesis
    proof (cases x)
      case (Inr room)
      have "room \<in> set (st_rooms (app_store (setStore st a)))"
        using created_rows(2) Pair Inr by (fastforce simp: setStore_def)
      with Pair Inr show ?thesis by (simp add: gs.assuredI [OF stable_facts(3) member])
    qed (use inv Pair in \<open>simp add: gs.assured_Return\<close>)
  qed
  then show ?thesis
    by (auto simp: createProg_def intro!: sound_answer sound_exec [where q = "lib_sql L"] split: option.split)
qed

lemma sound_historyProg: "gs.sound L None P (historyProg L ch ctx roomId r)"
proof -
  have "gs.sound L None (\<lambda>_. True) (query (ListRoomMessages rid n before) (\<lambda>res. case res of
      Inl _ \<Rightarrow> answer (respondError 500 ''failed to load messages'')
    | Inr messages \<Rightarrow> answer (respondJSON 200 (MessagesBody (slice messages)))))" for rid n before
    by (rule sound_query) (auto simp: gs.assured_Return dest: query_rows(4) intro!: trueAnswer_rows split: sum.split)
  then show ?thesis
    by (auto simp: historyProg_def gs.assured_Return intro!: sound_answer sound_query gs.sound_always
        split: option.split sum.split bool.split)
qed

lemma mine_accept: "hub_inv h \<Longrightarrow> mine c h \<Longrightarrow> mine c (accept now user h)"
  using hub_invD(3) [of h] unfolding accept_def addConn_def Let_def presence_all mine_def conns_inv_def
  by (auto simp: NewConn_def)

lemma sound_serveProg: "gs.sound L None (\<lambda>_. True) (serveProg L secret ch r)"
proof -
  have "gs.sound L None (\<lambda>a. user \<in> accounts a)
      (onHub (accept now user) (answer \<lparr>resp_Status = 101, resp_Body = NoBody\<rparr>))" for user now
    unfolding onHub_def
    by (rule gs.sound_atomic)
      (simp_all add: app_inv_def accounts_def accept_inv accept_known guarantee_def mine_accept gs.assured_Return)
  then show ?thesis
    unfolding serveProg_def by (intro sound_authenticate) (simp add: sound_answer)
qed

lemma guarantee_files [simp]: "guarantee k a (a'\<lparr>app_files := fs\<rparr>) = guarantee k a a'"
  by (simp add: guarantee_def)

lemma guarantee_handlers:
  "guarantee None a (snd (Register L d ch r a))" "guarantee None a (snd (Join L ch ctx roomId a))"
  "guarantee None a (snd (Leave L ctx roomId a))" "guarantee None a (snd (Upload L d ch ctx r a))"
proof -
  note set_store = guarantee_store [of "lib_sql L"]
  show "guarantee None a (snd (Register L d ch r a))"
    by (auto simp: Register_def gs.guar_refl intro!: set_store dest: store_steps_results(1) split: option.split sum.split prod.split)
  show "guarantee None a (snd (Join L ch ctx roomId a))"
    by (auto simp: Join_def gs.guar_refl intro!: set_store dest: store_steps_results(3) split: option.split sum.split prod.split)
  show "guarantee None a (snd (Leave L ctx roomId a))"
    by (auto simp: Leave_def gs.guar_refl intro!: set_store dest: store_steps_results(4) split: option.split sum.split prod.split)
  show "guarantee None a (snd (Upload L d ch ctx r a))"
    by (auto simp: Upload_def Let_def gs.guar_refl split: option.split list.split)
qed

abbreviation knownUser :: "reqContext \<Rightarrow> App \<Rightarrow> bool" where
  "knownUser ctx a \<equiv> (case UserFromContext ctx of None \<Rightarrow> True | Some user \<Rightarrow> user \<in> accounts a)"

lemma Me_true: "knownUser ctx a \<Longrightarrow> trueAnswer L (Some (Me ctx)) a"
  by (cases "UserFromContext ctx") (simp_all add: Me_def accounts_def trueAnswer_rows)

lemma sound_endpointProg: "gs.sound L None (knownUser ctx) (endpointProg L d ch ctx r ep)"
proof (cases "ep = CreateE \<or> ep = WsE \<or> (\<exists>x. ep = RoomHistoryE x)")
  case True
  then show ?thesis using sound_createProg gs.sound_weaken [OF sound_serveProg] sound_historyProg by fastforce
next
  case False
  have "guarantee None a (snd (endpoints L d ch ctx r ep a))" for a
    using False guarantee_handlers by (cases ep) (auto simp: endpoints_def Let_def split_beta gs.guar_refl)
  moreover have "trueAnswer L (fst (endpoints L d ch ctx r ep a)) (snd (endpoints L d ch ctx r ep a))" if "knownUser ctx a" for a
    using False handlers_true served_file Me_true [OF that]
    by (cases ep) (auto simp: endpoints_def Let_def split_beta health_def)
  moreover have "endpointProg L d ch ctx r ep = atomic (endpoints L d ch ctx r ep) Return" using False by (cases ep) auto
  ultimately show ?thesis
    by (simp add: gs.sound_atomic gs.assured_Return app_inv_endpoints)
qed

lemma sound_requestProg: "gs.sound L None (\<lambda>_. True) (requestProg L d ch r)"
proof -
  have "gs.sound L None (\<lambda>_. True) (endpointProg L d ch [] r ep)" for ep
    using sound_endpointProg [of L "[]"] by simp
  moreover have "gs.sound L None (\<lambda>a. user \<in> accounts a) (endpointProg L d ch (WithUser [] user) r ep)" for user ep
    using sound_endpointProg [of L "WithUser [] user"] by simp
  ultimately show ?thesis
    by (auto simp: requestProg_def intro!: sound_answer sound_authenticate intro: preflight_answer split: option.split list.split)
qed

section \<open>Frames are sound\<close>

abbreviation own :: "connref \<Rightarrow> App \<Rightarrow> bool" where
  "own c a \<equiv> mine c (app_hub a)"

lemma onlyOwn_mine: "onlyOwn c h h' \<Longrightarrow> d \<noteq> c \<Longrightarrow> mine d h' = mine d h"
  by (simp add: onlyOwn_def mine_def)

lemma guarantee_turn:
  assumes "turn q (app_hub a) h" "\<And>d. d \<noteq> c \<Longrightarrow> mine d (app_hub a) \<Longrightarrow> mine d h"
  shows "guarantee (Some c) a (a\<lparr>app_hub := h\<rparr>)"
  using assms store_steps_grown by (auto simp: guarantee_def turn_def)

lemma sound_onHub:
  assumes "\<And>h. hub_inv h \<Longrightarrow> mine c h \<Longrightarrow> hub_inv (f h)" "\<And>h. hub_inv h \<Longrightarrow> turn q h (f h)"
    "\<And>h d. hub_inv h \<Longrightarrow> d \<noteq> c \<Longrightarrow> mine d h \<Longrightarrow> mine d (f h)"
    and "\<And>a. own c a \<Longrightarrow> gs.assured L (Some c) p (a\<lparr>app_hub := f (app_hub a)\<rparr>)"
  shows "gs.sound L (Some c) (own c) (onHub f p)"
  unfolding onHub_def
proof (rule gs.sound_atomic)
  fix a assume a: "app_inv a" "own c a"
  then have h: "hub_inv (app_hub a)" by (simp add: app_inv_def)
  show "app_inv (snd ((), a\<lparr>app_hub := f (app_hub a)\<rparr>))" using app_inv_hub [OF a(1) assms(1) [OF h a(2)] assms(2) [OF h]] by simp
  show "guarantee (Some c) a (snd ((), a\<lparr>app_hub := f (app_hub a)\<rparr>))" using guarantee_turn [OF assms(2) [OF h] assms(3) [OF h]] by simp
  show "gs.assured L (Some c) p (snd ((), a\<lparr>app_hub := f (app_hub a)\<rparr>))" using assms(4) a(2) by simp
qed

lemma assured_finished: "gs.assured L k finished a"
  by (rule gs.sound_always) (simp add: sound_answer)

lemma assured_own: "gs.sound L (Some c) (own c) p \<Longrightarrow> own c a \<Longrightarrow> gs.assured L (Some c) p a"
  by (rule gs.assuredI [OF stable_facts(1)])

lemma own_setStore [simp]: "own c (setStore st a) = own c a"
  by (simp add: setStore_def)

lemma sound_execAs:
  assumes "\<And>u st. store_steps q st (snd (f u st))" "\<And>x. gs.sound L (Some c) (own c) (k x)"
  shows "gs.sound L (Some c) (own c) (execAs c f k)"
  unfolding execAs_def
proof (rule gs.sound_atomic; simp add: split_beta)
  fix a assume a: "app_inv a" "own c a"
  note steps = assms(1) [of "app_store a" "userOf (app_hub a) c"]
  show "app_inv (setStore (snd (f (userOf (app_hub a) c) (app_store a))) a)" by (rule app_inv_setStore [OF a(1) steps])
  show "guarantee (Some c) a (setStore (snd (f (userOf (app_hub a) c) (app_store a))) a)" by (rule guarantee_store [OF steps])
  show "gs.assured L (Some c) (k (fst (f (userOf (app_hub a) c) (app_store a))))
      (setStore (snd (f (userOf (app_hub a) c) (app_store a))) a)" using a(2) by (simp add: assured_own assms(2))
qed

lemma sound_queryAs: "(\<And>x. gs.sound L (Some c) (own c) (k x)) \<Longrightarrow> gs.sound L (Some c) (own c) (queryAs c f k)"
  unfolding queryAs_def by (rule gs.sound_look) (rule assured_own)

lemma sound_enqueueTo: "gs.sound L (Some c) (own c) (onHub (\<lambda>h. enqueueTo c (ev h) h) finished)"
  by (rule sound_onHub [where q = q]) (simp_all add: inv_intros assured_finished)

lemma sound_joinProg: "gs.sound L (Some c) (own c) (joinProg e now c roomID)"
proof -
  have "gs.sound L (Some c) (own c)
      (onHub (\<lambda>h. modConn c (\<lambda>cn. cn\<lparr>conn_rooms := List.insert r (conn_rooms cn)\<rparr>) (SubscribeRoom r c h))
        (onHub (\<lambda>h. enqueueTo c (ev h) h) finished))" for r ev
    by (rule sound_onHub [where q = "ws_sql e"])
      (auto simp: mine_modConn subscribe_inv mine_reading intro!: turn_modConn assured_own sound_enqueueTo)
  then show ?thesis
    using sound_enqueueTo [where c = c and ev = "\<lambda>_. errorEvent ''invalid room''"]
    by (auto simp: joinProg_def intro!: sound_execAs [where q = "ws_sql e"] split: option.split)
qed

lemma sound_leaveProg: "gs.sound L (Some c) (own c) (leaveProg e c roomID)"
proof -
  have "gs.sound L (Some c) (own c)
      (onHub (\<lambda>h. UnsubscribeRoom r c (modConn c (\<lambda>cn. cn\<lparr>conn_rooms := removeAll r (conn_rooms cn)\<rparr>) h)) finished)" for r
    by (rule sound_onHub [where q = "ws_sql e"])
      (auto simp: unsubscribe_inv mine_modConn assured_finished intro!: turn_modConn)
  then show ?thesis
    by (auto simp: leaveProg_def intro!: sound_answer sound_execAs [where q = "ws_sql e"] split: option.split)
qed

lemma sound_broadcast:
  assumes "\<And>h. hub_inv h \<Longrightarrow> mine c h \<Longrightarrow> hub_inv (f h)" "\<And>h. turn q h (f h)" "\<And>h. onlyOwn c h (f h)"
  shows "gs.sound L (Some c) (own c) (onHub f finished)"
  by (rule sound_onHub [where q = q]) (simp_all add: assms onlyOwn_mine [OF assms(3)] assured_finished)

lemma sound_roomMessageProg: "gs.sound L (Some c) (own c) (roomMessageProg e new now c msg body)"
proof -
  have "gs.sound L (Some c) (own c) (onHub (\<lambda>h. ws_broadcastRoom c r (ev h) None h) finished)" for r ev
    by (rule sound_broadcast [where q = "ws_sql e"]) (simp_all add: inv_intros mine_reading)
  then show ?thesis
    using sound_enqueueTo [where c = c and ev = "\<lambda>_. errorEvent ''not a member''"]
    by (auto simp: roomMessageProg_def intro!: sound_answer sound_queryAs sound_execAs [where q = "ws_sql e"]
        split: option.split sum.split bool.split)
qed

lemma sound_dmProg: "gs.sound L (Some c) (own c) (dmProg e new now c msg body)"
proof -
  have "gs.sound L (Some c) (own c) (onHub (\<lambda>h. let event = ev h in
      ws_broadcastUser c (userOf h c) event None (ws_broadcastUser c r event None h)) finished)" for r ev
    by (rule sound_broadcast [where q = "ws_sql e"]) (simp_all add: inv_intros mine_reading Let_def)
  then show ?thesis
    by (auto simp: dmProg_def intro!: sound_answer sound_execAs [where q = "ws_sql e"]
        split: option.split sum.split)
qed

lemma sound_eventProg: "gs.sound L (Some c) (own c) (eventProg e new now c msg)"
proof -
  have "gs.sound L (Some c) (own c) (onHub (handleTyping e c msg) finished)"
    by (rule sound_broadcast [where q = "ws_sql e"])
      (auto simp: handleTyping_def Let_def inv_intros mine_reading split: option.split)
  moreover have "gs.sound L (Some c) (own c) (onHub (handleRead e now c msg) finished)"
    by (rule sound_broadcast [where q = "ws_sql e"]) (auto simp: handleRead_def split: option.split)
  ultimately show ?thesis
    by (simp add: eventProg_def messageProg_def Let_def sound_joinProg sound_leaveProg sound_roomMessageProg
        sound_dmProg sound_answer)
qed

lemma mine_hangup: "d \<noteq> c \<Longrightarrow> mine d (hangup now c h) = mine d h"
  by (simp add: hangup_def removeConn_def Let_def presence_all mine_def split: option.split)

lemma sound_frameProg: "gs.sound L (Some c) (own c) (frameProg e new now c frame)"
proof -
  have "gs.sound L (Some c) (own c) (onHub (hangup now c) finished)"
    by (rule sound_onHub [where q = "ws_sql e"])
      (auto simp: mine_hangup assured_finished, auto simp: hangup_def mine_def hangup_inv intro!: turn_modConn turn_removeConn)
  then show ?thesis
    unfolding frameProg_def by (intro gs.sound_look assured_own) (auto simp: sound_eventProg split: option.split)
qed

end
