(* ===== verification/Http_Exchange.thy ===== *)
theory Http_Exchange
  imports Http_Wire Http_Data
begin

text \<open>
  What the two sides of the wire agree on: answers and events are JSON that reads back, bodies and frames
  that spell a request decode to it, and the times in an answer can be used to ask for more.
\<close>

section \<open>Answers and events\<close>

text \<open>The body of every answer with a JSON payload, and every event frame, is one JSON value and a line
  break, reads back as the value that was written (bytes that are not UTF-8 replaced), and holds none of
  the characters that mean something in HTML, whatever the users have typed.\<close>

theorem answers_are_json:
  "(\<forall>j. payloadJSON L zone p = Some j \<longrightarrow>
      parseValue maxNestingDepth (bodyText L zone (resp_Body (respondJSON status p))) = Some (cleanJSON j, nl)
      \<and> set (bodyText L zone (resp_Body (respondJSON status p))) \<inter> markup = {})
   \<and> (\<forall>j. eventJSON L zone ev = Some j \<longrightarrow>
      parseValue maxNestingDepth (encodeLine (eventJSON L zone ev)) = Some (cleanJSON j, nl)
      \<and> set (encodeLine (eventJSON L zone ev)) \<inter> markup = {})"
proof -
  have depth: "maxNestingDepth = Suc (Suc 9998)" by (simp add: maxNestingDepth_def)
  have "bodyText L zone p = encodeLine (payloadJSON L zone p)" if "payloadJSON L zone p = Some j" for j
    using that by (cases p) (simp_all add: bodyText_def payloadJSON_def)
  then show ?thesis
    using encodeLine_fits payload_fits [of L zone p _ 9998] event_fits [of L zone ev _ 9998]
    by (simp add: depth respondJSON_def)
qed

definition scriptEvent :: Event where
  "scriptEvent = errorEvent ''<script>''"

theorem answers_are_json_witness:
  "parseValue maxNestingDepth (bodyText plainLibs (\<lambda>_. 0) (resp_Body (respondError 400 ''<b>''))) =
     Some (JObject [(''error'', JString ''<b>'')], nl)
   \<and> CHR ''<'' \<notin> set (encodeLine (eventJSON plainLibs (\<lambda>_. 0) scriptEvent))"
proof -
  have "payloadJSON plainLibs (\<lambda>_. 0) (ErrorBody ''<b>'') = Some (JObject [(''error'', JString ''<b>'')])"
    "eventJSON plainLibs (\<lambda>_. 0) scriptEvent \<noteq> None"
    "cleanJSON (JObject [(''error'', JString ''<b>'')]) = JObject [(''error'', JString ''<b>'')]"
    by code_simp+
  with answers_are_json [of plainLibs "\<lambda>_. 0" "ErrorBody ''<b>''" 400 scriptEvent] show ?thesis
    by (auto simp: respondError_def markup_def)
qed

section \<open>Requests\<close>

definition cleanEvent :: "ClientEvent \<Rightarrow> ClientEvent" where
  "cleanEvent ev = \<lparr>ce_Type = validUTF8 (ce_Type ev), ce_RoomID = validUTF8 (ce_RoomID ev),
     ce_RecipientID = validUTF8 (ce_RecipientID ev), ce_Body = validUTF8 (ce_Body ev),
     ce_AttachmentURL = validUTF8 (ce_AttachmentURL ev), ce_IsTyping = ce_IsTyping ev\<rparr>"

lemma validUTF8_Nil [simp]: "validUTF8 [] = []"
  by (simp add: validUTF8_def)

lemma fieldOf_exact: "map_of fs k = Some f \<Longrightarrow> fieldOf fs k = Some f"
  by (simp add: fieldOf_def)

lemma clean_optional:
  "map (map_prod validUTF8 cleanJSON) (optString k s) = optString (validUTF8 k) (validUTF8 s)"
  "map (map_prod validUTF8 cleanJSON) (optBool k b) = optBool (validUTF8 k) b"
  by (auto simp: optString_def optBool_def validUTF8_def)

lemma decodeMembers_append:
  "decodeMembers fs (xs @ ys) r = (case decodeMembers fs xs r of None \<Rightarrow> None | Some r' \<Rightarrow> decodeMembers fs ys r')"
  by (induction xs arbitrary: r) (auto split: option.splits)

lemma decodeMembers_optional:
  "fieldOf fs k = Some (stringField upd) \<Longrightarrow>
    decodeMembers fs (optString k s) r = Some (if s = [] then r else upd (\<lambda>_. s) r)"
  "fieldOf fs k = Some (boolField updb) \<Longrightarrow>
    decodeMembers fs (optBool k b) r = Some (if b then updb (\<lambda>_. b) r else r)"
  by (auto simp: optString_def optBool_def stringField_def boolField_def)

lemma field_names: "validUTF8 ''type'' = ''type''" "validUTF8 ''roomId'' = ''roomId''"
  "validUTF8 ''recipientId'' = ''recipientId''" "validUTF8 ''body'' = ''body''"
  "validUTF8 ''attachmentUrl'' = ''attachmentUrl''" "validUTF8 ''isTyping'' = ''isTyping''"
  "validUTF8 ''email'' = ''email''" "validUTF8 ''username'' = ''username''" "validUTF8 ''password'' = ''password''"
  "validUTF8 ''avatarUrl'' = ''avatarUrl''" "validUTF8 ''name'' = ''name''" "validUTF8 ''isPrivate'' = ''isPrivate''"
  by code_simp+

lemma client_fields: "fieldOf clientFields ''type'' = Some (stringField ce_Type_update)"
  "fieldOf clientFields ''roomId'' = Some (stringField ce_RoomID_update)"
  "fieldOf clientFields ''recipientId'' = Some (stringField ce_RecipientID_update)"
  "fieldOf clientFields ''body'' = Some (stringField ce_Body_update)"
  "fieldOf clientFields ''attachmentUrl'' = Some (stringField ce_AttachmentURL_update)"
  "fieldOf clientFields ''isTyping'' = Some (boolField ce_IsTyping_update)"
  by (simp_all add: fieldOf_def clientFields_def)

text \<open>C21. A frame or body that a client writes for a \<open>ClientEvent\<close>, a registration or a new room decodes to
  just that, whatever its strings hold and whatever follows it.\<close>

theorem requests_roundtrip:
  "decodeClientEvent (encodeJSON (clientEventJSON ev) @ t) = Some (cleanEvent ev)
   \<and> decodeRegister (encodeJSON (jsonStrings [(''email'', e), (''username'', u), (''password'', p), (''avatarUrl'', av)]) @ t) =
       Some \<lparr>reg_Email = validUTF8 e, reg_Username = validUTF8 u, reg_Password = validUTF8 p, reg_Avatar = validUTF8 av\<rparr>
   \<and> decodeRoom (encodeJSON (JObject [(''name'', JString n), (''isPrivate'', JBool b)]) @ t) =
       Some \<lparr>cr_Name = validUTF8 n, cr_IsPrivate = b\<rparr>"
proof (intro conjI)
  have fit: "list_all (\<lambda>(k, j). fits j (maxNestingDepth - 1)) ([(''type'', JString (ce_Type ev))] @ optString ''roomId'' (ce_RoomID ev)
     @ optString ''recipientId'' (ce_RecipientID ev) @ optString ''body'' (ce_Body ev)
     @ optString ''attachmentUrl'' (ce_AttachmentURL ev) @ optBool ''isTyping'' (ce_IsTyping ev))" by simp
  show "decodeClientEvent (encodeJSON (clientEventJSON ev) @ t) = Some (cleanEvent ev)"
    unfolding decodeClientEvent_def clientEventJSON_def decode_encode_object [OF fit]
    by (simp add: clean_optional field_names decodeMembers_append decodeMembers_optional client_fields
        cleanEvent_def zeroEvent_def stringField_def [of _ "JString _"])
  show "decodeRegister (encodeJSON (jsonStrings [(''email'', e), (''username'', u), (''password'', p), (''avatarUrl'', av)]) @ t) =
       Some \<lparr>reg_Email = validUTF8 e, reg_Username = validUTF8 u, reg_Password = validUTF8 p, reg_Avatar = validUTF8 av\<rparr>"
    unfolding decodeRegister_def jsonStrings_def
    by (subst decode_encode_object) (simp_all add: field_names fieldOf_exact stringField_def)
  show "decodeRoom (encodeJSON (JObject [(''name'', JString n), (''isPrivate'', JBool b)]) @ t) =
       Some \<lparr>cr_Name = validUTF8 n, cr_IsPrivate = b\<rparr>"
    unfolding decodeRoom_def
    by (subst decode_encode_object) (simp_all add: field_names fieldOf_exact stringField_def boolField_def)
qed

section \<open>Reading on\<close>

lemma RoomHistory_page:
  assumes "IsRoomMember rid (user_ID user) (app_store a) = Inr True" "lib_parseUUID L roomId = Some rid"
  shows "RoomHistory L ch (WithUser ctx user) roomId r a = respondJSON 200 (MessagesBody (slice
    (take (nat (if limitParam 50 r \<le> 0 then 50 else limitParam 50 r))
      (roomLog (app_store a) rid (parseTimeParam (time_now ch) (queryGet r ''before''))))))"
proof -
  have "st_up (app_store a)" using assms(1) by (simp add: IsRoomMember_def split: if_splits)
  then have "ListRoomMessages rid limit before (app_store a) =
      Inr (take (nat (if limit \<le> 0 then 50 else limit)) (roomLog (app_store a) rid before))" for limit before
    by (simp add: ListRoomMessages_def limitRows_def roomLog_def)
  with assms show ?thesis by (simp add: RoomHistory_def Let_def)
qed

text \<open>C27. A client that takes the time of the last message of a page from the answer, as it is written there,
  and asks for what is before it gets, newest first, the messages of the history that are older than
  that one: nothing is repeated, and what is left out between the two pages is exactly the messages
  of the room, if any, that have the same time as the last one of the page. When no two messages of
  the room have the same time the pages join without a gap. (Messages of one time are in the order the
  sort leaves them in; PostgreSQL may choose another for each query.)\<close>

theorem api_pages_are_seamless:
  assumes member: "IsRoomMember rid (user_ID user) (app_store a) = Inr True" "lib_parseUUID L roomId = Some rid"
    and page: "RoomHistory L ch (WithUser ctx user) roomId r a = respondJSON 200 (MessagesBody (Some ms))"
    and more: "timeJSON zone (msg_CreatedAt (last ms)) = Some (JString (queryGet r2 ''before''))" "0 < limitParam 50 r2"
  shows "\<exists>skipped older.
      roomLog (app_store a) rid (parseTimeParam (time_now ch) (queryGet r ''before'')) = ms @ skipped @ older
    \<and> (\<forall>m\<in>set skipped. msg_CreatedAt m = msg_CreatedAt (last ms))
    \<and> (\<forall>m\<in>set older. msg_CreatedAt m < msg_CreatedAt (last ms))
    \<and> (distinct (map msg_CreatedAt (roomLog (app_store a) rid (parseTimeParam (time_now ch) (queryGet r ''before''))))
        \<longrightarrow> skipped = [])
    \<and> RoomHistory L ch2 (WithUser ctx2 user) roomId r2 a =
        respondJSON 200 (MessagesBody (slice (take (nat (limitParam 50 r2)) older)))"
proof -
  let ?log = "roomLog (app_store a) rid (parseTimeParam (time_now ch) (queryGet r ''before''))"
    and ?t = "msg_CreatedAt (last ms)"
  obtain n where ms: "ms = take n ?log" "ms \<noteq> []"
    using page unfolding RoomHistory_page [OF member] by (auto simp: respondJSON_def slice_def split: if_splits)
  then have n: "0 < length ms" "length ms \<le> length ?log" and len: "ms = take (length ms) ?log"
    by (auto simp: min_def)
  define skipped where "skipped = filter (\<lambda>m. msg_CreatedAt m = ?t) (drop (length ms) ?log)"
  have split: "drop (length ms) ?log = skipped @ roomLog (app_store a) rid ?t"
    using next_page [OF n] unfolding skipped_def len [symmetric] .
  have log: "?log = ms @ skipped @ roomLog (app_store a) rid ?t"
    using append_take_drop_id [of "length ms" ?log] unfolding split len [symmetric] by simp
  have "skipped = []" if "distinct (map msg_CreatedAt ?log)"
  proof (rule ccontr)
    assume "skipped \<noteq> []"
    then obtain m where "m \<in> set skipped" by (cases skipped) auto
    moreover from this have "msg_CreatedAt m = ?t" by (simp add: skipped_def)
    moreover have "last ms \<in> set ms" using ms(2) by simp
    ultimately show False using that unfolding log by (auto simp: disjoint_iff) 
  qed
  moreover have "\<forall>m\<in>set (roomLog (app_store a) rid ?t). msg_CreatedAt m < ?t"
    by (auto simp: roomLog_def joinSender_def)
  moreover have "parseRFC3339 (queryGet r2 ''before'') = Some ?t"
    using more(1) parse_format by (auto simp: timeJSON_def)
  moreover from this have "queryGet r2 ''before'' \<noteq> []" by (auto simp: parseRFC3339_def)
  ultimately have "parseTimeParam (time_now ch2) (queryGet r2 ''before'') = ?t"
    by (simp add: parseTimeParam_def)
  with more(2) have "RoomHistory L ch2 (WithUser ctx2 user) roomId r2 a =
      respondJSON 200 (MessagesBody (slice (take (nat (limitParam 50 r2)) (roomLog (app_store a) rid ?t))))"
    unfolding RoomHistory_page [OF member] by simp
  moreover have "\<forall>m\<in>set skipped. msg_CreatedAt m = ?t" by (simp add: skipped_def)
  ultimately show ?thesis
    using log \<open>distinct (map msg_CreatedAt ?log) \<Longrightarrow> skipped = []\<close> \<open>\<forall>m\<in>set (roomLog _ _ _). _\<close> by blast
qed

definition pageApp :: App where
  "pageApp = \<lparr>app_hub = NewHub sampleStore, app_files = []\<rparr>"

definition firstPage :: Request where
  "firstPage = request ''GET'' [''api'', ''rooms'', ''10'', ''messages''] [] [(''limit'', ''2'')] []"

definition nextPage :: Request where
  "nextPage = request ''GET'' [''api'', ''rooms'', ''10'', ''messages''] []
     [(''limit'', ''2''), (''before'', ''1970-01-01T00:00:00.000000011Z'')] []"

definition firstTwo :: "Message list" where
  "firstTwo = take 2 (roomLog sampleStore 10 1000000050)"

theorem api_pages_are_seamless_witness:
  "RoomHistory plainLibs (sampleChance 60) (WithUser [] (sampleUser 0)) ''10'' nextPage pageApp =
     respondJSON 200 (MessagesBody (slice (take 2 (drop 2 (roomLog sampleStore 10 1000000050)))))"
proof -
  have facts: "parseTimeParam 50 (queryGet firstPage ''before'') = 1000000050" "limitParam 50 firstPage = 2"
    "limitParam 50 nextPage = 2" "queryGet nextPage ''before'' = ''1970-01-01T00:00:00.000000011Z''"
    "lib_parseUUID plainLibs ''10'' = Some 10" "user_ID (sampleUser 0) = 1"
    "distinct (map msg_CreatedAt (roomLog sampleStore 10 1000000050))" "length firstTwo = 2"
    "formatTime 0 (msg_CreatedAt (last firstTwo)) = Some ''1970-01-01T00:00:00.000000011Z''"
    by code_simp+
  have store: "app_store pageApp = sampleStore" "isMember sampleStore 10 1" "time_now (sampleChance 50) = 50"
    by (simp_all add: pageApp_def NewHub_def sampleStore_def isMember_def sample_facts)
  have member: "IsRoomMember 10 (user_ID (sampleUser 0)) (app_store pageApp) = Inr True"
    using store facts(6) sampleStore_facts(1) by (simp add: IsRoomMember_def)
  have two: "firstTwo \<noteq> []" using facts(8) by auto
  have page: "RoomHistory plainLibs (sampleChance 50) (WithUser [] (sampleUser 0)) ''10'' firstPage pageApp =
      respondJSON 200 (MessagesBody (Some firstTwo))"
    using RoomHistory_page [OF member facts(5), of "sampleChance 50" "[]" firstPage] facts(1,2) store two
    by (simp add: firstTwo_def slice_def)
  have time: "timeJSON (\<lambda>_. 0) (msg_CreatedAt (last firstTwo)) = Some (JString (queryGet nextPage ''before''))"
    unfolding facts(4) timeJSON_def facts(9) by simp
  have more: "0 < limitParam 50 nextPage" unfolding facts(3) by simp
  obtain older where "roomLog sampleStore 10 1000000050 = firstTwo @ [] @ older"
    "RoomHistory plainLibs (sampleChance 60) (WithUser [] (sampleUser 0)) ''10'' nextPage pageApp =
      respondJSON 200 (MessagesBody (slice (take 2 older)))"
    using api_pages_are_seamless [OF member facts(5) page time more, of "sampleChance 60" "[]"] facts(1,3,7) store by auto
  then show ?thesis using facts(8) by simp
qed

section \<open>A frame that cannot be read\<close>

text \<open>A text that is not the JSON of a client event ends the connection it came on, and it alone: the
  connection leaves the hub's registers, its socket is closed, and no table changes.\<close>

theorem malformed_frame_disconnects:
  assumes inv: "app_inv a" and c: "conn_reading (connAt (app_hub a) c)" "conn_pending (connAt (app_hub a) c) = []"
    and bad: "decodeClientEvent text = None"
  shows "app_store (app_step L d (Frame c new now (Some text)) a) = app_store a
    \<and> subscriptions (app_hub (app_step L d (Frame c new now (Some text)) a)) = (subscriptions (app_hub a))(c := None)
    \<and> \<not> conn_open (connAt (app_hub (app_step L d (Frame c new now (Some text)) a)) c)"
proof -
  let ?h = "app_hub a"
  have "app_hub (app_step L d (Frame c new now (Some text)) a) =
      modConn c (\<lambda>cn. cn\<lparr>conn_reading := False, conn_open := False\<rparr>) (removeConn now c ?h)"
    using c bad by (simp add: ws_readLoop_def)
  moreover have "hub_inv ?h" using inv by (simp add: app_inv_def)
  ultimately show ?thesis
    using subscriptions_hangup [of ?h c] c by (simp add: removeConn_def presence_all Let_def split: option.split)
qed

lemma sampleApp_inv: "app_inv sampleApp"
proof -
  have "hub_store sampleHub = sampleStore
    \<and> list_all (\<lambda>c. conn_user (connAt sampleHub c) \<in> fst ` set (st_users sampleStore)) [0, 1, 2]" by code_simp
  moreover have "c \<in> set [0, 1, 2]" if "c < 3" for c :: connref using that by auto
  moreover have "nextConn sampleHub = 3" by (simp add: sampleHub_facts)
  ultimately have "hub_store sampleHub = sampleStore" "users_known sampleHub"
    unfolding users_known_def list_all_iff by auto
  then show ?thesis using sampleHub_inv sampleStore_ok by (simp add: app_inv_def sampleApp_def)
qed

theorem malformed_frame_disconnects_witness:
  "subscriptions (app_hub (app_step plainLibs sampleDeps (Frame 0 5 6 (Some ''{typ'')) sampleApp)) 0 = None
   \<and> subscriptions (app_hub (app_step plainLibs sampleDeps (Frame 0 5 6 (Some ''{typ'')) sampleApp)) 1 = Some (1, {})"
proof -
  have "decodeClientEvent ''{typ'' = None" by code_simp
  moreover have "conn_reading (connAt (app_hub sampleApp) 0)" "conn_pending (connAt (app_hub sampleApp) 0) = []"
    by (simp_all add: sampleApp_def sampleHub_facts)
  ultimately have "subscriptions (app_hub (app_step plainLibs sampleDeps (Frame 0 5 6 (Some ''{typ'')) sampleApp)) =
      (subscriptions (app_hub sampleApp))(0 := None)"
    using malformed_frame_disconnects [OF sampleApp_inv] by blast
  then show ?thesis by (simp add: subscriptions_def sampleApp_def sampleHub_facts)
qed

end
