(* ===== verification/App_System.thy ===== *)
theory App_System
  imports App_Sound Http_Exchange
begin

text \<open>
  The server with its goroutines in any interleaving: requests and frames begin, one goroutine does its
  next action, the hub and the write loops take their turns, the database goes away and comes back. The
  server keeps its invariant, no connection has two frames under way, and no answer says something of the
  tables that is not so.
\<close>

record System =
  sys_pool :: "(connref, Response option, App) pool"
  sys_app :: App

datatype sys_event =
    Begin chance Request
  | Incoming connref uuid int "string option"
  | Resume nat
  | Background hub_event
  | Outage bool

fun background :: "wsenv \<Rightarrow> hub_event \<Rightarrow> Hub \<Rightarrow> Hub" where
  "background e (Push c) h = push c h"
| "background e Deliver h = deliver h"
| "background e (Write c ok) h = modConn c (ws_writeLoop ok) h"
| "background e _ h = h"

text \<open>\<open>net/http\<close> starts a goroutine for a request; \<open>readLoop\<close> reads a frame when it is done with the one before.\<close>

fun sys_step :: "libs \<Rightarrow> RouterDeps \<Rightarrow> sys_event \<Rightarrow> System \<Rightarrow> System" where
  "sys_step L d (Begin ch r) s = s\<lparr>sys_pool := sys_pool s @ [(None, requestProg L d ch r)]\<rparr>"
| "sys_step L d (Incoming c new now frame) s =
     (if own c (sys_app s) \<and> idle (Some c) (sys_pool s)
      then s\<lparr>sys_pool := sys_pool s @
             [(Some c, frameProg (lib_ws L) new now c (Option.bind frame decodeClientEvent))]\<rparr>
      else s)"
| "sys_step L d (Resume i) s = (let (ts, a) = resume i (sys_pool s, sys_app s) in s\<lparr>sys_pool := ts, sys_app := a\<rparr>)"
| "sys_step L d (Background t) s = s\<lparr>sys_app := (sys_app s)\<lparr>app_hub := background (lib_ws L) t (app_hub (sys_app s))\<rparr>\<rparr>"
| "sys_step L d (Outage up) s = s\<lparr>sys_app := setStore ((app_store (sys_app s))\<lparr>st_up := up\<rparr>) (sys_app s)\<rparr>"

definition startSystem :: "App \<Rightarrow> System" where
  "startSystem a = \<lparr>sys_pool = [], sys_app = a\<rparr>"

section \<open>The invariant\<close>

lemma mine_background: "hub_inv h \<Longrightarrow> mine c h \<Longrightarrow> mine c (background e t h)"
proof (cases t)
  case (Push d)
  then show "mine c h \<Longrightarrow> ?thesis" by (cases "d = c") (auto simp: push_def mine_def split: list.split)
next
  case Deliver
  assume "hub_inv h"
  then show "mine c h \<Longrightarrow> ?thesis"
    using Deliver deliver_all [of h] by (cases "hub_broadcast h") (auto simp: deliver_def)
next
  case (Write d ok)
  then show "mine c h \<Longrightarrow> ?thesis" by (auto simp: mine_def modConn_def ws_writeLoop_def split: list.split)
qed simp_all

lemma background_step:
  fixes L :: libs
  assumes a: "app_inv a"
  shows "app_inv (a\<lparr>app_hub := background (lib_ws L) t (app_hub a)\<rparr>)
    \<and> guarantee None a (a\<lparr>app_hub := background (lib_ws L) t (app_hub a)\<rparr>)"
proof -
  from a have "hub_inv (app_hub a)" by (simp add: app_inv_def)
  note mine = mine_background [OF this, of _ "lib_ws L" t]
  show ?thesis
  proof (cases "\<forall>now user. t \<noteq> Accept now user \<and> (\<forall>c new msg. t \<noteq> Read c new now msg)")
    case True
    then have eq: "background (lib_ws L) t (app_hub a) = hub_step (lib_ws L) t (app_hub a)" by (cases t) auto
    have "turn (lib_sql L) (app_hub a) (hub_step (lib_ws L) t (app_hub a))"
      using a True by (intro turn_hub_step) (auto simp: app_inv_def)
    then have "grown (app_store a) (hub_store (hub_step (lib_ws L) t (app_hub a)))"
      using store_steps_grown by (auto simp: turn_def)
    with mine True app_inv_turn [OF a, of t L] show ?thesis by (simp add: eq guarantee_def)
  next
    case False
    then have "background (lib_ws L) t (app_hub a) = app_hub a" by (cases t) auto
    with a show ?thesis by (simp add: gs.guar_refl)
  qed
qed

definition sys_inv :: "libs \<Rightarrow> System \<Rightarrow> bool" where
  "sys_inv L s \<longleftrightarrow> gs.pool_inv L (sys_pool s) (sys_app s)"

lemma sys_step_inv: "sys_inv L s \<Longrightarrow> sys_inv L (sys_step L d ev s)"
proof (cases ev)
  case (Begin ch r)
  then show "sys_inv L s \<Longrightarrow> ?thesis"
    using gs.pool_spawn [OF _ gs.sound_always [OF sound_requestProg]] by (simp add: sys_inv_def)
next
  case (Incoming c new now frame)
  then show "sys_inv L s \<Longrightarrow> ?thesis"
    by (simp add: sys_inv_def gs.pool_spawn assured_own sound_frameProg)
next
  case (Resume i)
  then show "sys_inv L s \<Longrightarrow> ?thesis" using gs.pool_resume_step by (simp add: sys_inv_def split_beta)
next
  case (Background t)
  assume "sys_inv L s"
  then have pool: "gs.pool_inv L (sys_pool s) (sys_app s)" by (simp add: sys_inv_def)
  from background_step [OF gs.pool_inv_inv [OF this], of L t] gs.pool_env [OF pool]
  show ?thesis by (simp add: Background sys_inv_def)
next
  case (Outage up)
  have "store_steps (lib_sql L) (app_store (sys_app s)) ((app_store (sys_app s))\<lparr>st_up := up\<rparr>)" by simp
  note steps = this
  assume "sys_inv L s"
  then have pool: "gs.pool_inv L (sys_pool s) (sys_app s)" by (simp add: sys_inv_def)
  from gs.pool_env [OF pool app_inv_setStore [OF gs.pool_inv_inv [OF pool] steps] guarantee_store [OF steps]]
  show ?thesis by (simp add: Outage sys_inv_def)
qed

interpretation sys: event_machine
  "\<lambda>s. \<exists>new creator now st files. store_ok st \<and> s = startSystem (startup L new creator now st files)"
  "sys_step L d" "sys_inv L" for L d
  by unfold_locales (simp_all add: sys_step_inv, auto simp: sys_inv_def startSystem_def gs.pool_inv_Nil startup_inv)

lemma finished_stays: "(k, Return r) \<in> set (sys_pool s) \<Longrightarrow> (k, Return r) \<in> set (sys_pool (sys_step L d ev s))"
  by (cases ev) (auto simp: split_beta dest: resume_keeps)

lemma finished_run: "(k, Return r) \<in> set (sys_pool s) \<Longrightarrow> (k, Return r) \<in> set (sys_pool (fold (sys_step L d) evs s))"
  by (induction evs arbitrary: s) (simp_all add: finished_stays)

text \<open>C1. Statement by statement, in every interleaving of requests, frames, turns of the hub and of the write
  loops, and outages of the database: the hub's registers and the tables stay consistent, every
  connection belongs to a stored account, and no connection handles two frames at a time.\<close>

theorem interleaved_inv:
  assumes "store_ok st"
  shows "app_inv (sys_app (fold (sys_step L d) evs (startSystem (startup L new creator now st files))))
    \<and> apart (sys_pool (fold (sys_step L d) evs (startSystem (startup L new creator now st files))))"
proof -
  have "sys_inv L (fold (sys_step L d) evs (startSystem (startup L new creator now st files)))"
    by (rule sys.inv_reach) (use assms in blast)
  then show ?thesis using gs.pool_inv_inv gs.pool_inv_apart unfolding sys_inv_def by blast
qed

text \<open>C13. No answer is overtaken: in every interleaving, the accounts, rooms and messages that an answered
  request has shown are rows of the tables, at the time of the answer and in every later state.\<close>

theorem answers_stay_true:
  assumes "store_ok st"
    and "s = fold (sys_step L d) evs (startSystem (startup L new creator now st files))"
    and "(k, Return (Some resp)) \<in> set (sys_pool s)" "\<not> foreign L resp"
  shows "rowsIn (resp_Body resp) (app_store (sys_app (fold (sys_step L d) later s)))"
proof -
  have "sys_inv L s" unfolding assms(2) by (rule sys.inv_reach) (use assms(1) in blast)
  then have "sys_inv L (fold (sys_step L d) later s)" by (rule sys.inv_run)
  then have "trueAnswer L (Some resp) (sys_app (fold (sys_step L d) later s))"
    using gs.pool_answers finished_run [OF assms(3)] unfolding sys_inv_def by blast
  with assms(4) show ?thesis by (simp add: trueAnswer_def)
qed

text \<open>A goroutine that nothing interrupts does what its handler does in one step: a request as the router
  says, a frame as the read loop says; and it returns.\<close>

theorem alone_is_one_step:
  assumes "i < length ts"
  shows "(ts ! i = (None, requestProg L d ch r) \<longrightarrow>
      (\<exists>n. (resume i ^^ n) (ts, a) =
        (ts[i := (None, Return (fst (NewRouter L d ch r a)))], snd (NewRouter L d ch r a))))
    \<and> (ts ! i = (Some c, frameProg (lib_ws L) new now c (Option.bind frame decodeClientEvent)) \<and> own c a \<longrightarrow>
      (\<exists>n. (resume i ^^ n) (ts, a) = (ts[i := (Some c, Return None)], app_step L d (Frame c new now frame) a)))"
proof (intro conjI impI)
  show "\<exists>n. (resume i ^^ n) (ts, a) = (ts[i := (None, Return (fst (NewRouter L d ch r a)))], snd (NewRouter L d ch r a))"
    if "ts ! i = (None, requestProg L d ch r)"
    using resume_alone [OF assms that, of a] unfolding run_requestProg .
  show "\<exists>n. (resume i ^^ n) (ts, a) = (ts[i := (Some c, Return None)], app_step L d (Frame c new now frame) a)"
    if frame: "ts ! i = (Some c, frameProg (lib_ws L) new now c (Option.bind frame decodeClientEvent)) \<and> own c a"
  proof -
    have "run (frameProg (lib_ws L) new now c (Option.bind frame decodeClientEvent)) a
        = (None, app_step L d (Frame c new now frame) a)"
      using frame run_frameProg [of a c] by (simp add: mine_def)
    with resume_alone [OF assms conjunct1 [OF frame], of a] show ?thesis by simp
  qed
qed

section \<open>How many actions\<close>

lemma within_actions:
  "(\<And>x. within n (c x)) \<Longrightarrow> within (Suc n) (query f c)"
  "(\<And>x. within n (c' x)) \<Longrightarrow> within (Suc n) (exec w c')"
  "within n p \<Longrightarrow> within (Suc n) (onHub g p)"
  "(\<And>x. within n (q x)) \<Longrightarrow> within (Suc n) (queryAs conn h q)"
  "(\<And>x. within n (q' x)) \<Longrightarrow> within (Suc n) (execAs conn h' q')"
  by (simp_all add: actions within_atomic)

lemma within_authenticate: "(\<And>user. within n (next user)) \<Longrightarrow> within (Suc n) (authenticate L tok secret now next)"
  by (auto simp: authenticate_def intro!: within_Return within_actions split: option.split sum.split)

lemma within_handlers:
  "within 2 (createProg L ch ctx r)" "within 2 (historyProg L ch ctx roomId r)" "within 2 (serveProg L secret ch r)"
proof -
  have two: "(2::nat) = Suc (Suc 0)" by simp
  show "within 2 (createProg L ch ctx r)" unfolding two
    by (auto simp: createProg_def intro!: within_Return within_actions split: option.split sum.split)
  show "within 2 (historyProg L ch ctx roomId r)" unfolding two
    by (auto simp: historyProg_def intro!: within_Return within_actions split: option.split sum.split bool.split)
  show "within 2 (serveProg L secret ch r)" unfolding two serveProg_def
    by (auto intro!: within_authenticate within_Return within_actions)
qed

lemma within_endpoint: "within 2 (endpointProg L d ch ctx r ep)"
proof -
  have "within 2 (atomic (endpoints L d ch ctx r ep) Return)" for ep
    by (rule within_mono [of "Suc 0"]) (rule within_atomic, rule within_Return, simp)
  then show ?thesis using within_handlers by (cases ep) auto
qed

lemma within_event: "within 3 (eventProg e new now c msg)"
proof -
  have three: "(3::nat) = Suc (Suc (Suc 0))" by simp
  show ?thesis unfolding three eventProg_def joinProg_def leaveProg_def messageProg_def roomMessageProg_def dmProg_def Let_def
    by (auto intro!: within_Return within_actions split: option.split sum.split bool.split)
qed

text \<open>Whatever the others do in between, a request is answered after at most three actions of its own, and a
  frame has made its accesses after at most four, but for the sends it leaves in \<open>conn_pending\<close>.\<close>

theorem actions_bounded:
  "(3 \<le> length ss \<longrightarrow> (\<exists>resp. amid ss (requestProg L d ch r) = Return resp))
   \<and> (4 \<le> length ss \<longrightarrow> (\<exists>x. amid ss (frameProg e new now c frame) = Return x))"
proof -
  have "within 3 (authenticate L tok secret now (\<lambda>user. endpointProg L d ch (ctx user) r ep))" for tok secret now ctx ep
    using within_authenticate [of 2, OF within_endpoint] by simp
  moreover have "within 3 (endpointProg L d ch ctx r ep)" for ctx ep
    by (rule within_mono [OF within_endpoint]) simp
  ultimately have "within 3 (requestProg L d ch r)"
    by (auto simp: requestProg_def intro: within_Return split: option.split list.split)
  moreover have "within 3 (onHub (hangup now c) finished)"
    by (rule within_mono [of "Suc 0"]) (rule within_actions(3), rule within_Return, simp)
  then have "within (Suc 3) (frameProg e new now c frame)" unfolding frameProg_def
    by (intro within_atomic) (auto intro: within_event split: option.split)
  ultimately show ?thesis by (simp add: within_def eval_nat_numeral)
qed

section \<open>On the sample server\<close>

definition oneThread :: "connref option \<Rightarrow> handler \<Rightarrow> System" where
  "oneThread k p = \<lparr>sys_pool = [(k, p)], sys_app = sampleApp\<rparr>"

definition lookThread :: "System \<Rightarrow> nat \<Rightarrow> nat option option" where
  "lookThread s i = (case snd (sys_pool s ! i) of Return x \<Rightarrow> Some (map_option resp_Status x) | Atomic g \<Rightarrow> None)"

lemma oneThread_simps [simp]: "sys_pool (oneThread k p) = [(k, p)]" "sys_app (oneThread k p) = sampleApp"
  by (simp_all add: oneThread_def)

lemma lookThread_Some: "lookThread s i = Some (Some n) \<Longrightarrow> sys_pool s ! i = (k, q) \<Longrightarrow>
    \<exists>resp. sys_pool s ! i = (k, Return (Some resp)) \<and> resp_Status resp = n"
  by (auto simp: lookThread_def split: prog.splits)

definition meRequest :: Request where
  "meRequest = request ''GET'' [''api'', ''auth'', ''me''] (''Bearer '' @ tokenOf ''1'' 100) [] []"

definition sampleStart :: System where
  "sampleStart = startSystem (startup plainLibs 5 6 7 sampleStore [])"

definition sampleRun :: "sys_event list" where
  "sampleRun = [Begin (sampleChance 50) meRequest, Begin (sampleChance 51) meRequest, Resume 1, Resume 0, Resume 0]"

theorem interleaved_inv_witness:
  "app_inv (sys_app (fold (sys_step plainLibs sampleDeps) sampleRun sampleStart))"
  unfolding sampleStart_def by (rule conjunct1 [OF interleaved_inv [OF sampleStore_ok]])

definition shownUser :: "System \<Rightarrow> nat \<Rightarrow> uuid option" where
  "shownUser s i = (case snd (sys_pool s ! i) of Return (Some resp) \<Rightarrow>
     (case resp_Body resp of UserBody user \<Rightarrow> Some (user_ID user) | _ \<Rightarrow> None) | _ \<Rightarrow> None)"

lemma not_foreign: "resp_Body resp = UserBody user \<Longrightarrow> \<not> foreign plainLibs resp"
  by (auto simp: foreign_def plainLibs_def split: list.splits prod.splits)

theorem answers_stay_true_witness:
  "\<exists>user :: User. user_ID user = 1
    \<and> user \<in> fst ` set (st_users (app_store (sys_app (fold (sys_step plainLibs sampleDeps) [Outage False, Resume 1]
         (fold (sys_step plainLibs sampleDeps) sampleRun sampleStart)))))"
proof -
  let ?s = "fold (sys_step plainLibs sampleDeps) sampleRun sampleStart"
  have "shownUser ?s 0 = Some 1" "length (sys_pool ?s) = 2" by code_simp+
  then obtain k resp user where "sys_pool ?s ! 0 = (k, Return (Some resp))" "resp_Body resp = UserBody user" "user_ID user = 1"
    "0 < length (sys_pool ?s)"
    unfolding shownUser_def by (cases "sys_pool ?s ! 0") (auto split: prog.splits option.splits Payload.splits)
  moreover from this have "(k, Return (Some resp)) \<in> set (sys_pool ?s)" by (metis nth_mem)
  ultimately show ?thesis
    using answers_stay_true [OF sampleStore_ok refl _ not_foreign, where resp = resp and later = "[Outage False, Resume 1]"]
    unfolding sampleStart_def by fastforce
qed

theorem alone_is_one_step_witness:
  "\<exists>n. (resume 0 ^^ n) ([(None :: connref option, requestProg plainLibs sampleDeps (sampleChance 50) meRequest)], sampleApp) =
    ([(None, Return (fst (NewRouter plainLibs sampleDeps (sampleChance 50) meRequest sampleApp)))],
     snd (NewRouter plainLibs sampleDeps (sampleChance 50) meRequest sampleApp))"
  using conjunct1 [OF alone_is_one_step [of 0 "[(None, requestProg plainLibs sampleDeps (sampleChance 50) meRequest)]",
      where L = plainLibs and d = sampleDeps and ch = "sampleChance 50" and r = meRequest and a = sampleApp]]
  by simp

theorem actions_bounded_witness:
  "\<exists>resp. amid [sampleApp, sampleApp, sampleApp] (requestProg plainLibs sampleDeps (sampleChance 50) meRequest) = Return resp"
  using conjunct1 [OF actions_bounded [of "[sampleApp, sampleApp, sampleApp]"]] by simp

end
