(* ===== verification/App_Interleavings.thy ===== *)
theory App_Interleavings
  imports App_System
begin

text \<open>
  What requests and frames can rely on between their statements, and what they cannot. The states that a
  goroutine finds are states of the run, in the order of the run (\<open>trail\<close>).
\<close>

section \<open>The states a goroutine finds\<close>

fun trail :: "libs \<Rightarrow> RouterDeps \<Rightarrow> sys_event list \<Rightarrow> System \<Rightarrow> App list" where
  "trail L d [] s = []"
| "trail L d (ev # evs) s = sys_app s # trail L d evs (sys_step L d ev s)"

lemma step_others:
  assumes "i < length (sys_pool s)" "ev \<noteq> Resume i"
  shows "sys_pool (sys_step L d ev s) ! i = sys_pool s ! i" "i < length (sys_pool (sys_step L d ev s))"
  using assms by (cases ev; auto simp: nth_append resume_def split_beta split: prod.split prog.split)+

lemma run_others:
  assumes "i < length (sys_pool s)" "Resume i \<notin> set evs"
  shows "i < length (sys_pool (fold (sys_step L d) evs s)) \<and> sys_pool (fold (sys_step L d) evs s) ! i = sys_pool s ! i"
  using assms(2)
proof (induction evs rule: rev_induct)
  case (snoc ev evs)
  then show ?case using step_others [of i "fold (sys_step L d) evs s" ev L d] by auto
qed (use assms(1) in simp)

lemma step_own:
  assumes "i < length (sys_pool s)" "sys_pool s ! i = (k, Atomic g)"
  shows "sys_step L d (Resume i) s = \<lparr>sys_pool = (sys_pool s)[i := (k, fst (g (sys_app s)))], sys_app = snd (g (sys_app s))\<rparr>"
  using assms by (simp add: resume_def split_beta)

lemma pool_amid:
  assumes "i < length (sys_pool s)" "sys_pool s ! i = (k, p)"
  shows "\<exists>as. sys_pool (fold (sys_step L d) evs s) ! i = (k, amid as p) \<and> subseq as (trail L d evs s)
    \<and> i < length (sys_pool (fold (sys_step L d) evs s))"
  using assms
proof (induction evs arbitrary: s p)
  case (Cons ev evs)
  show ?case
  proof (cases "ev = Resume i \<and> busy p")
    case True
    then obtain g where p: "p = Atomic g" by (cases p) auto
    let ?s = "sys_step L d ev s"
    have "i < length (sys_pool ?s)" "sys_pool ?s ! i = (k, fst (g (sys_app s)))"
      using step_own [of i s k g L d] Cons.prems True p by simp_all
    from Cons.IH [OF this] obtain as where
      "sys_pool (fold (sys_step L d) evs ?s) ! i = (k, amid as (fst (g (sys_app s))))" "subseq as (trail L d evs ?s)"
      "i < length (sys_pool (fold (sys_step L d) evs ?s))" by blast
    then show ?thesis unfolding p by (intro exI [of _ "sys_app s # as"]) simp
  next
    case False
    let ?s = "sys_step L d ev s"
    have "i < length (sys_pool ?s)" "sys_pool ?s ! i = (k, p)"
      using step_others [of i s ev L d] Cons.prems False
      by (cases "ev = Resume i"; cases p; auto simp: resume_def)+
    from Cons.IH [OF this] show ?thesis by auto
  qed
qed (auto intro: exI [of _ "[]"])

section \<open>Access under interference\<close>

lemma amid_authenticated:
  assumes "amid as (authenticate L (extractToken (lib_unicode L) r) secret now next) = p"
  shows "(\<exists>x. p = Return x \<and> pred_option (\<lambda>resp. resp_Status resp = 401) x)
    \<or> as = [] \<and> p = authenticate L (extractToken (lib_unicode L) r) secret now next
    \<or> (\<exists>a as' user. as = a # as' \<and> Require L secret now r (app_store a) = Authorized user \<and> p = amid as' (next user))"
  using assms
  by (cases as) (auto simp: authenticate_def Require_def query_def httpError_def split: option.splits sum.splits if_splits)

lemma amid_history:
  assumes run: "amid as (historyProg L ch (WithUser ctx user) roomId r) = Return (Some resp)" "resp_Status resp = 200"
  obtains a2 a3 rest rid messages where "as = a2 # a3 # rest" "lib_parseUUID L roomId = Some rid"
    "IsRoomMember rid (user_ID user) (app_store a2) = Inr True"
    "ListRoomMessages rid (limitParam 50 r) (parseTimeParam (time_now ch) (queryGet r ''before'')) (app_store a3) = Inr messages"
    "resp = respondJSON 200 (MessagesBody (slice messages))"
proof -
  note errors = respondError_def respondJSON_def
  obtain rid where rid: "lib_parseUUID L roomId = Some rid"
    using run by (cases "lib_parseUUID L roomId") (auto simp: historyProg_def errors)
  obtain a2 as2 where as2: "as = a2 # as2"
    using run(1) rid by (auto simp: historyProg_def query_def amid_atomic)
  have member: "IsRoomMember rid (user_ID user) (app_store a2) = Inr True"
    using run rid as2 by (auto simp: historyProg_def query_def errors split: sum.splits bool.splits)
  obtain a3 rest where rest: "as2 = a3 # rest"
    using run(1) rid as2 member by (auto simp: historyProg_def query_def amid_atomic)
  obtain messages where
    "ListRoomMessages rid (limitParam 50 r) (parseTimeParam (time_now ch) (queryGet r ''before'')) (app_store a3) = Inr messages"
    "resp = respondJSON 200 (MessagesBody (slice messages))"
    using run rid as2 member rest by (auto simp: historyProg_def query_def errors split: sum.splits)
  with that as2 rest rid member show thesis by blast
qed

text \<open>C7. A room history is authorised in every interleaving: when a request for it is answered with messages,
  then earlier in the run the token's account was in the table of users, after that it was a member of
  the room, and after that the messages were read, those of this room.\<close>

theorem history_authorised_in_order:
  assumes begun: "i < length (sys_pool s)" "sys_pool s ! i = (None, requestProg L d ch r)"
    and r: "req_Method r = ''GET''" "req_Path r = [''api'', ''rooms'', roomId, ''messages'']"
      "corsHandler L (CORSOrigins d) r = None"
    and served: "sys_pool (fold (sys_step L d) evs s) ! i = (None, Return (Some resp))" "resp_Status resp = 200"
  shows "\<exists>a1 a2 a3 user rid messages. subseq [a1, a2, a3] (trail L d evs s)
    \<and> Require L (Secret d) (time_now ch) r (app_store a1) = Authorized user \<and> lib_parseUUID L roomId = Some rid
    \<and> IsRoomMember rid (user_ID user) (app_store a2) = Inr True
    \<and> ListRoomMessages rid (limitParam 50 r) (parseTimeParam (time_now ch) (queryGet r ''before'')) (app_store a3) = Inr messages
    \<and> resp_Body resp = MessagesBody (slice messages)"
proof -
  obtain as where as: "amid as (requestProg L d ch r) = Return (Some resp)" "subseq as (trail L d evs s)"
    using pool_amid [OF begun, of L d evs] served(1) by auto
  have "requestProg L d ch r = authenticate L (extractToken (lib_unicode L) r) (Secret d) (time_now ch)
      (\<lambda>user. historyProg L ch (WithUser [] user) roomId r)"
    using r by (simp add: requestProg_def)
  from amid_authenticated [OF as(1) [unfolded this]] served(2)
  obtain a as' user where a: "as = a # as'" "Require L (Secret d) (time_now ch) r (app_store a) = Authorized user"
    "amid as' (historyProg L ch (WithUser [] user) roomId r) = Return (Some resp)"
    by (auto simp: authenticate_def query_def httpError_def split: option.splits if_splits)
  from amid_history [OF a(3) served(2)] obtain a2 a3 rest rid messages where
    as': "as' = a2 # a3 # rest" and facts: "lib_parseUUID L roomId = Some rid" "IsRoomMember rid (user_ID user) (app_store a2) = Inr True"
    "ListRoomMessages rid (limitParam 50 r) (parseTimeParam (time_now ch) (queryGet r ''before'')) (app_store a3) = Inr messages"
    "resp = respondJSON 200 (MessagesBody (slice messages))" .
  have "subseq [a, a2, a3] as" using a(1) as' by simp
  then have "subseq [a, a2, a3] (trail L d evs s)" using as(2) by (rule subseq_order.trans)
  moreover have "resp_Body resp = MessagesBody (slice messages)" using facts(4) by (simp add: respondJSON_def)
  ultimately show ?thesis using a(2) facts(1-3) by blast
qed

lemma authenticate_looks: "authenticate L tok secret now next = Atomic g \<Longrightarrow> snd (g a) = a"
  by (auto simp: authenticate_def query_def atomic_def split: option.splits if_splits)

lemma requestProg_some:
  assumes "corsHandler L (CORSOrigins d) r = None" "matching r = (m, ep) # rs"
  shows "requestProg L d ch r =
    (if protected ep
     then authenticate L (extractToken (lib_unicode L) r) (Secret d) (time_now ch) (\<lambda>user. endpointProg L d ch (WithUser [] user) r ep)
     else endpointProg L d ch [] r ep)"
proof (cases "routes (req_Path r)")
  case (Cons x xs)
  have "filter (\<lambda>(m, _). m = None \<or> m = Some (req_Method r)) (x # xs) = (m, ep) # rs" using assms(2) Cons by simp
  with assms(1) Cons show ?thesis by (simp add: requestProg_def del: filter.simps)
qed (use assms in simp)

text \<open>C14. In every interleaving, an action of a request under \<open>/api\<close>, registration and login apart, changes the
  state only after an earlier action of the same request has found the account of its token.\<close>

theorem effects_after_token:
  assumes begun: "i < length (sys_pool s)" "sys_pool s ! i = (None, requestProg L d ch r)"
    and r: "req_Path r = ''api'' # path" "path \<notin> {[''auth'', ''register''], [''auth'', ''login'']}"
      "corsHandler L (CORSOrigins d) r = None"
    and effect: "sys_app (sys_step L d (Resume i) (fold (sys_step L d) evs s)) \<noteq> sys_app (fold (sys_step L d) evs s)"
  shows "\<exists>a user. a \<in> set (trail L d evs s) \<and> Require L (Secret d) (time_now ch) r (app_store a) = Authorized user
    \<and> user \<in> accounts a"
proof -
  let ?s = "fold (sys_step L d) evs s"
  obtain as where as: "sys_pool ?s ! i = (None, amid as (requestProg L d ch r))" "subseq as (trail L d evs s)"
    "i < length (sys_pool ?s)" using pool_amid [OF begun, of L d evs] by blast
  obtain g where g: "amid as (requestProg L d ch r) = Atomic g" "snd (g (sys_app ?s)) \<noteq> sys_app ?s"
    using effect as(1,3) by (cases "amid as (requestProg L d ch r)") (auto simp: resume_def split_beta)
  obtain m ep rest where m: "matching r = (m, ep) # rest"
    using g(1) r(3) by (cases "matching r") (auto simp: requestProg_def split: list.splits)
  have "protected ep" using api_routes [of m ep path] matching_mem [OF m] r(1,2) by auto
  then have prog: "requestProg L d ch r = authenticate L (extractToken (lib_unicode L) r) (Secret d) (time_now ch)
      (\<lambda>user. endpointProg L d ch (WithUser [] user) r ep)"
    by (simp add: requestProg_some [OF r(3) m])
  have "\<not> (as = [] \<and> Atomic g = requestProg L d ch r)"
    using authenticate_looks g(2) unfolding prog by metis
  then obtain a as' user where
    a: "as = a # as'" "Require L (Secret d) (time_now ch) r (app_store a) = Authorized user"
    using amid_authenticated [OF g(1) [unfolded prog]] unfolding prog by (elim disjE exE conjE) simp_all
  then have "subseq [a] as" by simp
  then have "subseq [a] (trail L d evs s)" using as(2) by (rule subseq_order.trans)
  then have "a \<in> set (trail L d evs s)" by (simp add: subseq_singleton_left)
  with a(2) Require_known [OF a(2)] show ?thesis unfolding accounts_def by blast
qed

section \<open>Check, then act\<close>

lemma resume_atomic:
  "i < length ts \<Longrightarrow> ts ! i = (k, atomic f c) \<Longrightarrow> resume i (ts, a) = (ts[i := (k, c (fst (f a)))], snd (f a))"
  by (simp add: resume_def atomic_def split_beta)

definition roomMessage :: "wsenv \<Rightarrow> uuid \<Rightarrow> int \<Rightarrow> uuid \<Rightarrow> uuid \<Rightarrow> ClientEvent \<Rightarrow> Message" where
  "roomMessage e new now roomID u msg = \<lparr>msg_ID = new, msg_RoomID = Some roomID, SenderID = u, RecipientID = None,
     Body = trimSpace (ce_Body msg), AttachmentURL = ce_AttachmentURL msg, MessageType = MessageTypeText,
     msg_CreatedAt = now, SenderName = [], SenderAvatar = []\<rparr>"

text \<open>C34. Membership is checked before a message is stored, not when: a user who leaves the room between the two
  statements (over HTTP or on another connection) still has the message stored, and broadcast to a room
  of which it is no member.\<close>

theorem left_member_still_posts:
  assumes begun: "i < length (sys_pool s)" "sys_pool s ! i = (Some c, frameProg e new now c (Some msg))"
    and msg: "ce_Type msg = ''message''" "trimSpace (ce_Body msg) \<noteq> []" "parseUUID e (ce_RoomID msg) = Some rid" "ce_RoomID msg \<noteq> []"
    and before: "conn_open (connAt (app_hub (sys_app s)) c)" "userOf (app_hub (sys_app s)) c = u"
      "st_up (app_store (sys_app s))" "isMember (app_store (sys_app s)) rid u"
    and between: "s' = fold (sys_step L d) evs (fold (sys_step L d) [Resume i, Resume i] s)" "Resume i \<notin> set evs"
      "userOf (app_hub (sys_app s')) c = u" "\<not> isMember (app_store (sys_app s')) rid u"
    and ready: "st_up (app_store (sys_app s'))" "isRoom (app_store (sys_app s')) rid" "isUser (app_store (sys_app s')) u"
      "list_all (sql_text (ws_sql e)) [trimSpace (ce_Body msg), ce_AttachmentURL msg, MessageTypeText]"
      "new \<notin> msg_ID ` set (st_messages (app_store (sys_app s')))"
    and after: "a = sys_app (fold (sys_step L d) [Resume i, Resume i] s')"
  shows "roomMessage e new now rid u msg \<in> set (st_messages (app_store a)) \<and> \<not> isMember (app_store a) rid u
    \<and> (\<exists>out \<in> set (conn_pending (connAt (app_hub a) c)). out_roomID out = Some rid)"
proof -
  note defs = queryAs_def execAs_def onHub_def
  define cont where "cont = execAs c (\<lambda>u. CreateMessage (ws_sql e) new now (Some rid) u None (trimSpace (ce_Body msg))
      (ce_AttachmentURL msg) MessageTypeText) (\<lambda>res. case res of
         Inl _ \<Rightarrow> finished
       | Inr message \<Rightarrow> onHub (\<lambda>h. ws_broadcastRoom c rid
           (messageEvent (payloadOf (conn_user (connAt h c)) (Some rid) None message)) None h) finished)"
  have prog: "roomMessageProg e new now c msg (trimSpace (ce_Body msg)) =
      queryAs c (IsRoomMember rid) (\<lambda>member. case member of Inr True \<Rightarrow> cont
        | _ \<Rightarrow> onHub (enqueueTo c (errorEvent ''not a member'')) finished)"
    unfolding cont_def using msg(3) by (simp add: roomMessageProg_def)
  let ?s1 = "fold (sys_step L d) [Resume i, Resume i] s"
  have "eventProg e new now c msg = roomMessageProg e new now c msg (trimSpace (ce_Body msg))"
    using msg(1,2,4) by (simp add: eventProg_def messageProg_def Let_def)
  then have s1: "?s1 = s\<lparr>sys_pool := (sys_pool s)[i := (Some c, cont)]\<rparr>"
    using begun before by (simp add: frameProg_def resume_atomic prog queryAs_def IsRoomMember_def)
  have "i < length (sys_pool s') \<and> sys_pool s' ! i = (Some c, cont)"
    using run_others [OF _ between(2), of ?s1 L d] begun(1) unfolding between(1) s1 by simp
  moreover define st where "st = (app_store (sys_app s'))\<lparr>st_messages := st_messages (app_store (sys_app s')) @ [roomMessage e new now rid u msg]\<rparr>"
  have "CreateMessage (ws_sql e) new now (Some rid) u None (trimSpace (ce_Body msg)) (ce_AttachmentURL msg) MessageTypeText
      (app_store (sys_app s')) = (Inr (roomMessage e new now rid u msg), st)"
    using ready by (simp add: CreateMessage_def roomMessage_def st_def Let_def)
  ultimately have "a = (let h = (app_hub (sys_app s'))\<lparr>hub_store := st\<rparr> in
      (sys_app s')\<lparr>app_hub := ws_broadcastRoom c rid
        (messageEvent (payloadOf (conn_user (connAt h c)) (Some rid) None (roomMessage e new now rid u msg))) None h\<rparr>)"
    unfolding after cont_def execAs_def using between(3) by (simp add: resume_atomic onHub_def setStore_def)
  then show ?thesis
    using between(4) by (simp add: Let_def ws_broadcastRoom_def modConn_def st_def isMember_def)
qed

text \<open>C35. A room is created in two statements, and the error of the second is thrown away: when the database is
  gone for it, or the client (whose request's context ends with its connection), the answer is still
  201, but the room has no member. A private room is then in nobody's list, and its name is taken.\<close>

theorem created_room_without_owner:
  assumes begun: "i < length (sys_pool s)" "sys_pool s ! i = (None, createProg L ch (WithUser ctx user) r)"
    and req: "decodeRoom (req_Body r) = Some req" "2 \<le> length (cr_Name req)" "cr_IsPrivate req"
    and store: "store_ok (app_store (sys_app s))" "CreateRoom (lib_sql L) (new_ID ch) (db_now ch) (cr_Name req) True
      (user_ID user) (app_store (sys_app s)) = (Inr room, st)"
    and s': "s' = fold (sys_step L d) [Resume i, Outage False, Resume i, Outage True] s"
  shows "sys_pool s' ! i = (None, Return (Some (respondJSON 201 (RoomBody room)))) \<and> row_Name room = cr_Name req
    \<and> (\<forall>uid rooms. ListRooms uid (app_store (sys_app s')) = Inr rooms \<longrightarrow> room \<notin> set rooms)
    \<and> fst (CreateRoom (lib_sql L) new now (cr_Name req) p u (app_store (sys_app s'))) = Inl DbError"
proof -
  have "createProg L ch (WithUser ctx user) r =
      exec (CreateRoom (lib_sql L) (new_ID ch) (db_now ch) (cr_Name req) True (user_ID user))
        (\<lambda>res. case res of Inl _ \<Rightarrow> answer (respondError 409 ''room already exists'')
          | Inr room \<Rightarrow> exec (AddRoomMember (lib_sql L) (db_now ch) (row_ID room) (user_ID user) ''owner'')
              (\<lambda>_. answer (respondJSON 201 (RoomBody room))))"
    using req by (simp add: createProg_def)
  then have run: "sys_pool s' ! i = (None, Return (Some (respondJSON 201 (RoomBody room))))"
    "app_store (sys_app s') = st\<lparr>st_up := True\<rparr>"
    unfolding s' using begun store(2) by (simp_all add: exec_def resume_atomic setStore_def AddRoomMember_def)
  have room: "row_Name room = cr_Name req" "row_ID room = new_ID ch" "IsPrivate room" "room \<in> set (st_rooms st)"
    "\<not> isRoom (app_store (sys_app s)) (new_ID ch)" "st_members st = st_members (app_store (sys_app s))"
    using store(2) by (auto simp: CreateRoom_def Let_def split: if_splits)
  then have "\<not> isMember st (new_ID ch) uid" for uid
    using store(1) by (auto simp: store_ok_def isMember_def isRoom_def list_all_iff memberRefs_def)
  moreover have "cr_Name req \<in> row_Name ` set (st_rooms st)" using room(1,4) by (metis imageI)
  ultimately show ?thesis using run room
    by (auto simp: ListRooms_def CreateRoom_def isMember_def Let_def)
qed

section \<open>On the sample server\<close>

definition leaveRequest :: Request where
  "leaveRequest = request ''POST'' [''api'', ''rooms'', ''10'', ''leave''] (''Bearer '' @ tokenOf ''1'' 100) [] []"

definition historySystem :: System where
  "historySystem = oneThread None (requestProg plainLibs sampleDeps (sampleChance 50) historyRequest)"

definition outageEvents :: "sys_event list" where
  "outageEvents = [Resume 0, Outage False, Outage True, Resume 0, Resume 0]"

theorem history_authorised_in_order_witness:
  "\<exists>a1 a2 a3 (user :: User) messages. subseq [a1, a2, a3] (trail plainLibs sampleDeps outageEvents historySystem)
    \<and> IsRoomMember 10 (user_ID user) (app_store a2) = Inr True \<and> ListRoomMessages 10 2 1000000050 (app_store a3) = Inr messages"
proof -
  have thread: "0 < length (sys_pool historySystem)"
    "sys_pool historySystem ! 0 = (None, requestProg plainLibs sampleDeps (sampleChance 50) historyRequest)"
    by (simp_all add: historySystem_def)
  have "lookThread (fold (sys_step plainLibs sampleDeps) outageEvents historySystem) 0 = Some (Some 200)" by code_simp
  then obtain resp where served: "resp_Status resp = 200"
    "sys_pool (fold (sys_step plainLibs sampleDeps) outageEvents historySystem) ! 0 = (None, Return (Some resp))"
    using lookThread_Some pool_amid [OF thread, of plainLibs sampleDeps outageEvents] by blast
  have r: "req_Method historyRequest = ''GET''" "req_Path historyRequest = [''api'', ''rooms'', ''10'', ''messages'']"
    by (simp_all add: historyRequest_def request_def)
  have facts: "limitParam 50 historyRequest = 2" "lib_parseUUID plainLibs ''10'' = Some 10"
    "parseTimeParam (time_now (sampleChance 50)) (queryGet historyRequest ''before'') = 1000000050"
    by code_simp+
  show ?thesis
    using history_authorised_in_order [OF thread r sample_facts(1) served(2,1)] unfolding facts
    by (simp only: option.inject) blast
qed

definition leaveSystem :: System where
  "leaveSystem = oneThread None (requestProg plainLibs sampleDeps (sampleChance 50) leaveRequest)"

theorem effects_after_token_witness:
  "\<exists>a user. a \<in> set (trail plainLibs sampleDeps [Resume 0] leaveSystem) \<and> user \<in> accounts a
    \<and> Require plainLibs (Secret sampleDeps) (time_now (sampleChance 50)) leaveRequest (app_store a) = Authorized user"
proof -
  let ?s = "fold (sys_step plainLibs sampleDeps) [Resume 0] leaveSystem"
  have "isMember (app_store (sys_app ?s)) 10 1"
    "\<not> isMember (app_store (sys_app (sys_step plainLibs sampleDeps (Resume 0) ?s))) 10 1" by code_simp+
  then have "sys_app (sys_step plainLibs sampleDeps (Resume 0) ?s) \<noteq> sys_app ?s" by metis
  from effects_after_token [OF _ _ _ _ sample_facts(1) this, of "sampleChance 50" leaveRequest "[''rooms'', ''10'', ''leave'']"]
  show ?thesis by (auto simp: leaveSystem_def leaveRequest_def request_def)
qed

definition messageSystem :: System where
  "messageSystem = oneThread (Some 0) (frameProg plainEnv 99 60 0 (Some (chatMsg ''10'' [] ''hi'')))"

definition leftSystem :: System where
  "leftSystem = fold (sys_step plainLibs sampleDeps) [Begin (sampleChance 50) leaveRequest, Resume 1, Resume 1]
     (fold (sys_step plainLibs sampleDeps) [Resume 0, Resume 0] messageSystem)"

definition lookSystem :: "System \<Rightarrow> uuid \<times> bool \<times> bool \<times> bool \<times> bool \<times> uuid list" where
  "lookSystem s = (userOf (app_hub (sys_app s)) 0, isMember (app_store (sys_app s)) 10 1, st_up (app_store (sys_app s)),
     isRoom (app_store (sys_app s)) 10, isUser (app_store (sys_app s)) 1, map msg_ID (st_messages (app_store (sys_app s))))"

lemma look_leftSystem: "lookSystem leftSystem = (1, False, True, True, True, [21, 22, 23, 24])"
  by code_simp

theorem left_member_still_posts_witness:
  "\<exists>a. roomMessage plainEnv 99 60 10 1 (chatMsg ''10'' [] ''hi'') \<in> set (st_messages (app_store a)) \<and> \<not> isMember (app_store a) 10 1"
proof -
  have thread: "0 < length (sys_pool messageSystem)"
    "sys_pool messageSystem ! 0 = (Some 0, frameProg plainEnv 99 60 0 (Some (chatMsg ''10'' [] ''hi'')))"
    by (simp_all add: messageSystem_def)
  have msg: "ce_Type (chatMsg ''10'' [] ''hi'') = ''message''" "trimSpace (ce_Body (chatMsg ''10'' [] ''hi'')) \<noteq> []"
    "parseUUID plainEnv (ce_RoomID (chatMsg ''10'' [] ''hi'')) = Some 10" "ce_RoomID (chatMsg ''10'' [] ''hi'') \<noteq> []" by code_simp+
  have before: "conn_open (connAt (app_hub (sys_app messageSystem)) 0)" "userOf (app_hub (sys_app messageSystem)) 0 = 1"
    "st_up (app_store (sys_app messageSystem))" "isMember (app_store (sys_app messageSystem)) 10 1" by code_simp+
  have between: "userOf (app_hub (sys_app leftSystem)) 0 = 1" "\<not> isMember (app_store (sys_app leftSystem)) 10 1"
    "st_up (app_store (sys_app leftSystem))" "isRoom (app_store (sys_app leftSystem)) 10" "isUser (app_store (sys_app leftSystem)) 1"
    using look_leftSystem by (simp_all add: lookSystem_def)
  have "map msg_ID (st_messages (app_store (sys_app leftSystem))) = [21, 22, 23, 24]"
    using look_leftSystem by (simp add: lookSystem_def)
  then have "99 \<notin> set (map msg_ID (st_messages (app_store (sys_app leftSystem))))" by (simp only:) simp
  then have fresh: "99 \<notin> msg_ID ` set (st_messages (app_store (sys_app leftSystem)))" by (simp only: set_map not_False_eq_True)
  have texts: "list_all (sql_text (ws_sql plainEnv)) [trimSpace (ce_Body (chatMsg ''10'' [] ''hi'')), ce_AttachmentURL (chatMsg ''10'' [] ''hi''), MessageTypeText]"
    by code_simp
  have "Resume 0 \<notin> set [Begin (sampleChance 50) leaveRequest, Resume 1, Resume 1]" by simp
  note posted = left_member_still_posts [OF thread msg before leftSystem_def this between texts fresh refl]
  show ?thesis using conjunct1 [OF posted] conjunct1 [OF conjunct2 [OF posted]] by (intro exI conjI)
qed

definition privateRoom :: Request where
  "privateRoom = request ''POST'' [''api'', ''rooms''] [] [] (encodeJSON (JObject [(''name'', JString ''den''), (''isPrivate'', JBool True)]))"

definition createSystem :: System where
  "createSystem = oneThread None (createProg plainLibs (sampleChance 50) (WithUser [] (sampleUser 0)) privateRoom)"

theorem created_room_without_owner_witness:
  "\<exists>room s'. s' = fold (sys_step plainLibs sampleDeps) [Resume 0, Outage False, Resume 0, Outage True] createSystem
    \<and> sys_pool s' ! 0 = (None, Return (Some (respondJSON 201 (RoomBody room)))) \<and> row_Name room = ''den''
    \<and> (\<forall>uid rooms. ListRooms uid (app_store (sys_app s')) = Inr rooms \<longrightarrow> room \<notin> set rooms)"
proof -
  have thread: "0 < length (sys_pool createSystem)"
    "sys_pool createSystem ! 0 = (None, createProg plainLibs (sampleChance 50) (WithUser [] (sampleUser 0)) privateRoom)"
    by (simp_all add: createSystem_def)
  let ?req = "\<lparr>cr_Name = ''den'', cr_IsPrivate = True\<rparr>"
  have req: "decodeRoom (req_Body privateRoom) = Some ?req" "2 \<le> length (cr_Name ?req)" "cr_IsPrivate ?req" by code_simp+
  have "\<not> isl (fst (CreateRoom (lib_sql plainLibs) (new_ID (sampleChance 50)) (db_now (sampleChance 50)) (cr_Name ?req) True
      (user_ID (sampleUser 0)) (app_store (sys_app createSystem))))" by code_simp
  then obtain room st where made: "CreateRoom (lib_sql plainLibs) (new_ID (sampleChance 50)) (db_now (sampleChance 50)) (cr_Name ?req) True
      (user_ID (sampleUser 0)) (app_store (sys_app createSystem)) = (Inr room, st)"
    by (metis isl_def prod.exhaust_sel sum.exhaust_sel)
  have "store_ok (app_store (sys_app createSystem))" using sampleApp_inv by (simp add: createSystem_def app_inv_def)
  note orphan = created_room_without_owner [OF thread req this made refl, of sampleDeps]
  have "row_Name room = ''den''" using orphan by simp
  then show ?thesis using conjunct1 [OF orphan] conjunct1 [OF conjunct2 [OF conjunct2 [OF orphan]]] by (intro exI [of _ room] exI [of _ "fold (sys_step plainLibs sampleDeps) [Resume 0, Outage False, Resume 0, Outage True] createSystem"] conjI refl)
qed

end
