(* ===== verification/Spec2Isabelle.thy ===== *)
theory Spec2Isabelle
  imports Chat_Properties Chat_Races Chat_Listen Ws_Progress App_Lifecycle App_Interleavings
begin

text \<open>
  A verification development for livechat-server, a chat program in Go.

  \<^bold>\<open>The program.\<close> It has two servers that share nothing. The one \<open>main.go\<close> starts is an HTTP API with a
  WebSocket gateway over a PostgreSQL database: \<open>internal/config\<close>, \<open>internal/store\<close>, \<open>internal/auth\<close>,
  \<open>internal/http\<close>, \<open>internal/ws\<close>. Requests go through the router and the token middleware to handlers, which
  use the store; the WebSocket hub keeps who is connected and subscribed to which room, and its
  connections use the same store. The other, \<open>internal/chat\<close>, is a line-based TCP chat server with
  everything in memory; no \<open>main\<close> starts it.

  \<^bold>\<open>The theories.\<close>

  \<^item> Prelude: Go maps as association lists, and the interfaces the parts share, as locales: a machine
    with an invariant (\<open>event_machine\<close>), one that implements an abstract one (\<open>refined_machine\<close>), a
    bounded outgoing channel (\<open>bounded_outbox\<close>). Each is interpreted on the code's model.
  \<^item> Go\_Strings, Go\_Numbers: what the program uses of \<open>strings\<close>, \<open>unicode/utf8\<close>, \<open>strconv\<close> and \<open>fmt\<close>. A Go
    string is a list of bytes. Unicode's tables are an argument, with what is relied on in \<open>unicode_ok\<close>.
    Go\_Json, Go\_Time: the encoder and the decoder of \<open>encoding/json\<close>, the calendar and the RFC 3339 texts of
    \<open>time\<close>, each with the lemma that what is written is read back.
  \<^item> Chat\_Util, Chat\_Config, Chat\_Room, Chat\_Client, Chat\_Server: \<open>util.go\<close>, \<open>config.go\<close>, \<open>room.go\<close>,
    \<open>client.go\<close>, \<open>server.go\<close>, one definition for each function. Pointers are references into the heaps
    \<open>clientAt\<close> and \<open>roomAt\<close>; a panic is \<open>None\<close> or the flag \<open>crashed\<close>. Chat\_Listen is the accept loop.
  \<^item> Chat\_Core, Chat\_Moves, Chat\_Sessions, Chat\_Invariant: the state's consistency and its preservation by
    sending, moving between rooms, commands and departures, and connections; Chat\_Safe: what is kept
    even when lines are handled after their client was shut down. Chat\_Presence, Chat\_Properties: the
    refinement of an abstract machine of who is online under which nick in which room, and what each
    command does. Chat\_Names, Chat\_Races: nicks that leak, and what happens between critical sections.
  \<^item> Store, Store\_Laws: the SQL statements of \<open>store.go\<close> on lists of rows, with the keys and references of
    \<open>db/migrations/001_init.sql\<close>; tables stay consistent; memberships (locale \<open>membership\<close>), pages of
    messages, look-ups.
  \<^item> Ws\_Hub: \<open>messages.go\<close>, \<open>conn.go\<close>, \<open>hub.go\<close>; a turn of each goroutine is one function, and \<open>hub_step\<close> is
    one turn of any. Ws\_Invariant, Ws\_Properties, Ws\_Progress: the registers, delivery, memberships,
    and what becomes of blocked and abandoned goroutines.
  \<^item> Http\_Auth: \<open>auth.go\<close>, the middleware, the head of \<open>ServeWS\<close>. Http\_Handlers: the handlers and the
    router, on the state \<open>App\<close> of hub, store and files. Http\_Laws: what is relied on in the packages
    outside the repository (\<open>libs_ok\<close>), and an instance. Http\_Wire: the JSON of bodies and frames, from the
    tags of the structs. Http\_Properties, Http\_Accounts, Http\_Data, Http\_Exchange: tokens, refusals,
    accounts, histories, uploads, and what a client sees on the wire.
  \<^item> App\_Config: \<open>config.go\<close> with \<open>time.ParseDuration\<close>, and what \<open>main\<close> builds. App\_Invariant: requests, turns
    of WebSocket goroutines and outages of the database as one machine. App\_Properties: configuration
    and start. App\_Lifecycle: the process of \<open>main\<close>, from \<open>ListenAndServe\<close> through the signal and \<open>Shutdown\<close>
    to its exit.
  \<^item> Go\_Threads: a goroutine as the atomic actions it has still to do, pools of goroutines, and a
    rely-guarantee argument as the locale \<open>goroutines\<close>. App\_Threads: requests and frames as goroutines, one
    action for each statement and each access to the hub; run alone they are the handlers. App\_Answers:
    accounts, rooms and messages stay, and answers show rows. App\_Sound: every action keeps what the others
    rely on. App\_System, App\_Interleavings: the server in every interleaving, what it keeps, how many
    actions a handler takes, what is checked before what, and what can come between check and act.

  \<^bold>\<open>Concurrency.\<close> In Http\_Handlers and Ws\_Hub a handler or turn is one step; App\_Threads takes the
  handlers apart into their statements, so that others come in between. In the chat server, a
  handler is one step, and Chat\_Races takes apart those whose critical sections can interleave. The
  machine of Chat\_Invariant runs lines also after their client was shut down, as \<open>readLoop\<close> does with what is
  in its buffer; exact agreement of registers, nicks and rooms is claimed of orderly runs, which have no
  such line, and Chat\_Races shows that it fails in others. In the hub, sends to the channel \<open>broadcast\<close>,
  which may block, are steps of their own: a frame leaves what it has to send in \<open>conn_pending\<close>, and its
  connection reads no other frame until that is empty. The hand-over on the unbuffered channels \<open>register\<close>
  and \<open>unregister\<close> is one step with what the hub then does.

  \<^bold>\<open>Bounds and fuel.\<close> No definition uses fuel: every loop is structural or has a measure. Channel
  capacities are the code's (64 and 128). Lengths and counters are unbounded except where overflow
  could be seen: the connection counter (whose wrap at 2^64 connections the machine excludes) and
  \<open>MAX_UPLOAD_MB\<close> are 64-bit words, \<open>ParseInt\<close> and \<open>ParseDuration\<close> check their ranges, and the sum in \<open>ParseDuration\<close> wraps at 64 bits. JSON values nest at most 10000 deep, which
  is the decoder's own limit.

  \<^bold>\<open>Arguments.\<close> Packages outside the repository are arguments of the definitions: JWT, bcrypt, uuid, the
  CORS middleware; so are the clock, fresh ids, the database's collation, and of the standard library
  the multipart decoder, the file server and the outcome of file operations.
  Hypotheses on them are \<open>libs_ok\<close>, \<open>unicode_ok\<close> and, per property, the equations it names.

  \<^bold>\<open>Not modelled.\<close> Log output, sockets and their deadlines, the WebSocket upgrade and
  ping frames, frames still in the socket library's buffer when the writer has closed the connection,
  cancelled queries, the connection pool, response headers; the React frontend; Redis, which the code
  names but does not use.
\<close>

end
